(* ===== verification/Prelude.thy ===== *)
theory Prelude
  imports Main "HOL-Library.AList"
begin

text \<open>
  Shared vocabulary of the development: the exceptions a Python statement of the program
  can raise, results that are a value or an exception, dictionaries as association lists
  in insertion order, and the rules the component proofs use on them.
\<close>

named_theorems py_defs \<open>definitions of the Python library functions, to evaluate a run\<close>
named_theorems msg_defs \<open>definitions of attribute names and message shapes\<close>

section \<open>Exceptions and results\<close>

datatype py_error =
    KeyError string
  | IndexError
  | TypeError
  | ValueError
  | AttributeError string
  | NameError string
  | ZeroDivisionError
  | JSONDecodeError
  | OSError
  | ModuleNotFoundError string
  | GenericException string

type_synonym 'a res = "py_error + 'a"

definition bind_res :: "'a res \<Rightarrow> ('a \<Rightarrow> 'b res) \<Rightarrow> 'b res" where
  "bind_res r f = (case r of Inl e \<Rightarrow> Inl e | Inr x \<Rightarrow> f x)"

lemma bind_res_simps [simp]:
  "bind_res (Inl e) f = Inl e"
  "bind_res (Inr x) f = f x"
  by (simp_all add: bind_res_def)

lemma bind_res_Inr_iff: "bind_res r f = Inr y \<longleftrightarrow> (\<exists>x. r = Inr x \<and> f x = Inr y)"
  by (cases r) auto

lemma bind_res_Inl_iff:
  "bind_res r f = Inl e \<longleftrightarrow> r = Inl e \<or> (\<exists>x. r = Inr x \<and> f x = Inl e)"
  by (cases r) auto

definition is_ok :: "'a res \<Rightarrow> bool" where
  "is_ok r = (case r of Inl _ \<Rightarrow> False | Inr _ \<Rightarrow> True)"

lemma is_ok_simps [simp]: "is_ok (Inr x)" "\<not> is_ok (Inl e)"
  by (simp_all add: is_ok_def)

lemma is_ok_iff: "is_ok r \<longleftrightarrow> (\<exists>x. r = Inr x)"
  by (cases r) auto

text \<open>A call that reads and writes a state and may raise; the state survives the exception.\<close>

definition bind_st :: "('a res \<times> 's) \<Rightarrow> ('a \<Rightarrow> 's \<Rightarrow> 'b res \<times> 's) \<Rightarrow> 'b res \<times> 's" where
  "bind_st p f = (case p of (r, s) \<Rightarrow> (case r of Inl e \<Rightarrow> (Inl e, s) | Inr x \<Rightarrow> f x s))"

lemma bind_st_simps [simp]:
  "bind_st (Inl e, s) f = (Inl e, s)"
  "bind_st (Inr x, s) f = f x s"
  by (simp_all add: bind_st_def)

lemma bind_st_Inr_iff:
  "bind_st p f = (Inr y, t) \<longleftrightarrow> (\<exists>x s. p = (Inr x, s) \<and> f x s = (Inr y, t))"
  by (cases p; cases "fst p") auto

section \<open>Dictionaries\<close>

text \<open>
  A Python dictionary keeps its keys in insertion order: it is an association list, read by
  \<^term>\<open>map_of\<close> and written by \<^term>\<open>AList.update\<close>, which overwrites in place or appends.
\<close>

type_synonym ('k, 'v) dict = "('k \<times> 'v) list"

abbreviation keys :: "('k, 'v) dict \<Rightarrow> 'k list" where
  "keys d \<equiv> map fst d"

definition dict_index :: "(string, 'v) dict \<Rightarrow> string \<Rightarrow> 'v res" where
  "dict_index d k = (case map_of d k of None \<Rightarrow> Inl (KeyError k) | Some v \<Rightarrow> Inr v)"

definition dict_get :: "('k, 'v) dict \<Rightarrow> 'k \<Rightarrow> 'v \<Rightarrow> 'v" where
  "dict_get d k dflt = (case map_of d k of None \<Rightarrow> dflt | Some v \<Rightarrow> v)"

definition dict_of_pairs :: "('k \<times> 'v) list \<Rightarrow> ('k, 'v) dict" where
  "dict_of_pairs ps = fold (\<lambda>(k, v) d. AList.update k v d) ps []"

lemma dict_index_Cons [simp]:
  "dict_index ((k', v) # d) k = (if k' = k then Inr v else dict_index d k)"
  "dict_index [] k = Inl (KeyError k)"
  by (auto simp: dict_index_def)

lemma dict_get_Cons [simp]:
  "dict_get ((k', v) # d) k dflt = (if k' = k then v else dict_get d k dflt)"
  "dict_get [] k dflt = dflt"
  by (auto simp: dict_get_def)

lemma dict_index_Inr: "dict_index d k = Inr v \<longleftrightarrow> map_of d k = Some v"
  by (auto simp: dict_index_def split: option.splits)

lemma dict_index_key: "k \<in> set (keys d) \<Longrightarrow> \<exists>v. dict_index d k = Inr v"
  using map_of_eq_None_iff [of d k] by (cases "map_of d k") (auto simp: dict_index_def)

lemma update_fresh: "k \<notin> set (keys d) \<Longrightarrow> AList.update k v d = d @ [(k, v)]"
  by (induction d) auto

lemma dict_of_pairs_distinct_aux:
  "distinct (keys (d @ ps)) \<Longrightarrow> fold (\<lambda>(k, v) d. AList.update k v d) ps d = d @ ps"
proof (induction ps arbitrary: d)
  case Nil
  then show ?case by simp
next
  case (Cons p ps)
  obtain k v where p: "p = (k, v)" by (cases p)
  with Cons.prems have "AList.update k v d = d @ [(k, v)]"
    by (intro update_fresh) auto
  moreover have "distinct (keys ((d @ [(k, v)]) @ ps))"
    using Cons.prems p by simp
  ultimately show ?case
    using Cons.IH [of "d @ [(k, v)]"] p by simp
qed

lemma dict_of_pairs_distinct: "distinct (keys ps) \<Longrightarrow> dict_of_pairs ps = ps"
  using dict_of_pairs_distinct_aux [of "[]" ps] by (simp add: dict_of_pairs_def)

section \<open>Lists\<close>

lemma in_set_takeWhile: "x \<in> set (takeWhile P xs) \<Longrightarrow> P x"
  by (rule set_takeWhileD [THEN conjunct2])

lemma takeWhile_append_stop:
  "list_all P xs \<Longrightarrow> (ys = [] \<or> \<not> P (hd ys)) \<Longrightarrow> takeWhile P (xs @ ys) = xs"
  by (induction xs) (auto simp: takeWhile_eq_Nil_iff)

lemma dropWhile_append_stop:
  "list_all P xs \<Longrightarrow> (ys = [] \<or> \<not> P (hd ys)) \<Longrightarrow> dropWhile P (xs @ ys) = ys"
  by (induction xs) (auto simp: dropWhile_eq_self_iff)

end
