(* ===== verification/FifoInterface.thy ===== *)
theory FifoInterface
  imports Prelude
begin

text \<open>
  The contract between a message queue and its users: a bounded first-in first-out buffer
  with an abstraction to the list of waiting messages. The laws are proved for the ring of
  \<^verbatim>\<open>test_client.py\<close> in the theory of that component; what a user may rely on (messages
  arrive once, in order, and none is invented) is proved here once, from the laws.
\<close>

datatype 'a fifo_op = Put 'a | Get

text \<open>A run of operations: the accepted messages, the delivered ones, the final queue.\<close>

fun fifo_run ::
  "('a \<Rightarrow> 'q \<Rightarrow> bool \<times> 'q) \<Rightarrow> ('q \<Rightarrow> 'a option res \<times> 'q) \<Rightarrow> 'a fifo_op list \<Rightarrow> 'q
   \<Rightarrow> 'a list \<times> 'a list \<times> 'q"
where
  "fifo_run put get [] q = ([], [], q)"
| "fifo_run put get (Put x # ops) q =
     (case put x q of (b, q1) \<Rightarrow>
        (case fifo_run put get ops q1 of (acc, dlv, q') \<Rightarrow>
           ((if b then x # acc else acc), dlv, q')))"
| "fifo_run put get (Get # ops) q =
     (case get q of (r, q1) \<Rightarrow>
        (case fifo_run put get ops q1 of (acc, dlv, q') \<Rightarrow>
           (acc, (case r of Inr (Some x) \<Rightarrow> x # dlv | _ \<Rightarrow> dlv), q')))"

locale bounded_fifo =
  fixes put :: "'a \<Rightarrow> 'q \<Rightarrow> bool \<times> 'q"
    and get :: "'q \<Rightarrow> 'a option res \<times> 'q"
    and waiting :: "'q \<Rightarrow> 'a list"
    and cap :: "'q \<Rightarrow> nat"
    and ok :: "'q \<Rightarrow> bool"
  assumes put_accepts:
      "ok q \<Longrightarrow> length (waiting q) < cap q \<Longrightarrow>
       \<exists>q'. put x q = (True, q') \<and> ok q' \<and> cap q' = cap q \<and> waiting q' = waiting q @ [x]"
    and put_refuses: "ok q \<Longrightarrow> \<not> length (waiting q) < cap q \<Longrightarrow> put x q = (False, q)"
    and get_some:
      "ok q \<Longrightarrow> waiting q = x # xs \<Longrightarrow>
       \<exists>q'. get q = (Inr (Some x), q') \<and> ok q' \<and> cap q' = cap q \<and> waiting q' = xs"
    and get_none: "ok q \<Longrightarrow> waiting q = [] \<Longrightarrow> get q = (Inr None, q)"
begin

lemma put_result:
  assumes "ok q" "put x q = (b, q')"
  shows "ok q' \<and> cap q' = cap q \<and> b = (length (waiting q) < cap q) \<and>
         waiting q' = (if b then waiting q @ [x] else waiting q)"
  using put_accepts [OF assms(1), of x] put_refuses [OF assms(1), of x] assms
  by (cases "length (waiting q) < cap q") auto

lemma get_result:
  assumes "ok q" "get q = (r, q')"
  shows "ok q' \<and> cap q' = cap q \<and>
         (case waiting q of [] \<Rightarrow> r = Inr None \<and> q' = q
          | x # xs \<Rightarrow> r = Inr (Some x) \<and> waiting q' = xs)"
  using get_some [OF assms(1)] get_none [OF assms(1)] assms(2) assms(1)
  by (cases "waiting q") force+

lemma run_conserves:
  "ok q \<Longrightarrow> fifo_run put get ops q = (acc, dlv, q') \<Longrightarrow>
   ok q' \<and> cap q' = cap q \<and> dlv @ waiting q' = waiting q @ acc"
proof (induction ops arbitrary: q acc dlv)
  case Nil
  then show ?case by simp
next
  case (Cons op ops)
  show ?case
  proof (cases op)
    case (Put x)
    obtain b q1 where q1: "put x q = (b, q1)" by (cases "put x q")
    obtain acc' where *: "fifo_run put get ops q1 = (acc', dlv, q')"
        "acc = (if b then x # acc' else acc')"
      using Cons.prems(2) Put q1 by (auto split: prod.splits)
    note r = put_result [OF Cons.prems(1) q1]
    then show ?thesis using Cons.IH [of q1, OF _ *(1)] *(2) by (auto split: if_splits)
  next
    case Get
    obtain r q1 where q1: "get q = (r, q1)" by (cases "get q")
    obtain dlv' where *: "fifo_run put get ops q1 = (acc, dlv', q')"
        "dlv = (case r of Inr (Some x) \<Rightarrow> x # dlv' | _ \<Rightarrow> dlv')"
      using Cons.prems(2) Get q1 by (auto split: prod.splits)
    note r = get_result [OF Cons.prems(1) q1]
    then show ?thesis using Cons.IH [of q1, OF _ *(1)] *(2)
      by (auto split: list.splits)
  qed
qed

text \<open>No message is lost while there is room for all of them.\<close>

lemma run_accepts_all:
  "ok q \<Longrightarrow> length (waiting q) + length xs \<le> cap q \<Longrightarrow>
   \<exists>q'. fifo_run put get (map Put xs) q = (xs, [], q') \<and> ok q' \<and> waiting q' = waiting q @ xs"
proof (induction xs arbitrary: q)
  case Nil
  then show ?case by simp
next
  case (Cons x xs)
  then obtain q1 where "put x q = (True, q1)" "ok q1" "cap q1 = cap q" "waiting q1 = waiting q @ [x]"
    using put_accepts [OF Cons.prems(1), of x] by auto
  then show ?case using Cons.IH [of q1] Cons.prems(2) by auto
qed

end

end
