(* ===== verification/PyStd.thy ===== *)
theory PyStd
  imports Prelude
begin

text \<open>
  The functions of Python's standard library on strings and paths that the program calls:
  \<^verbatim>\<open>os.path.join\<close>, \<^verbatim>\<open>os.path.basename\<close>, \<^verbatim>\<open>str.startswith\<close>, \<^verbatim>\<open>str.endswith\<close>,
  \<^verbatim>\<open>str.split\<close>, \<^verbatim>\<open>int(str)\<close> and \<^verbatim>\<open>str(int)\<close>. A string is a list of characters with
  codes below 256; encoding to UTF-8 and back is the identity on it.
\<close>

section \<open>Prefixes, suffixes and paths\<close>

definition startswith :: "string \<Rightarrow> string \<Rightarrow> bool" where
  [py_defs]: "startswith s p \<longleftrightarrow> take (length p) s = p"

definition endswith :: "string \<Rightarrow> string \<Rightarrow> bool" where
  [py_defs]: "endswith s p \<longleftrightarrow> take (length p) (rev s) = rev p"

definition path_join :: "string \<Rightarrow> string \<Rightarrow> string" where
  [py_defs]: "path_join a b =
     (if startswith b ''/'' then b
      else if a = [] \<or> endswith a ''/'' then a @ b
      else a @ ''/'' @ b)"

definition basename :: "string \<Rightarrow> string" where
  [py_defs]: "basename s = rev (takeWhile (\<lambda>c. c \<noteq> CHR ''/'') (rev s))"

fun split_on :: "char \<Rightarrow> string \<Rightarrow> string list" where
  "split_on d [] = [[]]"
| "split_on d (c # cs) =
     (if c = d then [] # split_on d cs
      else (case split_on d cs of [] \<Rightarrow> [[c]] | w # ws \<Rightarrow> (c # w) # ws))"

lemma endswith_iff: "endswith s p \<longleftrightarrow> (\<exists>r. s = r @ p)"
proof
  assume "endswith s p"
  then have "rev s = rev p @ drop (length p) (rev s)"
    unfolding endswith_def by (metis append_take_drop_id)
  then have "s = rev (drop (length p) (rev s)) @ p"
    by (metis rev_append rev_rev_ident)
  then show "\<exists>r. s = r @ p" ..
qed (auto simp: endswith_def)

lemma startswith_iff: "startswith s p \<longleftrightarrow> (\<exists>r. s = p @ r)"
  by (auto simp: startswith_def) (metis append_take_drop_id)

lemma basename_no_slash: "CHR ''/'' \<notin> set (basename s)"
  by (auto simp: basename_def dest: in_set_takeWhile)

lemma basename_file: "CHR ''/'' \<notin> set b \<Longrightarrow> a = [] \<or> last a = CHR ''/'' \<Longrightarrow> basename (a @ b) = b"
proof -
  assume b: "CHR ''/'' \<notin> set b" and a: "a = [] \<or> last a = CHR ''/''"
  have "list_all (\<lambda>c. c \<noteq> CHR ''/'') (rev b)" "rev a = [] \<or> \<not> hd (rev a) \<noteq> CHR ''/''"
    using a b by (auto simp: list_all_iff hd_rev)
  from takeWhile_append_stop [OF this] show ?thesis by (simp add: basename_def)
qed

lemma split_on_not_Nil [simp]: "split_on d s \<noteq> []"
  by (induction s) (auto split: list.splits)

text \<open>Joining the parts with the separator gives the text back.\<close>

lemma split_on_join: "concat (map (\<lambda>w. d # w) (split_on d s)) = d # s"
  by (induction s) (auto split: list.splits)

lemma split_on_parts: "w \<in> set (split_on d s) \<Longrightarrow> d \<notin> set w"
  by (induction s arbitrary: w) (auto split: list.splits if_splits)

section \<open>Decimal numbers\<close>

definition digit_val :: "char \<Rightarrow> nat" where
  [py_defs]: "digit_val c = of_char c - 48"

definition is_digit :: "char \<Rightarrow> bool" where
  [py_defs]: "is_digit c \<longleftrightarrow> (48::nat) \<le> of_char c \<and> of_char c \<le> (57::nat)"

definition digit_char :: "nat \<Rightarrow> char" where
  [py_defs]: "digit_char n = char_of (48 + n)"

definition nat_of_digits :: "string \<Rightarrow> nat" where
  [py_defs]: "nat_of_digits ds = foldl (\<lambda>n c. 10 * n + digit_val c) 0 ds"

fun show_nat :: "nat \<Rightarrow> string" where
  "show_nat n = (if n < 10 then [digit_char n] else show_nat (n div 10) @ [digit_char (n mod 10)])"

declare show_nat.simps [simp del]

definition show_int :: "int \<Rightarrow> string" where
  [py_defs]: "show_int i = (if i < 0 then CHR ''-'' # show_nat (nat (- i)) else show_nat (nat i))"

definition is_space :: "char \<Rightarrow> bool" where
  [py_defs]: "is_space c \<longleftrightarrow> (of_char c :: nat) \<in> {9, 10, 11, 12, 13, 28, 29, 30, 31, 32, 133, 160}"

definition strip :: "string \<Rightarrow> string" where
  [py_defs]: "strip s = rev (dropWhile is_space (rev (dropWhile is_space s)))"

text \<open>\<^verbatim>\<open>int(s)\<close> for text without underscores between the digits.\<close>

definition py_int :: "string \<Rightarrow> int res" where
  [py_defs]: "py_int s0 =
     (let s = strip s0;
          neg = (s \<noteq> [] \<and> hd s = CHR ''-'');
          ds = (if s \<noteq> [] \<and> (hd s = CHR ''-'' \<or> hd s = CHR ''+'') then tl s else s)
      in if ds = [] \<or> \<not> list_all is_digit ds then Inl ValueError
         else Inr (if neg then - int (nat_of_digits ds) else int (nat_of_digits ds)))"

lemma digit_char_simps [simp]:
  "n < 10 \<Longrightarrow> is_digit (digit_char n)"
  "n < 10 \<Longrightarrow> digit_val (digit_char n) = n"
  by (simp_all add: is_digit_def digit_char_def digit_val_def of_char_of take_bit_eq_mod)

lemma digit_char_zero:
  assumes n: "n < 10"
  shows "digit_char n = CHR ''0'' \<longleftrightarrow> n = 0"
proof
  assume "digit_char n = CHR ''0''"
  then have "digit_val (digit_char n) = digit_val (CHR ''0'')" by simp
  with n show "n = 0" by (simp add: digit_val_def del: digit_char_simps) (simp add: digit_char_def of_char_of take_bit_eq_mod)
next
  assume "n = 0"
  then show "digit_char n = CHR ''0''" by (simp add: digit_char_def char_of_eq_iff take_bit_eq_mod)
qed

lemma nat_of_digits_snoc [simp]: "nat_of_digits (ds @ [c]) = 10 * nat_of_digits ds + digit_val c"
  by (simp add: nat_of_digits_def)

lemma show_nat_digits: "list_all is_digit (show_nat n)"
  by (induction n rule: show_nat.induct) (subst show_nat.simps, auto)

lemma show_nat_not_Nil [simp]: "show_nat n \<noteq> []"
  by (subst show_nat.simps) simp

lemma nat_of_show_nat [simp]: "nat_of_digits (show_nat n) = n"
proof (induction n rule: show_nat.induct)
  case (1 n)
  show ?case
  proof (cases "n < 10")
    case True
    then show ?thesis by (subst show_nat.simps) (simp add: nat_of_digits_def)
  next
    case False
    with 1 show ?thesis by (subst show_nat.simps) simp
  qed
qed

lemma hd_show_nat: "hd (show_nat n) = CHR ''0'' \<longleftrightarrow> n = 0"
proof (induction n rule: show_nat.induct)
  case (1 n)
  show ?case
  proof (cases "n < 10")
    case True
    then show ?thesis by (subst show_nat.simps) (simp add: digit_char_zero)
  next
    case False
    moreover have "n div 10 \<noteq> 0" using False by simp
    ultimately show ?thesis using 1 by (subst show_nat.simps) simp
  qed
qed

lemma hd_show_nat_digit: "is_digit (hd (show_nat n))"
  using show_nat_digits [of n] by (cases "show_nat n") auto

lemma digit_not_space: "is_digit c \<Longrightarrow> \<not> is_space c"
  by (auto simp: is_digit_def is_space_def)

lemma digit_not_sign: "is_digit c \<Longrightarrow> c \<noteq> CHR ''-'' \<and> c \<noteq> CHR ''+''"
  by (auto simp: is_digit_def)

lemma strip_id:
  assumes "s \<noteq> []" "\<not> is_space (hd s)" "\<not> is_space (last s)"
  shows "strip s = s"
proof -
  have "dropWhile is_space s = s" using assms by (simp add: dropWhile_eq_self_iff)
  moreover have "dropWhile is_space (rev s) = rev s"
    using assms by (simp add: dropWhile_eq_self_iff hd_rev)
  ultimately show ?thesis by (simp add: strip_def)
qed

lemma last_show_nat_digit: "is_digit (last (show_nat n))"
  using show_nat_digits [of n] by (simp add: list_all_iff)

text \<open>\<^verbatim>\<open>int(str(i))\<close> is \<open>i\<close>.\<close>

lemma py_int_show_int: "py_int (show_int i) = Inr i"
proof (cases "i < 0")
  case True
  have "strip (CHR ''-'' # show_nat (nat (- i))) = CHR ''-'' # show_nat (nat (- i))"
    using last_show_nat_digit [THEN digit_not_space] by (intro strip_id) (simp_all add: is_space_def)
  with True show ?thesis by (simp add: py_int_def show_int_def show_nat_digits)
next
  case False
  have "strip (show_nat (nat i)) = show_nat (nat i)"
    using last_show_nat_digit hd_show_nat_digit by (intro strip_id) (simp_all add: digit_not_space)
  with False show ?thesis
    using hd_show_nat_digit [of "nat i"] by (auto simp: py_int_def show_int_def show_nat_digits dest: digit_not_sign)
qed

text \<open>A number on a line of its own, as the shell prints it: \<^verbatim>\<open>int\<close> drops the newline.\<close>

definition count_line :: "int \<Rightarrow> string" where
  "count_line i = show_int i @ [CHR 0x0A]"

lemma strip_newline: "strip (s @ [CHR 0x0A]) = strip s"
proof -
  have nl: "is_space (CHR 0x0A)" by (simp add: is_space_def)
  show ?thesis
  proof (cases "\<forall>c \<in> set s. is_space c")
    case True
    then have "dropWhile is_space s = []" by (simp add: dropWhile_eq_Nil_conv)
    moreover have "\<forall>c \<in> set (s @ [CHR 0x0A]). is_space c" using True nl by simp
    then have "dropWhile is_space (s @ [CHR 0x0A]) = []" by (simp only: dropWhile_eq_Nil_conv)
    ultimately show ?thesis by (simp only: strip_def)
  next
    case False
    then have "dropWhile is_space (s @ [CHR 0x0A]) = dropWhile is_space s @ [CHR 0x0A]" by (auto simp: dropWhile_append)
    then show ?thesis using nl by (simp add: strip_def)
  qed
qed

lemma py_int_count_line: "py_int (count_line i) = Inr i"
  using py_int_show_int [of i] by (simp only: py_int_def count_line_def strip_newline)

end
