(* ===== verification/PyJson.thy ===== *)
theory PyJson
  imports PyStd
begin

text \<open>
  JSON values as Python holds them, and \<^verbatim>\<open>json.dumps\<close> / \<^verbatim>\<open>json.loads\<close> with the defaults
  the program uses: separators \<^verbatim>\<open>", "\<close> and \<^verbatim>\<open>": "\<close>, ASCII output with \<^verbatim>\<open>\uXXXX\<close>
  escapes, dictionaries in insertion order, the last of two equal keys wins. Numbers are
  integers; a number with a fraction or an exponent, and an escape beyond character code
  255, are outside the model and count as undecodable.
\<close>

section \<open>Values\<close>

datatype json =
    JNull
  | JBool bool
  | JInt int
  | JStr string
  | JArr "json list"
  | JObj "(string \<times> json) list"

text \<open>Python's truth value of a value.\<close>

fun truthy :: "json \<Rightarrow> bool" where
  "truthy JNull = False"
| "truthy (JBool b) = b"
| "truthy (JInt i) = (i \<noteq> 0)"
| "truthy (JStr s) = (s \<noteq> [])"
| "truthy (JArr xs) = (xs \<noteq> [])"
| "truthy (JObj kvs) = (kvs \<noteq> [])"

text \<open>\<^verbatim>\<open>v[k]\<close> for a string key, \<^verbatim>\<open>v.get(k, dflt)\<close>, and the test that a value is hashable.\<close>

fun json_index :: "json \<Rightarrow> string \<Rightarrow> json res" where
  "json_index (JObj kvs) k = dict_index kvs k"
| "json_index _ k = Inl TypeError"

fun json_get :: "json \<Rightarrow> string \<Rightarrow> json \<Rightarrow> json res" where
  "json_get (JObj kvs) k dflt = Inr (dict_get kvs k dflt)"
| "json_get _ k dflt = Inl (AttributeError ''get'')"

fun hashable :: "json \<Rightarrow> bool" where
  "hashable (JArr _) = False"
| "hashable (JObj _) = False"
| "hashable _ = True"

text \<open>
  \<^verbatim>\<open>len(v)\<close>; a value where an integer is needed, a boolean being one; and \<^verbatim>\<open>int(v)\<close>.
\<close>

fun json_len :: "json \<Rightarrow> nat res" where
  "json_len (JObj kvs) = Inr (length kvs)"
| "json_len (JArr xs) = Inr (length xs)"
| "json_len (JStr s) = Inr (length s)"
| "json_len _ = Inl TypeError"

fun as_int :: "json \<Rightarrow> int res" where
  "as_int (JInt i) = Inr i"
| "as_int (JBool b) = Inr (if b then 1 else 0)"
| "as_int _ = Inl TypeError"

fun int_of_value :: "json \<Rightarrow> int res" where
  "int_of_value (JStr s) = py_int s"
| "int_of_value v = as_int v"

lemma json_index_Inr: "json_index v k = Inr w \<longleftrightarrow> (\<exists>kvs. v = JObj kvs \<and> map_of kvs k = Some w)"
  by (cases v) (auto simp: dict_index_Inr)

section \<open>Printing\<close>

definition hex_digit :: "nat \<Rightarrow> char" where
  "hex_digit n = ''0123456789abcdef'' ! n"

definition escape_char :: "char \<Rightarrow> string" where
  "escape_char c =
     (if c = CHR 0x22 then [CHR 0x5C, CHR 0x22]
      else if c = CHR 0x5C then [CHR 0x5C, CHR 0x5C]
      else if c = CHR 0x0A then [CHR 0x5C, CHR ''n'']
      else if c = CHR 0x0D then [CHR 0x5C, CHR ''r'']
      else if c = CHR 0x09 then [CHR 0x5C, CHR ''t'']
      else if c = CHR 0x0C then [CHR 0x5C, CHR ''f'']
      else if c = CHR 0x08 then [CHR 0x5C, CHR ''b'']
      else if (32::nat) \<le> of_char c \<and> of_char c \<le> (126::nat) then [c]
      else [CHR 0x5C, CHR ''u'', CHR ''0'', CHR ''0'',
            hex_digit (of_char c div 16), hex_digit (of_char c mod 16)])"

definition dumps_str :: "string \<Rightarrow> string" where
  "dumps_str s = CHR 0x22 # concat (map escape_char s) @ [CHR 0x22]"

fun dumps :: "json \<Rightarrow> string"
  and dumps_elems :: "json list \<Rightarrow> string"
  and dumps_members :: "(string \<times> json) list \<Rightarrow> string"
where
  "dumps JNull = ''null''"
| "dumps (JBool b) = (if b then ''true'' else ''false'')"
| "dumps (JInt i) = show_int i"
| "dumps (JStr s) = dumps_str s"
| "dumps (JArr xs) = CHR ''['' # dumps_elems xs @ '']''"
| "dumps (JObj kvs) = CHR ''{'' # dumps_members kvs @ ''}''"
| "dumps_elems [] = []"
| "dumps_elems [x] = dumps x"
| "dumps_elems (x # y # ys) = dumps x @ '', '' @ dumps_elems (y # ys)"
| "dumps_members [] = []"
| "dumps_members [(k, v)] = dumps_str k @ '': '' @ dumps v"
| "dumps_members ((k, v) # p # ps) = dumps_str k @ '': '' @ dumps v @ '', '' @ dumps_members (p # ps)"

text \<open>\<^verbatim>\<open>str(v)\<close>, also \<^verbatim>\<open>"{}".format(v)\<close>, with \<open>repr\<close> for the containers.\<close>

definition format_value :: "(json \<Rightarrow> string) \<Rightarrow> json \<Rightarrow> string" where
  "format_value repr v =
     (case v of
        JNull \<Rightarrow> ''None''
      | JBool b \<Rightarrow> (if b then ''True'' else ''False'')
      | JInt i \<Rightarrow> show_int i
      | JStr s \<Rightarrow> s
      | _ \<Rightarrow> repr v)"

section \<open>Parsing\<close>

definition hex_val :: "char \<Rightarrow> nat option" where
  "hex_val c =
     (let n = of_char c :: nat in
      if 48 \<le> n \<and> n \<le> 57 then Some (n - 48)
      else if 97 \<le> n \<and> n \<le> 102 then Some (n - 87)
      else if 65 \<le> n \<and> n \<le> 70 then Some (n - 55)
      else None)"

definition hex4 :: "char \<Rightarrow> char \<Rightarrow> char \<Rightarrow> char \<Rightarrow> nat option" where
  "hex4 a b c d =
     (case (hex_val a, hex_val b, hex_val c, hex_val d) of
        (Some x, Some y, Some z, Some w) \<Rightarrow> Some (((x * 16 + y) * 16 + z) * 16 + w)
      | _ \<Rightarrow> None)"

definition unescape :: "char \<Rightarrow> char option" where
  "unescape c =
     (if c = CHR 0x22 then Some (CHR 0x22)
      else if c = CHR 0x5C then Some (CHR 0x5C)
      else if c = CHR ''/'' then Some (CHR ''/'')
      else if c = CHR ''b'' then Some (CHR 0x08)
      else if c = CHR ''f'' then Some (CHR 0x0C)
      else if c = CHR ''n'' then Some (CHR 0x0A)
      else if c = CHR ''r'' then Some (CHR 0x0D)
      else if c = CHR ''t'' then Some (CHR 0x09)
      else None)"

text \<open>The rest of a string after its opening quote, and the text after its closing quote.\<close>

fun parse_str :: "string \<Rightarrow> (string \<times> string) option" where
  "parse_str [] = None"
| "parse_str (c # cs) =
     (if c = CHR 0x22 then Some ([], cs)
      else if c = CHR 0x5C then
        (case cs of
           [] \<Rightarrow> None
         | e # cs1 \<Rightarrow>
             if e = CHR ''u'' then
               (case cs1 of
                  h1 # h2 # h3 # h4 # cs2 \<Rightarrow>
                    (case hex4 h1 h2 h3 h4 of
                       None \<Rightarrow> None
                     | Some n \<Rightarrow>
                         if n < 256 then map_option (\<lambda>(s, r). (char_of n # s, r)) (parse_str cs2)
                         else None)
                | _ \<Rightarrow> None)
             else
               (case unescape e of
                  None \<Rightarrow> None
                | Some x \<Rightarrow> map_option (\<lambda>(s, r). (x # s, r)) (parse_str cs1)))
      else if of_char c < (32::nat) then None
      else map_option (\<lambda>(s, r). (c # s, r)) (parse_str cs))"

definition json_ws :: "char \<Rightarrow> bool" where
  "json_ws c \<longleftrightarrow> c = CHR '' '' \<or> c = CHR 0x09 \<or> c = CHR 0x0A \<or> c = CHR 0x0D"

abbreviation skip_ws :: "string \<Rightarrow> string" where
  "skip_ws s \<equiv> dropWhile json_ws s"

definition number_end :: "string \<Rightarrow> bool" where
  "number_end r \<longleftrightarrow> r = [] \<or> hd r \<notin> {CHR ''.'', CHR ''e'', CHR ''E''}"

definition parse_nat :: "string \<Rightarrow> (nat \<times> string) option" where
  "parse_nat s =
     (case s of
        [] \<Rightarrow> None
      | c # cs \<Rightarrow>
          if \<not> is_digit c then None
          else
            let ds = (if c = CHR ''0'' then [c] else takeWhile is_digit s);
                r = (if c = CHR ''0'' then cs else dropWhile is_digit s)
            in if number_end r then Some (nat_of_digits ds, r) else None)"

definition parse_int :: "string \<Rightarrow> (int \<times> string) option" where
  "parse_int s =
     (case s of
        [] \<Rightarrow> None
      | c # cs \<Rightarrow>
          if c = CHR ''-'' then map_option (\<lambda>(n, r). (- int n, r)) (parse_nat cs)
          else map_option (\<lambda>(n, r). (int n, r)) (parse_nat s))"

fun parse_val :: "nat \<Rightarrow> string \<Rightarrow> (json \<times> string) option"
  and parse_elems :: "nat \<Rightarrow> string \<Rightarrow> (json list \<times> string) option"
  and parse_members :: "nat \<Rightarrow> string \<Rightarrow> ((string \<times> json) list \<times> string) option"
where
  "parse_val 0 s = None"
| "parse_val (Suc n) s =
     (case s of
        [] \<Rightarrow> None
      | c # cs \<Rightarrow>
          if c = CHR 0x22 then map_option (\<lambda>(x, r). (JStr x, r)) (parse_str cs)
          else if c = CHR ''['' then
            (case skip_ws cs of
               [] \<Rightarrow> None
             | d # ds \<Rightarrow>
                 if d = CHR '']'' then Some (JArr [], ds)
                 else map_option (\<lambda>(xs, r). (JArr xs, r)) (parse_elems n (d # ds)))
          else if c = CHR ''{'' then
            (case skip_ws cs of
               [] \<Rightarrow> None
             | d # ds \<Rightarrow>
                 if d = CHR ''}'' then Some (JObj [], ds)
                 else map_option (\<lambda>(ps, r). (JObj (dict_of_pairs ps), r)) (parse_members n (d # ds)))
          else if startswith s ''null'' then Some (JNull, drop 4 s)
          else if startswith s ''true'' then Some (JBool True, drop 4 s)
          else if startswith s ''false'' then Some (JBool False, drop 5 s)
          else map_option (\<lambda>(i, r). (JInt i, r)) (parse_int s))"
| "parse_elems 0 s = None"
| "parse_elems (Suc n) s =
     (case parse_val n s of
        None \<Rightarrow> None
      | Some (x, r) \<Rightarrow>
          (case skip_ws r of
             [] \<Rightarrow> None
           | d # ds \<Rightarrow>
               if d = CHR '']'' then Some ([x], ds)
               else if d = CHR '','' then
                 map_option (\<lambda>(xs, r'). (x # xs, r')) (parse_elems n (skip_ws ds))
               else None))"
| "parse_members 0 s = None"
| "parse_members (Suc n) s =
     (case s of
        [] \<Rightarrow> None
      | c # cs \<Rightarrow>
          if c \<noteq> CHR 0x22 then None
          else
            (case parse_str cs of
               None \<Rightarrow> None
             | Some (k, r) \<Rightarrow>
                 (case skip_ws r of
                    [] \<Rightarrow> None
                  | d # ds \<Rightarrow>
                      if d \<noteq> CHR '':'' then None
                      else
                        (case parse_val n (skip_ws ds) of
                           None \<Rightarrow> None
                         | Some (v, r1) \<Rightarrow>
                             (case skip_ws r1 of
                                [] \<Rightarrow> None
                              | e # es \<Rightarrow>
                                  if e = CHR ''}'' then Some ([(k, v)], es)
                                  else if e = CHR '','' then
                                    map_option (\<lambda>(ps, r'). ((k, v) # ps, r'))
                                      (parse_members n (skip_ws es))
                                  else None)))))"

definition loads :: "string \<Rightarrow> json res" where
  "loads s =
     (case parse_val (2 * length s + 2) (skip_ws s) of
        Some (v, r) \<Rightarrow> (if skip_ws r = [] then Inr v else Inl JSONDecodeError)
      | None \<Rightarrow> Inl JSONDecodeError)"

section \<open>Reading back what was printed\<close>

text \<open>Values whose dictionaries have distinct keys, as every Python dictionary has.\<close>

fun wf_json :: "json \<Rightarrow> bool"
  and wf_elems :: "json list \<Rightarrow> bool"
  and wf_members :: "(string \<times> json) list \<Rightarrow> bool"
where
  "wf_json (JArr xs) = wf_elems xs"
| "wf_json (JObj kvs) = (distinct (keys kvs) \<and> wf_members kvs)"
| "wf_json _ = True"
| "wf_elems [] = True"
| "wf_elems (x # xs) = (wf_json x \<and> wf_elems xs)"
| "wf_members [] = True"
| "wf_members ((k, v) # ps) = (wf_json v \<and> wf_members ps)"

lemma hex_val_digit: "n < 16 \<Longrightarrow> hex_val (hex_digit n) = Some n"
proof -
  assume "n < 16"
  then have "n \<in> {0, 1, 2, 3, 4, 5, 6, 7, 8, 9, 10, 11, 12, 13, 14, 15}" by (simp, presburger)
  then show ?thesis by (elim insertE) (simp_all add: hex_digit_def hex_val_def)
qed

lemma hex4_low:
  "n < 256 \<Longrightarrow> hex4 (CHR ''0'') (CHR ''0'') (hex_digit (n div 16)) (hex_digit (n mod 16)) = Some n"
  using hex_val_digit [of "n div 16"] hex_val_digit [of "n mod 16"]
  by (simp add: hex4_def hex_val_def [of "CHR ''0''"] less_mult_imp_div_less)

lemma parse_str_escape:
  "parse_str (escape_char c @ t) = map_option (\<lambda>(s, r). (c # s, r)) (parse_str t)"
proof (cases "c \<in> {CHR 0x22, CHR 0x5C, CHR 0x0A, CHR 0x0D, CHR 0x09, CHR 0x0C, CHR 0x08}")
  case True
  then show ?thesis by (elim insertE) (simp_all add: escape_char_def unescape_def)
next
  case False
  show ?thesis
  proof (cases "(32::nat) \<le> of_char c \<and> of_char c \<le> (126::nat)")
    case True
    with False show ?thesis by (simp add: escape_char_def)
  next
    case out: False
    have "(of_char c :: nat) < 256" using of_char_mod_256 [of c, where ?'a = nat] by (metis mod_less_divisor zero_less_numeral)
    with False out show ?thesis by (simp add: escape_char_def hex4_low)
  qed
qed

lemma parse_str_dumps: "parse_str (concat (map escape_char s) @ CHR 0x22 # r) = Some (s, r)"
  by (induction s) (simp_all add: parse_str_escape)

text \<open>What may follow a number: nothing that could be a part of it.\<close>

definition stops :: "string \<Rightarrow> bool" where
  "stops r \<longleftrightarrow> r = [] \<or> \<not> is_digit (hd r) \<and> number_end r"

lemma parse_nat_show:
  assumes "stops r"
  shows "parse_nat (show_nat n @ r) = Some (n, r)"
proof -
  obtain c cs where s: "show_nat n = c # cs" by (cases "show_nat n") auto
  have c: "is_digit c" using hd_show_nat_digit [of n] s by simp
  have r: "r = [] \<or> \<not> is_digit (hd r)" "number_end r"
    using assms by (auto simp: stops_def number_end_def)
  show ?thesis
  proof (cases "c = CHR ''0''")
    case True
    then have "n = 0" using hd_show_nat [of n] s by simp
    moreover have "show_nat 0 = [CHR ''0'']" by (subst show_nat.simps) (simp add: digit_char_zero)
    ultimately show ?thesis using r by (simp add: parse_nat_def nat_of_digits_def digit_val_def is_digit_def)
  next
    case False
    have "takeWhile is_digit (show_nat n @ r) = show_nat n" "dropWhile is_digit (show_nat n @ r) = r"
      using takeWhile_append_stop dropWhile_append_stop show_nat_digits r(1) by blast+
    with False c s r show ?thesis
      using nat_of_show_nat [of n] by (simp add: parse_nat_def del: nat_of_show_nat)
  qed
qed

lemma parse_int_show: "stops r \<Longrightarrow> parse_int (show_int i @ r) = Some (i, r)"
proof (cases "i < 0")
  case True
  assume "stops r"
  with True show ?thesis by (simp add: parse_int_def show_int_def parse_nat_show)
next
  case False
  assume "stops r"
  moreover obtain c cs where "show_nat (nat i) = c # cs" by (cases "show_nat (nat i)") auto
  moreover have "c \<noteq> CHR ''-''"
    using hd_show_nat_digit [of "nat i"] calculation(2) digit_not_sign by force
  ultimately show ?thesis
    using False parse_nat_show [of r "nat i"] by (simp add: parse_int_def show_int_def)
qed

text \<open>The first character of a printed value decides how it is read.\<close>

lemma show_int_first:
  "\<exists>c cs. show_int i = c # cs \<and> (c = CHR ''-'' \<or> is_digit c)"
proof (cases "i < 0")
  case False
  obtain c cs where s: "show_nat (nat i) = c # cs" by (cases "show_nat (nat i)") auto
  then show ?thesis using False hd_show_nat_digit [of "nat i"] by (simp add: show_int_def)
qed (simp add: show_int_def)

lemma show_int_not_word:
  assumes "show_int i = c # cs" "c = CHR ''-'' \<or> is_digit c"
  shows "c \<notin> {CHR 0x22, CHR ''['', CHR ''{'', CHR ''n'', CHR ''t'', CHR ''f'', CHR '']'', CHR ''}'',
              CHR '' '', CHR 0x09, CHR 0x0A, CHR 0x0D}"
  using assms(2) by (auto simp: is_digit_def)

lemma dumps_first:
  "\<exists>c cs. dumps v = c # cs \<and> \<not> json_ws c \<and> c \<noteq> CHR '']'' \<and> c \<noteq> CHR ''}''"
proof (cases v)
  case (JInt i)
  obtain c cs where "show_int i = c # cs" "c = CHR ''-'' \<or> is_digit c"
    using show_int_first [of i] by blast
  with show_int_not_word [OF this] JInt show ?thesis by (simp add: json_ws_def)
qed (auto simp: dumps_str_def json_ws_def)

lemma skip_ws_dumps [simp]: "skip_ws (dumps v @ r) = dumps v @ r"
  using dumps_first [of v] by auto

lemma dumps_elems_first:
  "xs \<noteq> [] \<Longrightarrow> \<exists>c cs. dumps_elems xs = c # cs \<and> \<not> json_ws c \<and> c \<noteq> CHR '']''"
  using dumps_first [of "hd xs"] by (cases xs rule: dumps_elems.cases) auto

lemma dumps_members_first: "ps \<noteq> [] \<Longrightarrow> \<exists>cs. dumps_members ps = CHR 0x22 # cs"
  by (cases ps rule: dumps_members.cases) (auto simp: dumps_str_def)

lemma skip_ws_elems [simp]: "xs \<noteq> [] \<Longrightarrow> skip_ws (dumps_elems xs @ r) = dumps_elems xs @ r"
  using dumps_elems_first [of xs] by auto

lemma skip_ws_members [simp]: "ps \<noteq> [] \<Longrightarrow> skip_ws (dumps_members ps @ r) = dumps_members ps @ r"
  using dumps_members_first [of ps] by (auto simp: json_ws_def)

text \<open>Fuel that is enough to read a value, and its bound by the length of the text.\<close>

fun jneed :: "json \<Rightarrow> nat"
  and jneed_elems :: "json list \<Rightarrow> nat"
  and jneed_members :: "(string \<times> json) list \<Rightarrow> nat"
where
  "jneed (JArr xs) = Suc (jneed_elems xs)"
| "jneed (JObj kvs) = Suc (jneed_members kvs)"
| "jneed _ = 1"
| "jneed_elems [] = 0"
| "jneed_elems (x # xs) = Suc (jneed x + jneed_elems xs)"
| "jneed_members [] = 0"
| "jneed_members ((k, v) # ps) = Suc (jneed v + jneed_members ps)"

lemma dumps_not_Nil [simp]: "dumps v \<noteq> []"
  using dumps_first [of v] by auto

lemma jneed_le:
  "jneed v \<le> 2 * length (dumps v)"
  "jneed_elems xs \<le> 2 * length (dumps_elems xs) + 1"
  "jneed_members ps \<le> 2 * length (dumps_members ps) + 1"
proof (induction v and xs and ps rule: dumps_dumps_elems_dumps_members.induct)
  case (3 i)
  have "0 < length (show_int i)" using show_int_first [of i] by auto
  then show ?case by (simp only: jneed.simps dumps.simps)
qed (simp_all add: dumps_str_def)

lemma parse_word: 
  "parse_val (Suc n) (''null'' @ r) = Some (JNull, r)"
  "parse_val (Suc n) (''true'' @ r) = Some (JBool True, r)"
  "parse_val (Suc n) (''false'' @ r) = Some (JBool False, r)"
  by (simp_all add: startswith_def)

lemma parse_val_int: "stops r \<Longrightarrow> parse_val (Suc n) (show_int i @ r) = Some (JInt i, r)"
proof -
  assume r: "stops r"
  obtain c cs where s: "show_int i = c # cs" and c: "c = CHR ''-'' \<or> is_digit c"
    using show_int_first [of i] by blast
  show ?thesis
    using show_int_not_word [OF s c] parse_int_show [OF r, of i] by (simp add: s startswith_def)
qed

lemma stops_punct [simp]: "stops (CHR '','' # r)" "stops (CHR '']'' # r)" "stops (CHR ''}'' # r)" "stops []"
  by (simp_all add: stops_def number_end_def is_digit_def)

lemma json_ws_simps [simp]:
  "json_ws (CHR '' '')" "\<not> json_ws (CHR '','')" "\<not> json_ws (CHR '':'')"
  "\<not> json_ws (CHR '']'')" "\<not> json_ws (CHR ''}'')" "\<not> json_ws (CHR 0x22)"
  by (simp_all add: json_ws_def)

lemma parse_dumps:
  "wf_json v \<Longrightarrow> jneed v \<le> n \<Longrightarrow> stops r \<Longrightarrow> parse_val n (dumps v @ r) = Some (v, r)"
  "xs \<noteq> [] \<Longrightarrow> wf_elems xs \<Longrightarrow> jneed_elems xs \<le> n \<Longrightarrow>
   parse_elems n (dumps_elems xs @ CHR '']'' # r) = Some (xs, r)"
  "ps \<noteq> [] \<Longrightarrow> wf_members ps \<Longrightarrow> jneed_members ps \<le> n \<Longrightarrow>
   parse_members n (dumps_members ps @ CHR ''}'' # r) = Some (ps, r)"
proof (induction v and xs and ps arbitrary: n r and n r and n r
    rule: dumps_dumps_elems_dumps_members.induct)
  case 1
  then show ?case using parse_word by (cases n) auto
next
  case (2 b)
  then show ?case using parse_word by (cases n; cases b) auto
next
  case (3 i)
  then show ?case using parse_val_int by (cases n) auto
next
  case (4 s)
  then show ?case by (cases n) (auto simp: dumps_str_def parse_str_dumps)
next
  case (5 xs)
  then obtain m where n: "n = Suc m" "jneed_elems xs \<le> m" by (cases n) auto
  show ?case
  proof (cases "xs = []")
    case True
    then show ?thesis using n by simp
  next
    case False
    then obtain d ds where d: "dumps_elems xs = d # ds" "d \<noteq> CHR '']''" "\<not> json_ws d"
      using dumps_elems_first by blast
    then show ?thesis using 5 n False by simp
  qed
next
  case (6 ps)
  then obtain m where n: "n = Suc m" "jneed_members ps \<le> m" by (cases n) auto
  show ?case
  proof (cases "ps = []")
    case True
    then show ?thesis using n by simp
  next
    case False
    then obtain ds where d: "dumps_members ps = CHR 0x22 # ds"
      using dumps_members_first by blast
    then show ?thesis using 6 n False by (simp add: dict_of_pairs_distinct)
  qed
next
  case (8 x)
  then obtain m where "n = Suc m" "jneed x \<le> m" by (cases n) auto
  then show ?case using 8 by simp
next
  case (9 x y ys)
  then obtain m where "n = Suc m" "jneed x \<le> m" "jneed_elems (y # ys) \<le> m" by (cases n) auto
  then show ?case using 9 by simp
next
  case (11 k v)
  then obtain m where "n = Suc m" "jneed v \<le> m" by (cases n) auto
  then show ?case using 11 by (simp add: dumps_str_def parse_str_dumps)
next
  case (12 k v p ps)
  then obtain m where "n = Suc m" "jneed v \<le> m" "jneed_members (p # ps) \<le> m" by (cases n) auto
  then show ?case using 12 by (simp add: dumps_str_def parse_str_dumps)
qed simp_all

lemma loads_dumps: "wf_json v \<Longrightarrow> loads (dumps v) = Inr v"
  using parse_dumps(1) [of v "2 * length (dumps v) + 2" "[]"] jneed_le(1) [of v]
    skip_ws_dumps [of v "[]"]
  by (simp add: loads_def)

lemma loads_empty: "loads '''' = Inl JSONDecodeError"
  by (simp add: loads_def)

section \<open>What is read has distinct keys\<close>

lemma wf_members_update: "wf_members d \<Longrightarrow> wf_json v \<Longrightarrow> wf_members (AList.update k v d)"
  by (induction d) auto

lemma wf_dict_of_pairs_aux:
  "wf_members ps \<Longrightarrow> wf_json (JObj d) \<Longrightarrow> wf_json (JObj (fold (\<lambda>(k, v) d. AList.update k v d) ps d))"
proof (induction ps arbitrary: d)
  case (Cons p ps)
  then show ?case by (cases p) (simp add: wf_members_update distinct_update)
qed simp

lemma wf_dict_of_pairs: "wf_members ps \<Longrightarrow> wf_json (JObj (dict_of_pairs ps))"
  using wf_dict_of_pairs_aux [of ps "[]"] by (simp add: dict_of_pairs_def)

lemma wf_empty: "wf_json (JObj [])"
  by simp

lemma parse_wf:
  "(\<forall>s v r. parse_val n s = Some (v, r) \<longrightarrow> wf_json v) \<and>
   (\<forall>s xs r. parse_elems n s = Some (xs, r) \<longrightarrow> wf_elems xs) \<and>
   (\<forall>s ps r. parse_members n s = Some (ps, r) \<longrightarrow> wf_members ps)"
proof (induction n)
  case (Suc n)
  then have IH: "\<And>s v r. parse_val n s = Some (v, r) \<Longrightarrow> wf_json v"
    "\<And>s xs r. parse_elems n s = Some (xs, r) \<Longrightarrow> wf_elems xs"
    "\<And>s ps r. parse_members n s = Some (ps, r) \<Longrightarrow> wf_members ps" by blast+
  have "wf_json v" if "parse_val (Suc n) s = Some (v, r)" for s v r
    using that IH(2) wf_dict_of_pairs [OF IH(3)] wf_empty
    by (auto simp del: wf_json.simps(2) split: list.splits if_splits) 
  moreover have "wf_elems xs" if "parse_elems (Suc n) s = Some (xs, r)" for s xs r
    using that IH(1,2) by (auto split: list.splits if_splits option.splits)
  moreover have "wf_members ps" if "parse_members (Suc n) s = Some (ps, r)" for s ps r
    using that IH(1,3) by (auto split: list.splits if_splits option.splits)
  ultimately show ?case by blast
qed simp

lemma loads_wf: "loads s = Inr v \<Longrightarrow> wf_json v"
  using parse_wf by (fastforce simp: loads_def simp del: parse_val.simps split: option.splits if_splits prod.splits)

lemma wf_members_index: "wf_members kvs \<Longrightarrow> map_of kvs k = Some w \<Longrightarrow> wf_json w"
  by (induction kvs) (auto split: if_splits)

lemma json_index_wf: "wf_json v \<Longrightarrow> json_index v k = Inr w \<Longrightarrow> wf_json w"
  by (auto simp: json_index_Inr intro: wf_members_index)

lemma json_get_wf: "wf_json v \<Longrightarrow> wf_json dflt \<Longrightarrow> json_get v k dflt = Inr w \<Longrightarrow> wf_json w"
  by (cases v) (auto simp: dict_get_def intro: wf_members_index split: option.splits)

end
