(* ===== verification/Gvars.thy ===== *)
theory Gvars
  imports Prelude
begin

text \<open>
  The shared names of \<^verbatim>\<open>gvars.py\<close>: message kinds, attribute names of requests and
  responses, mitigation states. In test mode, the only mode whose library can be loaded
  (theory \<^verbatim>\<open>ClibBind\<close>), nothing overwrites them.
\<close>

definition REQ_REGISTER_CLIENT :: string where
  [msg_defs]: "REQ_REGISTER_CLIENT = ''register_client''"

definition REQ_DEREGISTER_CLIENT :: string where
  [msg_defs]: "REQ_DEREGISTER_CLIENT = ''deregister_client''"

definition REQ_REGISTER_ACTION :: string where
  [msg_defs]: "REQ_REGISTER_ACTION = ''register_action''"

definition REQ_HEARTBEAT :: string where
  [msg_defs]: "REQ_HEARTBEAT = ''heartbeat''"

definition REQ_ACTION_REQUEST :: string where
  [msg_defs]: "REQ_ACTION_REQUEST = ''action_request''"

definition REQ_ACTION_TYPE :: string where
  [msg_defs]: "REQ_ACTION_TYPE = ''request_type''"

definition REQ_ACTION_TYPE_ACTION :: string where
  [msg_defs]: "REQ_ACTION_TYPE_ACTION = ''action''"

definition REQ_ACTION_TYPE_SHUTDOWN :: string where
  [msg_defs]: "REQ_ACTION_TYPE_SHUTDOWN = ''shutdown''"

definition REQ_CLIENT_NAME :: string where
  [msg_defs]: "REQ_CLIENT_NAME = ''client_name''"

definition REQ_ACTION_NAME :: string where
  [msg_defs]: "REQ_ACTION_NAME = ''action_name''"

definition REQ_INSTANCE_ID :: string where
  [msg_defs]: "REQ_INSTANCE_ID = ''instance_id''"

definition REQ_ANOMALY_INSTANCE_ID :: string where
  [msg_defs]: "REQ_ANOMALY_INSTANCE_ID = ''anomaly_instance_id''"

definition REQ_ANOMALY_KEY :: string where
  [msg_defs]: "REQ_ANOMALY_KEY = ''anomaly_key''"

definition REQ_CONTEXT :: string where
  [msg_defs]: "REQ_CONTEXT = ''context''"

definition REQ_TIMEOUT :: string where
  [msg_defs]: "REQ_TIMEOUT = ''timeout''"

definition REQ_HEARTBEAT_INTERVAL :: string where
  [msg_defs]: "REQ_HEARTBEAT_INTERVAL = ''heartbeat_interval''"

definition REQ_PAUSE :: string where
  [msg_defs]: "REQ_PAUSE = ''action_pause''"

definition REQ_ACTION_DATA :: string where
  [msg_defs]: "REQ_ACTION_DATA = ''action_data''"

definition REQ_RESULT_CODE :: string where
  [msg_defs]: "REQ_RESULT_CODE = ''result_code''"

definition REQ_RESULT_STR :: string where
  [msg_defs]: "REQ_RESULT_STR = ''result_str''"

definition REQ_MITIGATION_STATE :: string where
  [msg_defs]: "REQ_MITIGATION_STATE = ''state''"

definition REQ_MITIGATION_STATE_INIT :: string where
  [msg_defs]: "REQ_MITIGATION_STATE_INIT = ''init''"

definition REQ_MITIGATION_STATE_PROG :: string where
  [msg_defs]: "REQ_MITIGATION_STATE_PROG = ''in-progress''"

definition REQ_MITIGATION_STATE_TIMEOUT :: string where
  [msg_defs]: "REQ_MITIGATION_STATE_TIMEOUT = ''timeout''"

definition REQ_MITIGATION_STATE_DONE :: string where
  [msg_defs]: "REQ_MITIGATION_STATE_DONE = ''complete''"

end
