(* ===== verification/Config.thy ===== *)
theory Config
  imports PyJson
begin

text \<open>
  Configuration and logging (\<^verbatim>\<open>common.py\<close>). The state is the path of the global rc file,
  the cached dictionary read from it, and the file system as the text of each existing
  file. Every path function may raise: a missing rc file, a text that does not parse, a
  missing attribute, an attribute that is not a string.
\<close>

section \<open>Module search path and log level\<close>

definition syspath_append :: "string \<Rightarrow> string list \<Rightarrow> string list" where
  "syspath_append path0 sys_path =
     (let path = (if endswith path0 ''/'' then butlast path0 else path0)
      in if path \<notin> set sys_path then sys_path @ [path] else sys_path)"

text \<open>The name under which the process logs.\<close>

definition syslog_ident :: "string \<Rightarrow> string \<Rightarrow> string" where
  "syslog_ident argv0 proc_name = basename argv0 @ ''_'' @ proc_name"

definition LOG_ERR :: int where "LOG_ERR = 3"
definition LOG_WARNING :: int where "LOG_WARNING = 4"
definition LOG_INFO :: int where "LOG_INFO = 6"
definition LOG_DEBUG :: int where "LOG_DEBUG = 7"

definition lvl_to_str :: "string list" where
  "lvl_to_str = [''Emergency'', ''Alert'', ''Critical'', ''Error'', ''Warning'', ''Notice'',
     ''Informational'', ''Debug'']"

definition list_index :: "'a list \<Rightarrow> int \<Rightarrow> 'a res" where
  "list_index xs i =
     (if 0 \<le> i \<and> i < int (length xs) then Inr (xs ! nat i)
      else if i < 0 \<and> 0 \<le> int (length xs) + i then Inr (xs ! nat (int (length xs) + i))
      else Inl IndexError)"

text \<open>
  A log call sends the message to syslog and prints it under the level's name, when the
  level is enabled: the result is the two records it emits.
\<close>

definition log_write :: "int \<Rightarrow> int \<Rightarrow> string \<Rightarrow> (string \<times> string) list res" where
  "log_write ct_log_level lvl msg =
     (if lvl \<le> ct_log_level then
        bind_res (list_index lvl_to_str lvl) (\<lambda>nm. Inr [(''syslog'', msg), (nm, msg)])
      else Inr [])"

definition log_error :: "int \<Rightarrow> string \<Rightarrow> (string \<times> string) list res" where
  "log_error ct_log_level msg = log_write ct_log_level LOG_ERR msg"

definition log_info :: "int \<Rightarrow> string \<Rightarrow> (string \<times> string) list res" where
  "log_info ct_log_level msg = log_write ct_log_level LOG_INFO msg"

definition log_warning :: "int \<Rightarrow> string \<Rightarrow> (string \<times> string) list res" where
  "log_warning ct_log_level msg = log_write ct_log_level LOG_WARNING msg"

definition log_debug :: "int \<Rightarrow> string \<Rightarrow> (string \<times> string) list res" where
  "log_debug ct_log_level msg = log_write ct_log_level LOG_DEBUG msg"

section \<open>Global rc data\<close>

record config =
  global_rc_file :: string
  rc_data :: "(string, json) dict"
  files :: "string \<rightharpoonup> string"
  ct_path :: string

text \<open>The module's state when it is imported: the rc file is the one of the installation, and nothing is read.\<close>

definition GLOBAL_RC_FILE :: string where
  "GLOBAL_RC_FILE = ''/etc/LoM/global.rc.json''"

definition new_config :: "(string \<rightharpoonup> string) \<Rightarrow> string \<Rightarrow> config" where
  "new_config fs dir = \<lparr>global_rc_file = GLOBAL_RC_FILE, rc_data = [], files = fs, ct_path = dir\<rparr>"

definition set_global_rc_file :: "string \<Rightarrow> config \<Rightarrow> config" where
  "set_global_rc_file fl c = c\<lparr>global_rc_file := fl, rc_data := []\<rparr>"

definition reqd :: "string list" where
  "reqd = [''config_running_path'', ''config_static_path'', ''proc_plugins_conf_name'',
     ''actions_config_name'', ''actions_binding_config_name'']"

text \<open>The strings in \<^verbatim>\<open>set(d)\<close> for a decoded value \<open>d\<close>.\<close>

fun py_set :: "json \<Rightarrow> string list res" where
  "py_set (JObj kvs) = Inr (keys kvs)"
| "py_set (JArr xs) =
     (if list_all hashable xs
      then Inr (concat (map (\<lambda>x. case x of JStr s \<Rightarrow> [s] | _ \<Rightarrow> []) xs))
      else Inl TypeError)"
| "py_set (JStr s) = Inr (map (\<lambda>c. [c]) s)"
| "py_set _ = Inl TypeError"

definition private_key :: "string \<Rightarrow> bool" where
  "private_key k = startswith k ''_''"

definition get_global_rc :: "config \<Rightarrow> (string, json) dict res \<times> config" where
  "get_global_rc c =
     (if rc_data c \<noteq> [] then (Inr (rc_data c), c)
      else
        (case files c (global_rc_file c) of
           None \<Rightarrow> (Inl (GenericException ''Sorry, global rc file missing; break''), c)
         | Some txt \<Rightarrow>
             bind_st (loads txt, c) (\<lambda>d c.
             bind_st (py_set d, c) (\<lambda>ks c.
               if \<not> list_all (\<lambda>r. r \<in> set ks) reqd then (Inr [], c)
               else
                 (case d of
                    JObj kvs \<Rightarrow>
                      let d' = filter (\<lambda>(k, v). \<not> private_key k) kvs
                      in (Inr d', c\<lparr>rc_data := d'\<rparr>)
                  | _ \<Rightarrow> (Inl (AttributeError ''items''), c))))))"

section \<open>Configuration files\<close>

text \<open>\<^verbatim>\<open>os.path.join(a, v)\<close> where \<open>v\<close> was read from JSON.\<close>

fun join_value :: "string \<Rightarrow> json \<Rightarrow> string res" where
  "join_value a (JStr b) = Inr (path_join a b)"
| "join_value a _ = Inl TypeError"

definition get_config_path :: "bool \<Rightarrow> config \<Rightarrow> string res \<times> config" where
  "get_config_path static c =
     bind_st (get_global_rc c) (\<lambda>d c.
       if d = [] then (Inr '''', c)
       else if static then
         (bind_res (dict_index d ''config_static_path'') (join_value (ct_path c)), c)
       else
         (bind_res (dict_index d ''config_running_path'') (join_value (ct_path c)), c))"

definition conf_file :: "string \<Rightarrow> bool \<Rightarrow> config \<Rightarrow> string res \<times> config" where
  "conf_file attr static c =
     bind_st (get_config_path static c) (\<lambda>cfg_path c.
       if cfg_path = '''' then (Inr '''', c)
       else
         bind_st (get_global_rc c) (\<lambda>d c.
         bind_st (bind_res (dict_index d attr) (join_value cfg_path), c) (\<lambda>fl c.
           if files c fl = None then (Inr '''', c) else (Inr fl, c))))"

definition get_proc_plugins_conf_file :: "bool \<Rightarrow> config \<Rightarrow> string res \<times> config" where
  "get_proc_plugins_conf_file = conf_file ''proc_plugins_conf_name''"

definition get_actions_conf_file :: "bool \<Rightarrow> config \<Rightarrow> string res \<times> config" where
  "get_actions_conf_file = conf_file ''actions_config_name''"

definition get_actions_binding_conf_file :: "bool \<Rightarrow> config \<Rightarrow> string res \<times> config" where
  "get_actions_binding_conf_file = conf_file ''actions_binding_config_name''"

definition get_plugins_data_file :: "bool \<Rightarrow> config \<Rightarrow> string res \<times> config" where
  "get_plugins_data_file = conf_file ''plugins_data_name''"

definition is_running_config_available :: "config \<Rightarrow> bool res \<times> config" where
  "is_running_config_available c =
     bind_st (get_proc_plugins_conf_file False c) (\<lambda>f1 c.
       if f1 = '''' then (Inr False, c)
       else bind_st (get_actions_conf_file False c) (\<lambda>f2 c.
         if f2 = '''' then (Inr False, c)
         else bind_st (get_actions_binding_conf_file False c) (\<lambda>f3 c.
           (Inr (f3 \<noteq> ''''), c))))"

definition get_data :: "string \<Rightarrow> config \<Rightarrow> json res" where
  "get_data fl c =
     (if fl = '''' then Inr (JObj [])
      else (case files c fl of None \<Rightarrow> Inr (JObj []) | Some txt \<Rightarrow> loads txt))"

definition data_for :: "(config \<Rightarrow> string res \<times> config) \<Rightarrow> string \<Rightarrow> config \<Rightarrow> json res \<times> config" where
  "data_for conf_file_fn name c =
     bind_st (conf_file_fn c) (\<lambda>fl c.
     bind_st (get_data fl c, c) (\<lambda>d c.
       if name = '''' then (Inr d, c) else (json_get d name (JObj []), c)))"

definition get_proc_plugins_conf :: "string \<Rightarrow> config \<Rightarrow> json res \<times> config" where
  "get_proc_plugins_conf proc_name c = data_for (get_proc_plugins_conf_file False) proc_name c"

definition get_actions_conf :: "config \<Rightarrow> json res \<times> config" where
  "get_actions_conf c =
     bind_st (get_actions_conf_file False c) (\<lambda>fl c. (get_data fl c, c))"

definition get_actions_binding_conf :: "string \<Rightarrow> config \<Rightarrow> json res \<times> config" where
  "get_actions_binding_conf action_name c =
     data_for (get_actions_binding_conf_file False) action_name c"

definition get_plugin_data :: "string \<Rightarrow> config \<Rightarrow> json res \<times> config" where
  "get_plugin_data action_name c = data_for (get_plugins_data_file False) action_name c"

section \<open>Search path and logging\<close>

lemma syspath_append_distinct: "distinct ps \<Longrightarrow> distinct (syspath_append p ps)"
  by (simp add: syspath_append_def Let_def)

lemma syspath_append_again: "syspath_append p (syspath_append p ps) = syspath_append p ps"
  by (simp add: syspath_append_def Let_def)

lemma syspath_append_keeps: "\<exists>qs. syspath_append p ps = ps @ qs"
  by (simp add: syspath_append_def Let_def)

lemmas log_defs = log_error_def log_info_def log_warning_def log_debug_def LOG_ERR_def LOG_INFO_def
  LOG_WARNING_def LOG_DEBUG_def

lemma log_write_level:
  assumes "0 \<le> lvl" "lvl \<le> 7"
  shows "log_write ct lvl msg =
    Inr (if lvl \<le> ct then [(''syslog'', msg), (lvl_to_str ! nat lvl, msg)] else [])"
  using assms by (simp add: log_write_def list_index_def lvl_to_str_def Let_def)

section \<open>The rc cache\<close>

definition rc_ok :: "config \<Rightarrow> bool" where
  "rc_ok c \<longleftrightarrow>
     rc_data c = [] \<or>
     list_all (\<lambda>r. r \<in> set (keys (rc_data c))) reqd \<and>
     list_all (\<lambda>k. \<not> private_key k) (keys (rc_data c))"

definition same_env :: "config \<Rightarrow> config \<Rightarrow> bool" where
  "same_env c c' \<longleftrightarrow>
     files c' = files c \<and> global_rc_file c' = global_rc_file c \<and> ct_path c' = ct_path c"

lemma same_env_refl [simp, intro]: "same_env c c"
  by (simp add: same_env_def)

lemma same_env_trans: "same_env a b \<Longrightarrow> same_env b c \<Longrightarrow> same_env a c"
  by (simp add: same_env_def)

lemma reqd_public: "r \<in> set reqd \<Longrightarrow> \<not> private_key r"
  by (auto simp: reqd_def private_key_def startswith_def)

lemma keys_filter_private:
  "r \<in> set (keys (filter (\<lambda>(k, v). \<not> private_key k) kvs)) \<longleftrightarrow> r \<in> set (keys kvs) \<and> \<not> private_key r"
  by auto

lemma keys_filter_reqd:
  assumes "list_all (\<lambda>r. r \<in> set (keys kvs)) reqd"
  shows "list_all (\<lambda>r. r \<in> set (keys (filter (\<lambda>(k, v). \<not> private_key k) kvs))) reqd"
  using assms reqd_public unfolding list_all_iff keys_filter_private by blast

lemma get_global_rc_cached [simp]: "rc_data c \<noteq> [] \<Longrightarrow> get_global_rc c = (Inr (rc_data c), c)"
  by (simp add: get_global_rc_def)

lemma get_global_rc_fresh:
  assumes "rc_data c = []"
  shows "(\<exists>r. get_global_rc c = (r, c) \<and> (\<forall>d. r = Inr d \<longrightarrow> d = [])) \<or>
    (\<exists>kvs. list_all (\<lambda>r. r \<in> set (keys kvs)) reqd \<and>
       get_global_rc c =
         (Inr (filter (\<lambda>(k, v). \<not> private_key k) kvs),
          c\<lparr>rc_data := filter (\<lambda>(k, v). \<not> private_key k) kvs\<rparr>))"
proof (cases "files c (global_rc_file c)")
  case None
  with assms show ?thesis by (simp add: get_global_rc_def)
next
  case rd: (Some content)
  show ?thesis
  proof (cases "loads content")
    case (Inl e)
    with assms rd show ?thesis by (simp add: get_global_rc_def)
  next
    case d: (Inr d)
    show ?thesis
    proof (cases "py_set d")
      case (Inl e)
      with assms rd d show ?thesis by (simp add: get_global_rc_def)
    next
      case ks: (Inr ks)
      show ?thesis
      proof (cases "list_all (\<lambda>r. r \<in> set ks) reqd \<and> (\<exists>kvs. d = JObj kvs)")
        case True
        then obtain kvs where kvs: "d = JObj kvs" by blast
        with ks True have k: "list_all (\<lambda>r. r \<in> set (keys kvs)) reqd" by simp
        with assms rd d kvs show ?thesis
          by (intro disjI2 exI [of _ kvs]) (simp add: get_global_rc_def Let_def)
      next
        case False
        with assms rd d ks show ?thesis
          by (cases d) (simp_all add: get_global_rc_def)
      qed
    qed
  qed
qed

lemma get_global_rc_cases:
  obtains (cached) "rc_data c \<noteq> []" "get_global_rc c = (Inr (rc_data c), c)"
    | (no_rc) r where "rc_data c = []" "get_global_rc c = (r, c)" "\<forall>d. r = Inr d \<longrightarrow> d = []"
    | (loaded) d where "rc_data c = []" "get_global_rc c = (Inr d, c\<lparr>rc_data := d\<rparr>)"
        "list_all (\<lambda>r. r \<in> set (keys d)) reqd" "list_all (\<lambda>k. \<not> private_key k) (keys d)"
proof (cases "rc_data c = []")
  case True
  from get_global_rc_fresh [OF this] show thesis
  proof (elim disjE exE conjE)
    fix kvs
    assume k: "list_all (\<lambda>r. r \<in> set (keys kvs)) reqd"
      and g: "get_global_rc c = (Inr (filter (\<lambda>(k, v). \<not> private_key k) kvs),
         c\<lparr>rc_data := filter (\<lambda>(k, v). \<not> private_key k) kvs\<rparr>)"
    show thesis
      by (rule loaded [OF True g keys_filter_reqd [OF k]]) (auto simp: list_all_iff)
    next
    fix r :: "(string, json) dict res"
    assume "get_global_rc c = (r, c)" "\<forall>d. r = Inr d \<longrightarrow> d = []"
    then show thesis by (rule no_rc [OF True])
  qed
qed (rule cached, simp_all)

lemma get_global_rc_env: "same_env c (snd (get_global_rc c))"
  by (cases c rule: get_global_rc_cases) (simp_all add: same_env_def)

lemma get_global_rc_ok: "rc_ok c \<Longrightarrow> rc_ok (snd (get_global_rc c))"
  by (cases c rule: get_global_rc_cases) (simp_all add: rc_ok_def)

lemma get_global_rc_result: "get_global_rc c = (Inr d, c') \<Longrightarrow> d \<noteq> [] \<Longrightarrow> rc_data c' = d"
  by (cases c rule: get_global_rc_cases) auto

lemma get_config_path_cached [simp]: "rc_data c \<noteq> [] \<Longrightarrow> snd (get_config_path s c) = c"
  by (simp add: get_config_path_def)

lemma get_config_path_found:
  assumes "get_config_path s c = (Inr p, c')" "p \<noteq> ''''"
  shows "rc_data c' \<noteq> [] \<and> get_config_path s c' = (Inr p, c') \<and> same_env c c'"
proof -
  obtain d where d: "get_global_rc c = (Inr d, c')" "d \<noteq> []"
    using assms by (auto simp: get_config_path_def bind_st_Inr_iff split: if_splits)
  note rc = get_global_rc_result [OF d]
  have "get_config_path s c' = (Inr p, c')"
    using assms(1) d rc by (simp add: get_config_path_def)
  then show ?thesis using rc d get_global_rc_env [of c] by simp
qed

lemma conf_file_found:
  assumes "conf_file attr s c = (Inr fl, c')" "fl \<noteq> ''''"
  shows "rc_data c' \<noteq> [] \<and> files c' fl \<noteq> None \<and> conf_file attr s c' = (Inr fl, c') \<and> same_env c c'"
proof -
  obtain p c1 where p: "get_config_path s c = (Inr p, c1)" "p \<noteq> ''''"
    using assms by (auto simp: conf_file_def bind_st_Inr_iff split: if_splits)
  note f = get_config_path_found [OF p]
  have "bind_res (dict_index (rc_data c1) attr) (join_value p) = Inr fl" "files c1 fl \<noteq> None" "c' = c1"
    using assms p f by (auto simp: conf_file_def bind_st_def split: sum.splits if_splits)
  then show ?thesis using f p by (auto simp: conf_file_def)
qed

lemma conf_file_cached: "rc_data c \<noteq> [] \<Longrightarrow> snd (conf_file attr s c) = c"
proof -
  assume rc: "rc_data c \<noteq> []"
  obtain r where "get_config_path s c = (r, c)"
    using get_config_path_cached [OF rc, of s] by (metis prod.collapse)
  then show ?thesis using rc by (cases r) (auto simp: conf_file_def bind_st_def split: sum.splits)
qed

lemma conf_file_env:
  "same_env c (snd (conf_file attr s c)) \<and> (rc_ok c \<longrightarrow> rc_ok (snd (conf_file attr s c)))"
proof -
  have path: "snd (get_config_path s c) = snd (get_global_rc c)"
    by (auto simp: get_config_path_def bind_st_def split: prod.splits sum.splits)
  show ?thesis
  proof (cases "get_config_path s c")
    case (Pair r c1)
    have c1: "same_env c c1" "rc_ok c \<longrightarrow> rc_ok c1"
      using path Pair get_global_rc_env [of c] get_global_rc_ok [of c] by simp_all
    show ?thesis
      using Pair c1 get_global_rc_env [of c1] get_global_rc_ok [of c1]
      by (auto simp: conf_file_def bind_st_def split: prod.splits sum.splits elim: same_env_trans)
  qed
qed

lemmas conf_files = get_proc_plugins_conf_file_def get_actions_conf_file_def
  get_actions_binding_conf_file_def get_plugins_data_file_def

text \<open>The availability test: what it has seen, later reads find.\<close>

lemma available_iff:
  assumes "is_running_config_available c = (Inr True, c')"
  obtains f1 f2 f3 where
    "f1 \<noteq> ''''" "f2 \<noteq> ''''" "f3 \<noteq> ''''" "rc_data c' \<noteq> []" "same_env c c'"
    "get_proc_plugins_conf_file False c' = (Inr f1, c')"
    "get_actions_conf_file False c' = (Inr f2, c')"
    "get_actions_binding_conf_file False c' = (Inr f3, c')"
proof -
  obtain f1 c1 f2 c2 f3 where
    f: "get_proc_plugins_conf_file False c = (Inr f1, c1)" "f1 \<noteq> ''''"
       "get_actions_conf_file False c1 = (Inr f2, c2)" "f2 \<noteq> ''''"
       "get_actions_binding_conf_file False c2 = (Inr f3, c')" "f3 \<noteq> ''''"
    using assms by (auto simp: is_running_config_available_def bind_st_Inr_iff split: if_splits)
  have 1: "rc_data c1 \<noteq> []" "get_proc_plugins_conf_file False c1 = (Inr f1, c1)" "same_env c c1"
    using conf_file_found f(1,2) unfolding conf_files by blast+
  have "c2 = c1" using f(3) conf_file_cached [OF 1(1)] unfolding conf_files by (metis snd_conv)
  moreover have "c' = c2" using f(5) conf_file_cached 1(1) calculation unfolding conf_files by (metis snd_conv)
  ultimately show thesis using f 1 that by simp
qed

lemma get_data_found: "files c fl = Some txt \<Longrightarrow> fl \<noteq> '''' \<Longrightarrow> get_data fl c = loads txt"
  by (simp add: get_data_def)

text \<open>Reading an rc file that was printed from a dictionary with the required attributes.\<close>

lemma get_global_rc_read:
  assumes "rc_data c = []" "files c (global_rc_file c) = Some (dumps (JObj kvs))"
    "wf_json (JObj kvs)" "list_all (\<lambda>r. r \<in> set (keys kvs)) reqd"
  shows "get_global_rc c =
    (Inr (filter (\<lambda>(k, v). \<not> private_key k) kvs),
     c\<lparr>rc_data := filter (\<lambda>(k, v). \<not> private_key k) kvs\<rparr>)"
  using assms by (simp add: get_global_rc_def loads_dumps Let_def del: dumps.simps wf_json.simps)

lemma map_of_filter_public:
  "\<not> private_key k \<Longrightarrow> map_of (filter (\<lambda>(k, v). \<not> private_key k) kvs) k = map_of kvs k"
  by (induction kvs) auto

section \<open>Properties\<close>

text \<open>C38. Once the global rc file has been read with its required attributes, every later call
  returns the same dictionary, whatever happens to the file; it has every required attribute and
  none that starts with an underscore.\<close>

theorem rc_read_once:
  assumes "rc_ok c" "get_global_rc c = (Inr d, c')" "d \<noteq> []"
  shows "get_global_rc (c'\<lparr>files := fs\<rparr>) = (Inr d, c'\<lparr>files := fs\<rparr>) \<and>
    set reqd \<subseteq> set (keys d) \<and> list_all (\<lambda>k. \<not> private_key k) (keys d)"
proof -
  have d: "rc_data c' = d" using get_global_rc_result [OF assms(2,3)] .
  moreover have "rc_ok c'" using get_global_rc_ok [OF assms(1)] assms(2) by simp
  ultimately show ?thesis using assms(3) by (auto simp: rc_ok_def list_all_iff)
qed

definition sample_rc :: "(string, json) dict" where
  "sample_rc = (''_comment'', JNull) # map (\<lambda>a. (a, JStr (''/'' @ a))) reqd"

definition sample_plugins :: "(string, json) dict" where
  "sample_plugins = [(''proc_0'', JObj [(''link_flap'', JStr ''link_flap.py'')])]"

definition sample_config :: config where
  "sample_config =
     \<lparr>global_rc_file = ''rc'', rc_data = [],
      files = [''rc'' \<mapsto> dumps (JObj sample_rc), ''/proc_plugins_conf_name'' \<mapsto> dumps (JObj sample_plugins),
               ''/actions_config_name'' \<mapsto> ''{}'', ''/actions_binding_config_name'' \<mapsto> ''{}''],
      ct_path = ''/p''\<rparr>"

lemma sample_rc_read:
  "get_global_rc sample_config = (Inr (tl sample_rc), sample_config\<lparr>rc_data := tl sample_rc\<rparr>)"
proof -
  have "filter (\<lambda>(k, v). \<not> private_key k) sample_rc = tl sample_rc"
    by (simp add: sample_rc_def reqd_def private_key_def startswith_def)
  then show ?thesis using get_global_rc_read [of sample_config sample_rc]
    by (simp add: sample_config_def sample_rc_def reqd_def del: dumps.simps)
qed

lemma rc_read_once_witness:
  "get_global_rc (sample_config\<lparr>rc_data := tl sample_rc, files := Map.empty\<rparr>) =
   (Inr (tl sample_rc), sample_config\<lparr>rc_data := tl sample_rc, files := Map.empty\<rparr>)"
proof -
  have "rc_ok sample_config" by (simp add: sample_config_def rc_ok_def)
  moreover have "tl sample_rc \<noteq> []" by (simp add: sample_rc_def reqd_def)
  ultimately show ?thesis using rc_read_once [OF _ sample_rc_read, of Map.empty] by simp
qed

text \<open>When the running configuration is reported available, the three configuration files it
  consists of exist, and the calls that read them afterwards find these files.\<close>

lemma available_files_exist:
  assumes "is_running_config_available c = (Inr True, c')"
  shows "\<exists>f1 f2 f3. files c f1 \<noteq> None \<and> files c f2 \<noteq> None \<and> files c f3 \<noteq> None \<and>
    get_proc_plugins_conf '''' c' = (get_data f1 c', c') \<and> get_actions_conf c' = (get_data f2 c', c') \<and>
    get_actions_binding_conf '''' c' = (get_data f3 c', c')"
proof -
  obtain f1 f2 f3 where f: "f1 \<noteq> ''''" "f2 \<noteq> ''''" "f3 \<noteq> ''''" "rc_data c' \<noteq> []" "same_env c c'"
    "get_proc_plugins_conf_file False c' = (Inr f1, c')" "get_actions_conf_file False c' = (Inr f2, c')"
    "get_actions_binding_conf_file False c' = (Inr f3, c')"
    using assms by (rule available_iff)
  have found: "files c fl \<noteq> None" if "conf_file attr False c' = (Inr fl, c')" "fl \<noteq> ''''" for attr fl
    using conf_file_found [OF that] f(5) by (simp add: same_env_def)
  have data: "bind_st (get_data fl c', c') (\<lambda>d c. (Inr d, c)) = (get_data fl c', c')" for fl
    by (cases "get_data fl c'") simp_all
  show ?thesis
    using f found data
    by (intro exI [of _ f1] exI [of _ f2] exI [of _ f3])
      (simp add: get_proc_plugins_conf_def get_actions_conf_def get_actions_binding_conf_def data_for_def conf_files)
qed

lemma sample_conf_file:
  assumes "attr \<in> {''proc_plugins_conf_name'', ''actions_config_name'', ''actions_binding_config_name''}"
  shows "conf_file attr False sample_config = (Inr (''/'' @ attr), sample_config\<lparr>rc_data := tl sample_rc\<rparr>)"
    "conf_file attr False (sample_config\<lparr>rc_data := tl sample_rc\<rparr>) =
     (Inr (''/'' @ attr), sample_config\<lparr>rc_data := tl sample_rc\<rparr>)"
proof -
  have "dict_index (tl sample_rc) a = Inr (JStr (''/'' @ a))" if "a \<in> set reqd" for a
    using that by (auto simp: sample_rc_def reqd_def)
  then have rc: "dict_index (tl sample_rc) ''config_running_path'' = Inr (JStr ''/config_running_path'')"
    "dict_index (tl sample_rc) attr = Inr (JStr (''/'' @ attr))"
    using assms by (auto simp: reqd_def)
  have ne: "tl sample_rc \<noteq> []" by (simp add: sample_rc_def reqd_def)
  have "files sample_config (''/'' @ attr) \<noteq> None" using assms by (auto simp: sample_config_def)
  then show "conf_file attr False sample_config = (Inr (''/'' @ attr), sample_config\<lparr>rc_data := tl sample_rc\<rparr>)"
    "conf_file attr False (sample_config\<lparr>rc_data := tl sample_rc\<rparr>) =
     (Inr (''/'' @ attr), sample_config\<lparr>rc_data := tl sample_rc\<rparr>)"
    using ne by (simp_all add: conf_file_def get_config_path_def sample_rc_read rc path_join_def startswith_def)
qed

lemma sample_data:
  "get_data ''/proc_plugins_conf_name'' (sample_config\<lparr>rc_data := tl sample_rc\<rparr>) = Inr (JObj sample_plugins)"
  "get_data ''/actions_config_name'' (sample_config\<lparr>rc_data := tl sample_rc\<rparr>) = Inr (JObj [])"
proof -
  have "loads (dumps (JObj sample_plugins)) = Inr (JObj sample_plugins)" "loads ''{}'' = Inr (JObj [])"
    using loads_dumps [of "JObj sample_plugins"] loads_dumps [of "JObj []"] by (simp_all add: sample_plugins_def)
  then show "get_data ''/proc_plugins_conf_name'' (sample_config\<lparr>rc_data := tl sample_rc\<rparr>) = Inr (JObj sample_plugins)"
    "get_data ''/actions_config_name'' (sample_config\<lparr>rc_data := tl sample_rc\<rparr>) = Inr (JObj [])"
    by (simp_all add: get_data_def sample_config_def del: dumps.simps)
qed

lemma sample_plugins_conf:
  "get_proc_plugins_conf '''' sample_config = (Inr (JObj sample_plugins), sample_config\<lparr>rc_data := tl sample_rc\<rparr>)"
proof -
  show ?thesis using sample_data(1) sample_conf_file(1) [of "''proc_plugins_conf_name''"]
    by (simp add: get_proc_plugins_conf_def data_for_def conf_files)
qed

text \<open>The attribute that names the plugins' data file is not among the required ones: with an
  rc file that has exactly the required attributes, asking for a plugin's data raises
  \<^verbatim>\<open>KeyError\<close>.\<close>

lemma plugin_data_key_error:
  assumes "rc_data c \<noteq> []" "''plugins_data_name'' \<notin> set (keys (rc_data c))"
    "map_of (rc_data c) ''config_running_path'' = Some (JStr p)" "p \<noteq> ''''"
  shows "get_plugin_data action c = (Inl (KeyError ''plugins_data_name''), c)"
proof -
  have "path_join (ct_path c) p \<noteq> ''''"
    using assms(4) by (auto simp: path_join_def startswith_def endswith_def)
  moreover have "dict_index (rc_data c) ''plugins_data_name'' = Inl (KeyError ''plugins_data_name'')"
    using assms(2) by (auto simp: dict_index_def map_of_eq_None_iff split: option.splits dest!: map_of_SomeD)
  ultimately show ?thesis using assms(1,3)
    by (simp add: get_plugin_data_def data_for_def conf_files conf_file_def get_config_path_def dict_index_def)
qed

end
