(* ===== verification/CacheData.thy ===== *)
theory CacheData
  imports Prelude FifoInterface
begin

text \<open>
  The message queues between the plugin process and the server
  (\<^verbatim>\<open>tests/lib/test_client.py\<close>, classes \<^verbatim>\<open>CacheData\<close> and \<^verbatim>\<open>cache_service\<close>).
  A \<^verbatim>\<open>CacheData\<close> object is a ring of \<open>limit\<close> slots held in a dictionary, with running
  counts of writes and reads and a pipe that carries four bytes per message to wake the
  reader. The pipe is the number of unread bytes; its file descriptors come from
  \<^verbatim>\<open>os.pipe\<close> and are arguments of the constructor.
\<close>

section \<open>The ring\<close>

record 'a cache_data =
  limit :: int
  rd_index :: int
  wr_index :: int
  rd_cnt :: int
  wr_cnt :: int
  data :: "int \<rightharpoonup> 'a"
  c2s :: bool
  signal_rd :: int
  signal_wr :: int
  pipe_bytes :: nat

definition SIGNAL_MSG :: string where
  "SIGNAL_MSG = ''data''"

definition new_cache_data :: "int \<Rightarrow> bool \<Rightarrow> int \<Rightarrow> int \<Rightarrow> 'a cache_data" where
  "new_cache_data lim dir rd wr =
     \<lparr>limit = lim, rd_index = 0, wr_index = 0, rd_cnt = 0, wr_cnt = 0, data = Map.empty,
      c2s = dir, signal_rd = rd, signal_wr = wr, pipe_bytes = 0\<rparr>"

text \<open>\<^verbatim>\<open>os.read\<close> of \<open>n\<close> bytes from a readable pipe takes at most what is there.\<close>

definition drain_signal :: "'a cache_data \<Rightarrow> 'a cache_data" where
  "drain_signal c =
     (if pipe_bytes c > 0 then c\<lparr>pipe_bytes := pipe_bytes c - length SIGNAL_MSG\<rparr> else c)"

definition raise_signal :: "'a cache_data \<Rightarrow> 'a cache_data" where
  "raise_signal c = c\<lparr>pipe_bytes := pipe_bytes c + length SIGNAL_MSG\<rparr>"

definition cache_write :: "'a \<Rightarrow> 'a cache_data \<Rightarrow> bool \<times> 'a cache_data" where
  "cache_write x c =
     (if wr_cnt c - rd_cnt c \<ge> limit c then (False, c)
      else
        let c1 = c\<lparr>data := (data c)(wr_index c \<mapsto> x)\<rparr>;
            c2 = c1\<lparr>wr_index := wr_index c1 + 1\<rparr>;
            c3 = (if wr_index c2 \<ge> limit c2 then c2\<lparr>wr_index := 0\<rparr> else c2);
            c4 = c3\<lparr>wr_cnt := wr_cnt c3 + 1\<rparr>
        in (True, raise_signal c4))"

text \<open>
  The part of \<^verbatim>\<open>read\<close> after the waiting loop. A slot missing from the dictionary would
  raise \<^verbatim>\<open>KeyError\<close>; the key is an integer, shown here by the name of the attribute.
\<close>

definition cache_take :: "'a cache_data \<Rightarrow> 'a option res \<times> 'a cache_data" where
  "cache_take c0 =
     (let c = drain_signal c0 in
      if rd_cnt c < wr_cnt c then
        (case data c (rd_index c) of
           None \<Rightarrow> (Inl (KeyError ''data''), c)
         | Some x \<Rightarrow>
             let c1 = c\<lparr>rd_index := rd_index c + 1\<rparr>;
                 c2 = (if rd_index c1 \<ge> limit c1 then c1\<lparr>rd_index := 0\<rparr> else c1);
                 c3 = c2\<lparr>rd_cnt := rd_cnt c2 + 1\<rparr>
             in (Inr (Some x), c3))
      else (Inr None, c))"

text \<open>
  The waiting loop. \<open>env\<close> says, for each \<^verbatim>\<open>select\<close> the loop performs, which messages the
  other thread has written by the time it returns; an exhausted \<open>env\<close> means that the
  reader is still blocked when the scenario ends.
\<close>

definition write_all :: "'a list \<Rightarrow> 'a cache_data \<Rightarrow> 'a cache_data" where
  "write_all xs c = fold (\<lambda>x c. snd (cache_write x c)) xs c"

fun read_wait ::
  "bool \<Rightarrow> int \<Rightarrow> 'a list list \<Rightarrow> 'a cache_data \<Rightarrow> ('a cache_data \<times> 'a list list) option"
where
  "read_wait shutdown timeout env c =
     (if \<not> shutdown \<and> timeout \<noteq> 0 \<and> rd_cnt c \<ge> wr_cnt c then
        (case env of
           [] \<Rightarrow> None
         | ws # env' \<Rightarrow>
             let t = (if timeout > 0 then (if timeout < 2 then timeout else 2) else 2);
                 timeout' = (if timeout > 0 then timeout - t else timeout);
                 c' = write_all ws c
             in if pipe_bytes c' > 0 then Some (c', env')
                else read_wait shutdown timeout' env' c')
      else Some (c, env))"

declare read_wait.simps [simp del]

definition cache_read ::
  "bool \<Rightarrow> int \<Rightarrow> 'a list list \<Rightarrow> 'a cache_data
   \<Rightarrow> ('a option res \<times> 'a cache_data \<times> 'a list list) option"
where
  "cache_read shutdown timeout env c =
     (case read_wait shutdown timeout env c of
        None \<Rightarrow> None
      | Some (c', env') \<Rightarrow> (case cache_take c' of (r, c'') \<Rightarrow> Some (r, c'', env')))"

section \<open>Invariant and contents\<close>

text \<open>
  The indices are the counts modulo the size, the counts differ by at most the size, every
  slot between them is filled, and the pipe holds one signal per waiting message.
\<close>

definition cache_ok :: "'a cache_data \<Rightarrow> bool" where
  "cache_ok c \<longleftrightarrow>
     0 < limit c \<and> 0 \<le> rd_cnt c \<and> rd_cnt c \<le> wr_cnt c \<and> wr_cnt c - rd_cnt c \<le> limit c \<and>
     rd_index c = rd_cnt c mod limit c \<and> wr_index c = wr_cnt c mod limit c \<and>
     list_all (\<lambda>i. data c (i mod limit c) \<noteq> None) [rd_cnt c..wr_cnt c - 1] \<and>
     pipe_bytes c = 4 * nat (wr_cnt c - rd_cnt c)"

definition contents :: "'a cache_data \<Rightarrow> 'a list" where
  "contents c = map (\<lambda>i. the (data c (i mod limit c))) [rd_cnt c..wr_cnt c - 1]"

definition capacity :: "'a cache_data \<Rightarrow> nat" where
  "capacity c = nat (limit c)"

lemma length_SIGNAL_MSG [simp]: "length SIGNAL_MSG = 4"
  by (simp add: SIGNAL_MSG_def)

lemma new_cache_ok: "0 < lim \<Longrightarrow> cache_ok (new_cache_data lim dir rd wr)"
  by (simp add: cache_ok_def new_cache_data_def)

lemma contents_new [simp]: "contents (new_cache_data lim dir rd wr) = []"
  by (simp add: contents_def new_cache_data_def)

lemma capacity_new [simp]: "capacity (new_cache_data lim dir rd wr) = nat lim"
  by (simp add: capacity_def new_cache_data_def)

lemma length_contents: "cache_ok c \<Longrightarrow> length (contents c) = nat (wr_cnt c - rd_cnt c)"
  by (simp add: contents_def cache_ok_def)

lemma contents_le_capacity: "cache_ok c \<Longrightarrow> length (contents c) \<le> capacity c"
  by (auto simp: length_contents capacity_def cache_ok_def)

text \<open>Advancing an index with a reset at the end of the ring is counting modulo its size.\<close>

lemma ring_next:
  assumes "0 < (n::int)"
  shows "(if i mod n + 1 \<ge> n then 0 else i mod n + 1) = (i + 1) mod n"
proof (cases "i mod n + 1 \<ge> n")
  case True
  with assms have "i mod n = n - 1"
    using pos_mod_bound [of n i] by linarith
  then have "(i + 1) mod n = (n - 1 + 1) mod n"
    by (metis mod_add_left_eq)
  with True show ?thesis by simp
next
  case False
  with assms have "(i mod n + 1) mod n = i mod n + 1"
    by (intro mod_pos_pos_trivial) auto
  then have "(i + 1) mod n = i mod n + 1"
    by (simp add: mod_add_left_eq)
  with False show ?thesis by simp
qed

text \<open>Two positions less than one turn apart are different slots.\<close>

lemma ring_slots_differ:
  assumes "(i::int) < j" "j - i < n"
  shows "i mod n \<noteq> j mod n"
proof
  assume "i mod n = j mod n"
  then have "n dvd j - i" by (metis mod_eq_dvd_iff)
  with assms show False by (auto dest: zdvd_imp_le)
qed

section \<open>The ring is a bounded first-in first-out queue\<close>

lemma write_refuses:
  assumes "cache_ok c" "\<not> length (contents c) < capacity c"
  shows "cache_write x c = (False, c)"
proof -
  have "wr_cnt c - rd_cnt c \<ge> limit c"
    using assms by (auto simp: length_contents capacity_def cache_ok_def)
  then show ?thesis by (simp add: cache_write_def)
qed

lemma write_fields:
  assumes "cache_ok c" "length (contents c) < capacity c"
  shows "cache_write x c =
    (True, c\<lparr>data := (data c)(wr_cnt c mod limit c \<mapsto> x), wr_index := (wr_cnt c + 1) mod limit c,
             wr_cnt := wr_cnt c + 1, pipe_bytes := pipe_bytes c + 4\<rparr>)"
proof -
  have "\<not> wr_cnt c - rd_cnt c \<ge> limit c"
    using assms by (auto simp: length_contents capacity_def cache_ok_def)
  moreover have "0 < limit c" and "wr_index c = wr_cnt c mod limit c"
    using assms(1) by (simp_all add: cache_ok_def)
  moreover note ring_next [OF this(1), of "wr_cnt c", symmetric]
  ultimately show ?thesis
    by (simp add: cache_write_def raise_signal_def Let_def)
qed

lemma filled_after_write:
  assumes "cache_ok c" "wr_cnt c - rd_cnt c < limit c" "i \<in> set [rd_cnt c..wr_cnt c - 1]"
  shows "((data c)(wr_cnt c mod limit c \<mapsto> x)) (i mod limit c) = data c (i mod limit c)"
  using ring_slots_differ [of i "wr_cnt c" "limit c"] assms by auto

lemma write_accepts:
  assumes ok: "cache_ok c" and room: "length (contents c) < capacity c"
  shows "\<exists>c'. cache_write x c = (True, c') \<and> cache_ok c' \<and> capacity c' = capacity c \<and>
              contents c' = contents c @ [x]"
proof -
  let ?c' = "snd (cache_write x c)"
  have less: "wr_cnt c - rd_cnt c < limit c"
    using assms by (auto simp: length_contents capacity_def cache_ok_def)
  have le: "rd_cnt c \<le> wr_cnt c" using ok by (simp add: cache_ok_def)
  note w = write_fields [OF ok room, of x]
  have up: "[rd_cnt c..wr_cnt c] = [rd_cnt c..wr_cnt c - 1] @ [wr_cnt c]"
    using upto_rec2 [OF le] .
  have contents: "contents ?c' = contents c @ [x]"
    using filled_after_write [OF ok less, of _ x] by (simp add: w contents_def up)
  have "list_all (\<lambda>i. data ?c' (i mod limit ?c') \<noteq> None) [rd_cnt ?c'..wr_cnt ?c' - 1]"
    using ok filled_after_write [OF ok less, of _ x]
    by (simp add: w up cache_ok_def list_all_iff)
  moreover have "4 * nat (wr_cnt c - rd_cnt c) + 4 = 4 * nat (wr_cnt c + 1 - rd_cnt c)"
    using le by simp
  ultimately have "cache_ok ?c'"
    using ok less by (simp add: w cache_ok_def)
  moreover have "capacity ?c' = capacity c" by (simp add: w capacity_def)
  ultimately show ?thesis using w contents by (metis snd_conv)
qed

lemma take_none:
  assumes "cache_ok c" "contents c = []"
  shows "cache_take c = (Inr None, c)"
proof -
  have "wr_cnt c = rd_cnt c" "pipe_bytes c = 0"
    using assms length_contents [OF assms(1)] by (auto simp: cache_ok_def)
  then show ?thesis by (simp add: cache_take_def drain_signal_def)
qed

lemma take_some:
  assumes ok: "cache_ok c" and ne: "contents c = x # xs"
  shows "\<exists>c'. cache_take c = (Inr (Some x), c') \<and> cache_ok c' \<and> capacity c' = capacity c \<and>
              contents c' = xs"
proof -
  have less: "rd_cnt c < wr_cnt c" using ne length_contents [OF ok] by simp
  then have up: "[rd_cnt c..wr_cnt c - 1] = rd_cnt c # [rd_cnt c + 1..wr_cnt c - 1]"
    by (simp add: upto_rec1)
  have x: "x = the (data c (rd_cnt c mod limit c))"
    and xs: "xs = map (\<lambda>i. the (data c (i mod limit c))) [rd_cnt c + 1..wr_cnt c - 1]"
    using ne up by (auto simp: contents_def)
  have "data c (rd_cnt c mod limit c) = Some x"
    using ok up x by (auto simp: cache_ok_def)
  moreover have "0 < limit c" and "rd_index c = rd_cnt c mod limit c"
    using ok by (simp_all add: cache_ok_def)
  moreover note ring_next [OF this(1), of "rd_cnt c", symmetric]
  moreover have pos: "0 < pipe_bytes c" using ok less by (auto simp: cache_ok_def)
  ultimately have t: "cache_take c =
      (Inr (Some x), c\<lparr>pipe_bytes := pipe_bytes c - 4, rd_index := (rd_cnt c + 1) mod limit c,
                      rd_cnt := rd_cnt c + 1\<rparr>)"
    using less by (simp add: cache_take_def drain_signal_def Let_def)
  have "4 * nat (wr_cnt c - rd_cnt c) - 4 = 4 * nat (wr_cnt c - (rd_cnt c + 1))"
    using less by simp
  then have "cache_ok (snd (cache_take c))"
    using ok less up by (simp add: t cache_ok_def)
  then show ?thesis by (simp add: t capacity_def contents_def xs)
qed

interpretation ring: bounded_fifo cache_write cache_take contents capacity cache_ok
  by unfold_locales (fact write_accepts write_refuses take_some take_none)+

lemmas ring_laws = ring.put_result ring.get_result

section \<open>Waiting\<close>

lemma wait_immediate:
  "shutdown \<or> timeout = 0 \<or> rd_cnt c < wr_cnt c \<Longrightarrow> read_wait shutdown timeout env c = Some (c, env)"
  by (subst read_wait.simps) auto

lemma contents_empty_iff: "cache_ok c \<Longrightarrow> contents c = [] \<longleftrightarrow> \<not> rd_cnt c < wr_cnt c"
  by (auto simp: contents_def cache_ok_def)

lemma pipe_signals_data: "cache_ok c \<Longrightarrow> 0 < pipe_bytes c \<longleftrightarrow> contents c \<noteq> []"
  by (auto simp: contents_empty_iff cache_ok_def)

lemma write_all_ok:
  "cache_ok c \<Longrightarrow> cache_ok (write_all ws c) \<and> capacity (write_all ws c) = capacity c \<and>
   contents (write_all ws c) = take (capacity c) (contents c @ ws)"
proof (induction ws arbitrary: c)
  case Nil
  then show ?case using contents_le_capacity [of c] by (simp add: write_all_def)
next
  case (Cons w ws)
  obtain b c1 where c1: "cache_write w c = (b, c1)" by (cases "cache_write w c")
  note r = ring.put_result [OF Cons.prems c1]
  have "write_all (w # ws) c = write_all ws c1" using c1 by (simp add: write_all_def)
  moreover have "take (capacity c) (contents c1 @ ws) = take (capacity c) (contents c @ w # ws)"
    using r contents_le_capacity [OF Cons.prems] by (auto simp: take_Cons' split: if_splits)
  ultimately show ?case using Cons.IH [of c1] r by simp
qed

lemma write_all_signals:
  assumes "cache_ok c" "contents c = []"
  shows "0 < pipe_bytes (write_all ws c) \<longleftrightarrow> ws \<noteq> []"
proof -
  have "capacity c \<noteq> 0" using assms(1) by (auto simp: capacity_def cache_ok_def)
  then show ?thesis
    using write_all_ok [OF assms(1), of ws] pipe_signals_data [of "write_all ws c"] assms(2)
    by simp
qed

lemma write_all_Nil [simp]: "write_all [] c = c"
  by (simp add: write_all_def)

text \<open>Waiting on an empty ring ends with the first message, or with the timeout.\<close>

lemma wait_step:
  assumes "cache_ok c" "contents c = []" "timeout \<noteq> 0"
  shows "read_wait False timeout (ws # env) c =
    (if ws \<noteq> [] then Some (write_all ws c, env)
     else read_wait False (if timeout > 0 then timeout - min 2 timeout else timeout) env c)"
proof -
  have "\<not> rd_cnt c < wr_cnt c" using contents_empty_iff [OF assms(1)] assms(2) by simp
  then show ?thesis
    using write_all_signals [OF assms(1,2), of ws] assms
    by (subst read_wait.simps) (auto simp: Let_def min_def)
qed

lemma wait_returns:
  assumes "cache_ok c" "0 \<le> timeout" "nat ((timeout + 1) div 2) \<le> length env"
  shows "\<exists>r. read_wait shutdown timeout env c = Some r"
  using assms
proof (induction env arbitrary: timeout)
  case Nil
  then have "timeout = 0" by simp
  then show ?case by (simp add: wait_immediate)
next
  case (Cons ws env)
  show ?case
  proof (cases "shutdown \<or> timeout = 0 \<or> contents c \<noteq> []")
    case True
    then show ?thesis using contents_empty_iff [OF Cons.prems(1)]
      by (subst wait_immediate) auto
  next
    case False
    have "nat ((timeout - min 2 timeout + 1) div 2) \<le> length env" "0 \<le> timeout - min 2 timeout"
      using Cons.prems(2,3) by (auto simp: min_def)
    with False Cons.IH [of "timeout - min 2 timeout"] Cons.prems(1,2) show ?thesis
      by (simp add: wait_step)
  qed
qed

lemma wait_result:
  assumes "cache_ok c" "read_wait shutdown timeout env c = Some (c', env')"
  shows "cache_ok c' \<and> capacity c' = capacity c \<and>
         (c' = c \<or> (\<exists>ws \<in> set env. ws \<noteq> [] \<and> contents c = [] \<and> c' = write_all ws c))"
  using assms(2)
proof (induction env arbitrary: timeout)
  case Nil
  then show ?case using assms(1) by (subst (asm) read_wait.simps) (auto split: if_splits)
next
  case (Cons ws env)
  show ?case
  proof (cases "shutdown \<or> timeout = 0 \<or> contents c \<noteq> []")
    case True
    then show ?thesis using Cons.prems contents_empty_iff [OF assms(1)] assms(1)
      by (subst (asm) wait_immediate) auto
  next
    case False
    then show ?thesis
      using Cons wait_step [OF assms(1), of timeout ws env] write_all_ok [OF assms(1), of ws]
      by (auto split: if_splits)
  qed
qed

lemma wait_blocks_no_timeout:
  assumes "cache_ok c" "contents c = []" "timeout < 0"
  shows "read_wait False timeout env c = None \<longleftrightarrow> (\<forall>ws \<in> set env. ws = [])"
  using assms
proof (induction env)
  case Nil
  then show ?case using contents_empty_iff [of c] by (subst read_wait.simps) auto
next
  case (Cons ws env)
  then show ?case by (simp add: wait_step)
qed

section \<open>Properties\<close>

text \<open>C6. Over any sequence of writes and reads of a queue, the messages delivered, followed by
  those still waiting, are the messages that were waiting at first followed by those accepted:
  nothing is lost, repeated, reordered or invented, and the queue stays well-formed.\<close>

theorem queue_keeps_messages:
  assumes "cache_ok c" "fifo_run cache_write cache_take ops c = (accepted, delivered, c')"
  shows "delivered @ contents c' = contents c @ accepted \<and> cache_ok c' \<and> capacity c' = capacity c"
  using ring.run_conserves [OF assms] by simp

lemma queue_keeps_messages_witness:
  "\<exists>c'. fifo_run cache_write cache_take [Put 1, Put 2, Put 3, Get, Put 4, Get]
          (new_cache_data 2 True 3 4 :: nat cache_data) = ([1, 2, 4], [1, 2], c') \<and> contents c' = [4]"
proof -
  let ?c = "new_cache_data 2 True 3 4 :: nat cache_data"
  let ?run = "fifo_run cache_write cache_take [Put 1, Put 2, Put 3, Get, Put 4, Get] ?c"
  have run: "fst ?run = [1, 2, 4]" "fst (snd ?run) = [1, 2]"
    by (simp_all add: new_cache_data_def cache_write_def raise_signal_def cache_take_def drain_signal_def Let_def)
  moreover have "fst (snd ?run) @ contents (snd (snd ?run)) = contents ?c @ fst ?run"
    using queue_keeps_messages [OF new_cache_ok [of 2 True 3 4], where c' = "snd (snd ?run)"]
    by (metis prod.collapse zero_less_numeral)
  ultimately have "contents (snd (snd ?run)) = [4]" by simp
  then show ?thesis using run by (metis prod.collapse)
qed

text \<open>Messages written one after the other to a queue with room for them are all accepted and
  wait in the order written.\<close>

lemma queue_accepts_all:
  assumes "cache_ok c" "length (contents c) + length ms \<le> capacity c"
  shows "\<exists>c'. fifo_run cache_write cache_take (map Put ms) c = (ms, [], c') \<and> contents c' = contents c @ ms"
  using ring.run_accepts_all [OF assms] by blast

text \<open>A read with a timeout of zero or more returns after at most half that many waits of two
  seconds (rounded up), whatever the writers do, never raises, and yields the oldest waiting
  message if one was waiting.\<close>

lemma read_returns:
  assumes "cache_ok c" "0 \<le> timeout" "nat ((timeout + 1) div 2) \<le> length env"
  shows "\<exists>r c' env'. cache_read shutdown timeout env c = Some (Inr r, c', env') \<and> cache_ok c' \<and>
    (contents c \<noteq> [] \<longrightarrow> r = Some (hd (contents c)) \<and> contents c' = tl (contents c))"
proof -
  obtain c1 env' where w: "read_wait shutdown timeout env c = Some (c1, env')"
    using wait_returns [OF assms] by (metis surj_pair)
  have c1: "cache_ok c1" using wait_result [OF assms(1) w] by blast
  have same: "contents c \<noteq> [] \<Longrightarrow> c1 = c" using wait_result [OF assms(1) w] by auto
  obtain r c' where t: "cache_take c1 = (r, c')" by fastforce
  show ?thesis using ring.get_result [OF c1 t] w t same
    by (cases "contents c1") (auto simp: cache_read_def)
qed

text \<open>A read of an empty queue with a negative timeout waits until something is written: it is
  still waiting exactly while no writer has written.\<close>

lemma read_waits_for_message:
  assumes "cache_ok c" "contents c = []" "timeout < 0"
  shows "cache_read False timeout env c = None \<longleftrightarrow> (\<forall>ms \<in> set env. ms = [])"
  using wait_blocks_no_timeout [OF assms, of env]
  by (cases "read_wait False timeout env c") (auto simp: cache_read_def split: prod.splits)

end
