(* ===== verification/CacheThreads.thy ===== *)
theory CacheThreads
  imports CacheData
begin

text \<open>
  One queue between two threads (\<^verbatim>\<open>tests/lib/test_client.py\<close>, class \<^verbatim>\<open>CacheData\<close>): one thread
  writes, the other reads, with no lock. The methods \<^verbatim>\<open>write\<close> and \<^verbatim>\<open>read\<close> are cut at every
  access to a field that both threads use. \<open>accepted\<close> has the messages whose write has been
  counted, \<open>delivered\<close> those whose read has been counted.
\<close>

section \<open>The steps\<close>

text \<open>
  The writer is outside \<^verbatim>\<open>write\<close>, or has found room and is about to store the message, to
  advance its index, to count the write, to signal.
\<close>

datatype 'a writer_pc = W_idle | W_store 'a | W_index 'a | W_count 'a | W_signal

text \<open>
  The reader is outside \<^verbatim>\<open>read\<close> or in its waiting loop, or is about to drain a signal, to
  compare the counts, to copy the message, to advance its index, to count the read, or has
  ended with an exception.
\<close>

datatype 'a reader_pc =
    R_wait | R_drain | R_check | R_copy | R_index 'a | R_count 'a | R_crash py_error

fun writer_step :: "'a writer_pc \<Rightarrow> 'a cache_data \<Rightarrow> 'a writer_pc \<times> 'a cache_data" where
  "writer_step (W_store x) c = (W_index x, c\<lparr>data := (data c)(wr_index c \<mapsto> x)\<rparr>)"
| "writer_step (W_index x) c =
     (let c1 = c\<lparr>wr_index := wr_index c + 1\<rparr>
      in (W_count x, if wr_index c1 \<ge> limit c1 then c1\<lparr>wr_index := 0\<rparr> else c1))"
| "writer_step (W_count x) c = (W_signal, c\<lparr>wr_cnt := wr_cnt c + 1\<rparr>)"
| "writer_step W_signal c = (W_idle, raise_signal c)"
| "writer_step W_idle c = (W_idle, c)"

text \<open>Entering \<^verbatim>\<open>write\<close>: a full queue refuses at once.\<close>

definition writer_enter :: "'a \<Rightarrow> 'a cache_data \<Rightarrow> 'a writer_pc" where
  "writer_enter x c = (if wr_cnt c - rd_cnt c \<ge> limit c then W_idle else W_store x)"

fun reader_step :: "'a reader_pc \<Rightarrow> 'a cache_data \<Rightarrow> 'a reader_pc \<times> 'a cache_data" where
  "reader_step R_drain c = (R_check, drain_signal c)"
| "reader_step R_check c = (if rd_cnt c < wr_cnt c then R_copy else R_wait, c)"
| "reader_step R_copy c =
     (case data c (rd_index c) of
        None \<Rightarrow> (R_crash (KeyError ''data''), c)
      | Some x \<Rightarrow> (R_index x, c))"
| "reader_step (R_index x) c =
     (let c1 = c\<lparr>rd_index := rd_index c + 1\<rparr>
      in (R_count x, if rd_index c1 \<ge> limit c1 then c1\<lparr>rd_index := 0\<rparr> else c1))"
| "reader_step (R_count x) c = (R_wait, c\<lparr>rd_cnt := rd_cnt c + 1\<rparr>)"
| "reader_step pc c = (pc, c)"

record 'a queue_sys =
  cell :: "'a cache_data"
  writer :: "'a writer_pc"
  reader :: "'a reader_pc"
  accepted :: "'a list"
  delivered :: "'a list"

text \<open>
  The reader leaves its waiting loop for any of the loop's reasons: it was not to wait, its
  time is over, a message is counted, or the pipe is readable; so \<open>leaves\<close> has no condition.
\<close>

inductive queue_step :: "'a queue_sys \<Rightarrow> 'a queue_sys \<Rightarrow> bool" where
  enters: "writer s = W_idle \<Longrightarrow> queue_step s (s\<lparr>writer := writer_enter x (cell s)\<rparr>)"
| writes: "writer_step (writer s) (cell s) = (pc, c) \<Longrightarrow>
     queue_step s (s\<lparr>writer := pc, cell := c,
       accepted := accepted s @ (case writer s of W_count x \<Rightarrow> [x] | _ \<Rightarrow> [])\<rparr>)"
| leaves: "reader s = R_wait \<Longrightarrow> queue_step s (s\<lparr>reader := R_drain\<rparr>)"
| reads: "reader_step (reader s) (cell s) = (pc, c) \<Longrightarrow>
     queue_step s (s\<lparr>reader := pc, cell := c,
       delivered := delivered s @ (case reader s of R_count x \<Rightarrow> [x] | _ \<Rightarrow> [])\<rparr>)"

definition queue_start :: "'a queue_sys \<Rightarrow> bool" where
  "queue_start s \<longleftrightarrow>
     (\<exists>lim dir rd wr. 0 < lim \<and> cell s = new_cache_data lim dir rd wr) \<and> writer s = W_idle \<and> reader s = R_wait \<and>
     accepted s = [] \<and> delivered s = []"

inductive queue_reach :: "'a queue_sys \<Rightarrow> bool" where
  start: "queue_start s \<Longrightarrow> queue_reach s"
| step: "queue_reach s \<Longrightarrow> queue_step s t \<Longrightarrow> queue_reach t"

section \<open>Alone, a thread's steps are its method\<close>

fun writer_run :: "nat \<Rightarrow> 'a writer_pc \<times> 'a cache_data \<Rightarrow> 'a writer_pc \<times> 'a cache_data" where
  "writer_run 0 w = w"
| "writer_run (Suc n) (pc, c) = writer_run n (writer_step pc c)"

fun reader_run :: "nat \<Rightarrow> 'a reader_pc \<times> 'a cache_data \<Rightarrow> 'a reader_pc \<times> 'a cache_data" where
  "reader_run 0 w = w"
| "reader_run (Suc n) (pc, c) = reader_run n (reader_step pc c)"

lemma writer_alone:
  "snd (cache_write x c) = snd (writer_run 4 (writer_enter x c, c)) \<and> fst (writer_run 4 (writer_enter x c, c)) = W_idle \<and>
   fst (cache_write x c) = (writer_enter x c \<noteq> W_idle)"
  by (simp add: cache_write_def writer_enter_def Let_def eval_nat_numeral raise_signal_def)

lemma reader_alone:
  "cache_take c = (r, c') \<Longrightarrow>
   reader_run 5 (R_drain, c) = (case r of Inl e \<Rightarrow> R_crash e | Inr _ \<Rightarrow> R_wait, c')"
  by (auto simp: cache_take_def Let_def eval_nat_numeral drain_signal_def split: option.splits if_splits)

section \<open>The invariant\<close>

definition writer_ok :: "'a writer_pc \<Rightarrow> 'a cache_data \<Rightarrow> bool" where
  "writer_ok pc c \<longleftrightarrow>
     wr_index c = (wr_cnt c + (case pc of W_count _ \<Rightarrow> 1 | _ \<Rightarrow> 0)) mod limit c \<and>
     (case pc of
        W_store _ \<Rightarrow> wr_cnt c - rd_cnt c < limit c
      | W_index x \<Rightarrow> wr_cnt c - rd_cnt c < limit c \<and> data c (wr_cnt c mod limit c) = Some x
      | W_count x \<Rightarrow> wr_cnt c - rd_cnt c < limit c \<and> data c (wr_cnt c mod limit c) = Some x
      | _ \<Rightarrow> True)"

definition reader_ok :: "'a reader_pc \<Rightarrow> 'a cache_data \<Rightarrow> bool" where
  "reader_ok pc c \<longleftrightarrow>
     rd_index c = (rd_cnt c + (case pc of R_count _ \<Rightarrow> 1 | _ \<Rightarrow> 0)) mod limit c \<and>
     (case pc of
        R_copy \<Rightarrow> rd_cnt c < wr_cnt c
      | R_index x \<Rightarrow> rd_cnt c < wr_cnt c \<and> data c (rd_cnt c mod limit c) = Some x
      | R_count x \<Rightarrow> rd_cnt c < wr_cnt c \<and> data c (rd_cnt c mod limit c) = Some x
      | R_crash _ \<Rightarrow> False
      | _ \<Rightarrow> True)"

text \<open>The counts, and a message in every counted slot.\<close>

definition cell_ok :: "'a cache_data \<Rightarrow> bool" where
  "cell_ok c \<longleftrightarrow> 0 < limit c \<and> rd_cnt c \<le> wr_cnt c \<and> wr_cnt c - rd_cnt c \<le> limit c \<and>
     (\<forall>i \<in> set [rd_cnt c..wr_cnt c - 1]. data c (i mod limit c) \<noteq> None)"

text \<open>The reader has drained a signal it has not yet matched with a message.\<close>

definition drained :: "'a reader_pc \<Rightarrow> int" where
  "drained pc = (case pc of R_check \<Rightarrow> 1 | R_copy \<Rightarrow> 1 | R_index _ \<Rightarrow> 1 | R_count _ \<Rightarrow> 1 | _ \<Rightarrow> 0)"

definition unsent :: "'a writer_pc \<Rightarrow> int" where
  "unsent pc = (case pc of W_signal \<Rightarrow> 1 | _ \<Rightarrow> 0)"

text \<open>A signal for every waiting message, up to the one to be sent and the one drained.\<close>

definition signals_ok :: "'a writer_pc \<Rightarrow> 'a reader_pc \<Rightarrow> 'a cache_data \<Rightarrow> bool" where
  "signals_ok wpc rpc c \<longleftrightarrow>
     (\<exists>k. pipe_bytes c = 4 * k \<and> wr_cnt c - rd_cnt c \<le> int k + unsent wpc + drained rpc)"

lemmas pc_defs = writer_ok_def reader_ok_def drained_def unsent_def

lemma writer_enter_ok: "writer_ok W_idle c \<Longrightarrow> writer_ok (writer_enter x c) c"
  by (simp add: writer_ok_def writer_enter_def)

text \<open>A store into the slot after the counted ones leaves the counted ones alone.\<close>

lemma free_slot:
  assumes "cell_ok c" "wr_cnt c - rd_cnt c < limit c" "rd_cnt c \<le> i" "i < wr_cnt c"
  shows "((data c)(wr_cnt c mod limit c \<mapsto> x)) (i mod limit c) = data c (i mod limit c)"
  using assms ring_slots_differ [of i "wr_cnt c" "limit c"] by auto

lemma contents_store:
  assumes "cell_ok c" "wr_cnt c - rd_cnt c < limit c"
  shows "contents (c\<lparr>data := (data c)(wr_cnt c mod limit c \<mapsto> x)\<rparr>) = contents c"
    "cell_ok (c\<lparr>data := (data c)(wr_cnt c mod limit c \<mapsto> x)\<rparr>)"
  using assms free_slot [OF assms, of _ x] by (simp_all add: contents_def cell_ok_def)

lemma contents_fields [simp]:
  "contents (c\<lparr>wr_index := i\<rparr>) = contents c" "contents (c\<lparr>rd_index := i\<rparr>) = contents c"
  "contents (c\<lparr>pipe_bytes := n\<rparr>) = contents c"
  "cell_ok (c\<lparr>wr_index := i\<rparr>) = cell_ok c" "cell_ok (c\<lparr>rd_index := i\<rparr>) = cell_ok c"
  "cell_ok (c\<lparr>pipe_bytes := n\<rparr>) = cell_ok c"
  by (simp_all add: contents_def cell_ok_def)

lemma contents_count_write:
  assumes "cell_ok c" "wr_cnt c - rd_cnt c < limit c" "data c (wr_cnt c mod limit c) = Some x"
  shows "contents (c\<lparr>wr_cnt := wr_cnt c + 1\<rparr>) = contents c @ [x]" "cell_ok (c\<lparr>wr_cnt := wr_cnt c + 1\<rparr>)"
  using assms upto_rec2 [of "rd_cnt c" "wr_cnt c"] by (auto simp: contents_def cell_ok_def)

lemma contents_count_read:
  assumes "cell_ok c" "rd_cnt c < wr_cnt c" "data c (rd_cnt c mod limit c) = Some x"
  shows "contents c = x # contents (c\<lparr>rd_cnt := rd_cnt c + 1\<rparr>)" "cell_ok (c\<lparr>rd_cnt := rd_cnt c + 1\<rparr>)"
  using assms upto_rec1 [of "rd_cnt c" "wr_cnt c - 1"] by (auto simp: contents_def cell_ok_def)

text \<open>A step of the writer.\<close>

lemma writer_step_keeps:
  assumes "cell_ok c" "writer_ok w c" "reader_ok r c" "signals_ok w r c" "writer_step w c = (w', c')"
  shows "cell_ok c' \<and> writer_ok w' c' \<and> reader_ok r c' \<and> signals_ok w' r c' \<and>
    contents c' = contents c @ (case w of W_count x \<Rightarrow> [x] | _ \<Rightarrow> [])"
proof (cases w)
  case W_idle
  then show ?thesis using assms by simp
next
  case (W_store x)
  then have room: "wr_cnt c - rd_cnt c < limit c" "wr_index c = wr_cnt c mod limit c"
    using assms(2) by (simp_all add: writer_ok_def)
  have "reader_ok r (c\<lparr>data := (data c)(wr_cnt c mod limit c \<mapsto> x)\<rparr>)"
    using assms(1,3) room(1) free_slot [OF assms(1) room(1), of "rd_cnt c" x]
    by (cases r) (simp_all add: reader_ok_def)
  then show ?thesis using W_store assms room contents_store [OF assms(1) room(1), of x]
    by (auto simp: writer_ok_def signals_ok_def unsent_def)
next
  case (W_index x)
  have "0 < limit c" using assms(1) by (simp add: cell_ok_def)
  then show ?thesis using W_index assms ring_next [of "limit c" "wr_cnt c"]
    by (auto simp: writer_ok_def reader_ok_def signals_ok_def unsent_def Let_def split: reader_pc.splits)
next
  case (W_count x)
  then show ?thesis using assms contents_count_write [OF assms(1), of x]
    by (auto simp: writer_ok_def reader_ok_def signals_ok_def unsent_def split: reader_pc.splits)
next
  case W_signal
  obtain k where "pipe_bytes c = 4 * k" "wr_cnt c - rd_cnt c \<le> int k + 1 + drained r"
    using assms(4) W_signal by (auto simp: signals_ok_def unsent_def)
  then have "signals_ok W_idle r (raise_signal c)"
    by (auto simp: signals_ok_def raise_signal_def unsent_def intro!: exI [of _ "Suc k"])
  then show ?thesis using W_signal assms
    by (cases r) (auto simp: raise_signal_def writer_ok_def reader_ok_def)
qed

text \<open>A step of the reader.\<close>

lemma reader_step_keeps:
  assumes "cell_ok c" "writer_ok w c" "reader_ok r c" "signals_ok w r c" "reader_step r c = (r', c')"
  shows "cell_ok c' \<and> writer_ok w c' \<and> reader_ok r' c' \<and> signals_ok w r' c' \<and>
    (case r of R_count x \<Rightarrow> [x] | _ \<Rightarrow> []) @ contents c' = contents c"
proof (cases r)
  case R_wait
  then show ?thesis using assms by simp
next
  case R_drain
  obtain k where k: "pipe_bytes c = 4 * k" "wr_cnt c - rd_cnt c \<le> int k + unsent w"
    using assms(4) R_drain by (auto simp: signals_ok_def drained_def)
  then have "signals_ok w R_check (drain_signal c)"
    by (auto simp: signals_ok_def drain_signal_def drained_def intro!: exI [of _ "k - 1"])
  then show ?thesis using R_drain assms
    by (cases w) (auto simp: drain_signal_def writer_ok_def reader_ok_def)
next
  case R_check
  obtain k where "pipe_bytes c = 4 * k" using assms(4) by (auto simp: signals_ok_def)
  then have "signals_ok w R_wait c" if "\<not> rd_cnt c < wr_cnt c"
    using that by (auto simp: signals_ok_def drained_def unsent_def split: writer_pc.splits)
  moreover have "signals_ok w R_copy c" using assms(4) R_check by (simp add: signals_ok_def drained_def)
  ultimately show ?thesis using R_check assms by (auto simp: reader_ok_def)
next
  case R_copy
  then have less: "rd_cnt c < wr_cnt c" "rd_index c = rd_cnt c mod limit c"
    using assms(3) by (simp_all add: reader_ok_def)
  then obtain x where "data c (rd_cnt c mod limit c) = Some x" using assms(1) by (force simp: cell_ok_def)
  then show ?thesis using R_copy assms less by (auto simp: reader_ok_def signals_ok_def drained_def)
next
  case (R_index x)
  have "0 < limit c" using assms(1) by (simp add: cell_ok_def)
  then show ?thesis using R_index assms ring_next [of "limit c" "rd_cnt c"]
    by (cases w) (auto simp: writer_ok_def reader_ok_def signals_ok_def drained_def Let_def)
next
  case (R_count x)
  then have less: "rd_cnt c < wr_cnt c" "data c (rd_cnt c mod limit c) = Some x"
    using assms(3) by (simp_all add: reader_ok_def)
  have "writer_ok w (c\<lparr>rd_cnt := rd_cnt c + 1\<rparr>)" using assms(2) by (cases w) (simp_all add: writer_ok_def)
  then show ?thesis using R_count assms less contents_count_read [OF assms(1) less]
    by (auto simp: reader_ok_def signals_ok_def drained_def)
next
  case (R_crash e)
  then show ?thesis using assms(3) by (simp add: reader_ok_def)
qed

definition queue_inv :: "'a queue_sys \<Rightarrow> bool" where
  "queue_inv s \<longleftrightarrow> cell_ok (cell s) \<and> writer_ok (writer s) (cell s) \<and> reader_ok (reader s) (cell s) \<and>
     signals_ok (writer s) (reader s) (cell s) \<and> accepted s = delivered s @ contents (cell s)"

lemma queue_inv_start: "queue_start s \<Longrightarrow> queue_inv s"
  by (auto simp: queue_start_def queue_inv_def cell_ok_def writer_ok_def reader_ok_def signals_ok_def
      drained_def unsent_def new_cache_data_def contents_def)

lemma queue_inv_step: "queue_step s t \<Longrightarrow> queue_inv s \<Longrightarrow> queue_inv t"
proof (induction rule: queue_step.induct)
  case (enters s x)
  then show ?case using writer_enter_ok [of "cell s" x]
    by (auto simp: queue_inv_def signals_ok_def unsent_def writer_enter_def)
next
  case (writes s pc c)
  have "cell_ok c \<and> writer_ok pc c \<and> reader_ok (reader s) c \<and> signals_ok pc (reader s) c \<and>
      contents c = contents (cell s) @ (case writer s of W_count x \<Rightarrow> [x] | _ \<Rightarrow> [])"
    by (rule writer_step_keeps [OF _ _ _ _ writes(1)]) (use writes(2) in \<open>simp_all add: queue_inv_def\<close>)
  then show ?case using writes(2) by (simp add: queue_inv_def)
next
  case (leaves s)
  then show ?case by (simp add: queue_inv_def reader_ok_def signals_ok_def drained_def)
next
  case (reads s pc c)
  have "cell_ok c \<and> writer_ok (writer s) c \<and> reader_ok pc c \<and> signals_ok (writer s) pc c \<and>
      (case reader s of R_count x \<Rightarrow> [x] | _ \<Rightarrow> []) @ contents c = contents (cell s)"
    by (rule reader_step_keeps [OF _ _ _ _ reads(1)]) (use reads(2) in \<open>simp_all add: queue_inv_def\<close>)
  then show ?case using reads(2) by (auto simp: queue_inv_def)
qed

lemma queue_reach_inv: "queue_reach s \<Longrightarrow> queue_inv s"
  by (induction rule: queue_reach.induct) (blast intro: queue_inv_start queue_inv_step)+

section \<open>Schedules\<close>

text \<open>A schedule says which thread moves next; a move that is not possible is skipped.\<close>

datatype 'a move = Enter 'a | Write_step | Leave | Read_step

fun do_move :: "'a move \<Rightarrow> 'a queue_sys \<Rightarrow> 'a queue_sys" where
  "do_move (Enter x) s = (case writer s of W_idle \<Rightarrow> s\<lparr>writer := writer_enter x (cell s)\<rparr> | _ \<Rightarrow> s)"
| "do_move Write_step s =
     (case writer_step (writer s) (cell s) of
        (pc, c) \<Rightarrow> s\<lparr>writer := pc, cell := c, accepted := accepted s @ (case writer s of W_count x \<Rightarrow> [x] | _ \<Rightarrow> [])\<rparr>)"
| "do_move Leave s = (case reader s of R_wait \<Rightarrow> s\<lparr>reader := R_drain\<rparr> | _ \<Rightarrow> s)"
| "do_move Read_step s =
     (case reader_step (reader s) (cell s) of
        (pc, c) \<Rightarrow> s\<lparr>reader := pc, cell := c, delivered := delivered s @ (case reader s of R_count x \<Rightarrow> [x] | _ \<Rightarrow> [])\<rparr>)"

lemma do_move_reach: "queue_reach s \<Longrightarrow> queue_reach (do_move mv s)"
proof (cases mv)
  case (Enter x)
  then show "queue_reach s \<Longrightarrow> ?thesis"
    by (cases "writer s") (auto intro: queue_reach.step [OF _ queue_step.enters])
next
  case Write_step
  obtain pc c where "writer_step (writer s) (cell s) = (pc, c)" by fastforce
  with Write_step show "queue_reach s \<Longrightarrow> ?thesis" by (simp add: queue_reach.step [OF _ queue_step.writes])
next
  case Leave
  then show "queue_reach s \<Longrightarrow> ?thesis"
    by (cases "reader s") (auto intro: queue_reach.step [OF _ queue_step.leaves])
next
  case Read_step
  obtain pc c where "reader_step (reader s) (cell s) = (pc, c)" by fastforce
  with Read_step show "queue_reach s \<Longrightarrow> ?thesis" by (simp add: queue_reach.step [OF _ queue_step.reads])
qed

lemma schedule_reach: "queue_reach s \<Longrightarrow> queue_reach (fold do_move mvs s)"
  by (induction mvs arbitrary: s) (simp_all add: do_move_reach)

definition new_queue :: "int \<Rightarrow> 'a queue_sys" where
  "new_queue lim =
     \<lparr>cell = new_cache_data lim True 3 4, writer = W_idle, reader = R_wait, accepted = [], delivered = []\<rparr>"

lemma new_queue_reach: "0 < lim \<Longrightarrow> queue_reach (fold do_move mvs (new_queue lim))"
  by (intro schedule_reach queue_reach.start) (auto simp: queue_start_def new_queue_def)

text \<open>The reader takes the first message between its count and its signal.\<close>

definition overtaking :: "'a \<Rightarrow> 'a move list" where
  "overtaking x = [Enter x, Write_step, Write_step, Write_step, Leave, Read_step, Read_step, Read_step, Read_step,
     Read_step, Write_step]"

lemma overtaking_end:
  "fold do_move (overtaking x) (new_queue 2) =
     \<lparr>cell = \<lparr>limit = 2, rd_index = 1, wr_index = 1, rd_cnt = 1, wr_cnt = 1, data = [0 \<mapsto> x], c2s = True,
              signal_rd = 3, signal_wr = 4, pipe_bytes = 4\<rparr>,
      writer = W_idle, reader = R_wait, accepted = [x], delivered = [x]\<rparr>"
  by (simp add: overtaking_def new_queue_def new_cache_data_def writer_enter_def drain_signal_def raise_signal_def Let_def)

section \<open>Properties\<close>

text \<open>C4. However the writer and the reader interleave, without a lock, the messages read are the
  first of the messages accepted, each once and in order, and the rest wait in the ring; the reader
  never finds a slot empty.\<close>

theorem interleaved_queue_keeps_messages:
  assumes "queue_reach s"
  shows "accepted s = delivered s @ contents (cell s) \<and> (\<forall>e. reader s \<noteq> R_crash e)"
  using queue_reach_inv [OF assms] by (auto simp: queue_inv_def reader_ok_def)

lemma interleaved_queue_keeps_messages_witness:
  "accepted (fold do_move (overtaking CHR ''a'') (new_queue 2)) =
     delivered (fold do_move (overtaking CHR ''a'') (new_queue 2)) @
       contents (cell (fold do_move (overtaking CHR ''a'') (new_queue 2)))"
  using interleaved_queue_keeps_messages [OF new_queue_reach [of 2 "overtaking CHR ''a''"]] by simp

text \<open>C16. The signals never lose a message: when a message waits and the reader is in its waiting
  loop, the pipe is readable, or the writer is about to signal.\<close>

theorem reader_is_woken:
  assumes "queue_reach s" "reader s = R_wait" "contents (cell s) \<noteq> []"
  shows "0 < pipe_bytes (cell s) \<or> writer s = W_signal"
proof -
  have "rd_cnt (cell s) < wr_cnt (cell s)" using assms(3) by (auto simp: contents_def)
  then show ?thesis using queue_reach_inv [OF assms(1)] assms(2)
    by (auto simp: queue_inv_def signals_ok_def drained_def unsent_def split: writer_pc.splits)
qed

lemma reader_is_woken_witness:
  "0 < pipe_bytes (cell (fold do_move [Enter CHR ''a'', Write_step, Write_step, Write_step, Write_step] (new_queue 2)))"
  using reader_is_woken [OF new_queue_reach [of 2 "[Enter CHR ''a'', Write_step, Write_step, Write_step, Write_step]"]]
  by (simp add: new_queue_def new_cache_data_def writer_enter_def raise_signal_def contents_def Let_def)

text \<open>C28. A signal can outlive its message: a reader that takes the message between its count and
  its signal leaves the signal in the pipe, and a later blocking read of the empty queue returns
  with nothing, where it is meant to block until there is data.\<close>

theorem blocking_read_returns_empty:
  "\<exists>s. queue_reach s \<and> writer s = W_idle \<and> reader s = R_wait \<and> contents (cell s) = [] \<and> accepted s = [x] \<and>
     (\<exists>c. cache_read False (- 1) ([] # env) (cell s) = Some (Inr None, c, env))"
proof -
  let ?s = "fold do_move (overtaking x) (new_queue 2)"
  have "\<exists>c. cache_read False (- 1) ([] # env) (cell ?s) = Some (Inr None, c, env)"
    by (simp add: overtaking_end cache_read_def read_wait.simps cache_take_def drain_signal_def Let_def)
  moreover have "contents (cell ?s) = []" by (simp add: overtaking_end contents_def)
  ultimately show ?thesis using new_queue_reach [of 2 "overtaking x"]
    by (intro exI [of _ ?s]) (simp add: overtaking_end)
qed

end
