(* ===== verification/ClientLib.thy ===== *)
theory ClientLib
  imports CacheData Config Gvars
begin

text \<open>
  The client library of test mode (\<^verbatim>\<open>tests/lib/test_client.py\<close>): cache services shared
  with the server, the calling thread's registration (\<^verbatim>\<open>th_local\<close>) and the calls the
  plugin process makes. A message is a dictionary with one key, its kind. A call that can
  wait takes, for each \<^verbatim>\<open>select\<close> it performs, what other threads do meanwhile; running
  out of these means that it is still blocked. Log output changes no state and is left out;
  the evaluation of a log call's arguments is kept where it can raise.
\<close>

section \<open>Services and the thread's registration\<close>

type_synonym message = "(string, json) dict"

record cache_service =
  svc_c2s :: "message cache_data"
  svc_s2c :: "message cache_data"

definition CACHE_LIMIT :: int where
  "CACHE_LIMIT = 10"

definition new_cache_service :: "int \<Rightarrow> int \<times> int \<Rightarrow> int \<times> int \<Rightarrow> cache_service" where
  "new_cache_service lim p q =
     \<lparr>svc_c2s = new_cache_data lim True (fst p) (snd p),
      svc_s2c = new_cache_data lim False (fst q) (snd q)\<rparr>"

definition get_signal_rd_fd :: "bool \<Rightarrow> cache_service \<Rightarrow> int" where
  "get_signal_rd_fd is_c2s p = (if is_c2s then signal_rd (svc_c2s p) else signal_rd (svc_s2c p))"

definition get_signal_wr_fd :: "bool \<Rightarrow> cache_service \<Rightarrow> int" where
  "get_signal_wr_fd is_c2s p = (if is_c2s then signal_wr (svc_c2s p) else signal_wr (svc_s2c p))"

record th_local =
  cache_svc :: "nat option"
  cl_name :: "string option"
  actions :: "string list option"
  req :: "message option"

record clib =
  services :: "cache_service list option"
  rd_fds :: "(int, nat) dict"
  wr_fds :: "(int, nat) dict"
  error_code :: int
  error_str :: string
  th :: th_local

definition new_th :: th_local where
  "new_th = \<lparr>cache_svc = None, cl_name = None, actions = None, req = None\<rparr>"

definition new_clib :: clib where
  "new_clib =
     \<lparr>services = None, rd_fds = [], wr_fds = [], error_code = 0, error_str = '''', th = new_th\<rparr>"

definition reset_error :: "clib \<Rightarrow> clib" where
  "reset_error s = s\<lparr>error_code := 0, error_str := ''''\<rparr>"

definition get_svc :: "nat \<Rightarrow> clib \<Rightarrow> cache_service" where
  "get_svc i s = (case services s of None \<Rightarrow> undefined | Some ps \<Rightarrow> ps ! i)"

definition put_svc :: "nat \<Rightarrow> cache_service \<Rightarrow> clib \<Rightarrow> clib" where
  "put_svc i p s = s\<lparr>services := map_option (\<lambda>ps. ps[i := p]) (services s)\<rparr>"

text \<open>
  \<^verbatim>\<open>write_to_server\<close> and \<^verbatim>\<open>write_to_client\<close> on service number \<open>i\<close>. Services are objects:
  the process and the server hold references to the same one.
\<close>

definition write_to_server :: "nat \<Rightarrow> message \<Rightarrow> clib \<Rightarrow> bool \<times> clib" where
  "write_to_server i m s =
     (case cache_write m (svc_c2s (get_svc i s)) of
        (b, c) \<Rightarrow> (b, put_svc i ((get_svc i s)\<lparr>svc_c2s := c\<rparr>) s))"

definition write_to_client :: "nat \<Rightarrow> message \<Rightarrow> clib \<Rightarrow> bool \<times> clib" where
  "write_to_client i m s =
     (case cache_write m (svc_s2c (get_svc i s)) of
        (b, c) \<Rightarrow> (b, put_svc i ((get_svc i s)\<lparr>svc_s2c := c\<rparr>) s))"

definition read_from_server ::
  "bool \<Rightarrow> int \<Rightarrow> nat \<Rightarrow> message list list \<Rightarrow> clib
   \<Rightarrow> (message option res \<times> clib \<times> message list list) option"
where
  "read_from_server shutdown timeout i env s =
     (case cache_read shutdown timeout env (svc_s2c (get_svc i s)) of
        None \<Rightarrow> None
      | Some (r, c, env') \<Rightarrow> Some (r, put_svc i ((get_svc i s)\<lparr>svc_s2c := c\<rparr>) s, env'))"

definition read_from_client ::
  "bool \<Rightarrow> int \<Rightarrow> nat \<Rightarrow> message list list \<Rightarrow> clib
   \<Rightarrow> (message option res \<times> clib \<times> message list list) option"
where
  "read_from_client shutdown timeout i env s =
     (case cache_read shutdown timeout env (svc_c2s (get_svc i s)) of
        None \<Rightarrow> None
      | Some (r, c, env') \<Rightarrow> Some (r, put_svc i ((get_svc i s)\<lparr>svc_c2s := c\<rparr>) s, env'))"

text \<open>\<open>pipes k\<close> is the pair of descriptors the \<open>k\<close>-th \<^verbatim>\<open>os.pipe()\<close> returns.\<close>

definition create_cache_services :: "(nat \<Rightarrow> int \<times> int) \<Rightarrow> nat \<Rightarrow> clib \<Rightarrow> clib" where
  "create_cache_services pipes cnt s =
     (let ps = map (\<lambda>i. new_cache_service CACHE_LIMIT (pipes (2 * i)) (pipes (2 * i + 1))) [0..<cnt]
      in s\<lparr>services := Some ps,
           rd_fds := fold (\<lambda>i d. AList.update (get_signal_rd_fd True (ps ! i)) i d) [0..<cnt] (rd_fds s),
           wr_fds := fold (\<lambda>i d. AList.update (get_signal_wr_fd False (ps ! i)) i d) [0..<cnt] (wr_fds s)\<rparr>)"

definition clib_init :: "(nat \<Rightarrow> int \<times> int) \<Rightarrow> config \<Rightarrow> clib \<Rightarrow> bool res \<times> config \<times> clib" where
  "clib_init pipes cfg s =
     (case get_proc_plugins_conf '''' cfg of
        (r, cfg') \<Rightarrow>
          (case bind_res r json_len of
             Inl e \<Rightarrow> (Inl e, cfg', s)
           | Inr cnt \<Rightarrow>
               if cnt \<le> 0 \<or> cnt > 100 then (Inr False, cfg', s)
               else (Inr True, cfg', create_cache_services pipes cnt s)))"

section \<open>Calls of the plugin process\<close>

definition is_initialized :: "clib \<Rightarrow> bool" where
  "is_initialized s \<longleftrightarrow> cache_svc (th s) \<noteq> None"

text \<open>Writing to the server from the registered thread; the result is not looked at.\<close>

definition send :: "message \<Rightarrow> clib \<Rightarrow> clib" where
  "send m s = (case cache_svc (th s) of None \<Rightarrow> s | Some i \<Rightarrow> snd (write_to_server i m s))"

definition msg_register_client :: "string \<Rightarrow> message" where
  "msg_register_client nm = [(REQ_REGISTER_CLIENT, JObj [(REQ_CLIENT_NAME, JStr nm)])]"

definition msg_deregister_client :: "string \<Rightarrow> message" where
  "msg_deregister_client nm = [(REQ_DEREGISTER_CLIENT, JObj [(REQ_CLIENT_NAME, JStr nm)])]"

text \<open>A Python string or \<^verbatim>\<open>None\<close> as a value.\<close>

definition jstr_opt :: "string option \<Rightarrow> json" where
  "jstr_opt x = (case x of None \<Rightarrow> JNull | Some n \<Rightarrow> JStr n)"

definition msg_register_action :: "string \<Rightarrow> string option \<Rightarrow> message" where
  "msg_register_action act cl =
     [(REQ_REGISTER_ACTION, JObj [(REQ_ACTION_NAME, JStr act), (REQ_CLIENT_NAME, jstr_opt cl)])]"

definition msg_heartbeat :: "string option \<Rightarrow> string \<Rightarrow> string \<Rightarrow> message" where
  "msg_heartbeat cl act inst =
     [(REQ_HEARTBEAT,
       JObj [(REQ_CLIENT_NAME, jstr_opt cl), (REQ_ACTION_NAME, JStr act), (REQ_INSTANCE_ID, JStr inst)])]"

definition clib_register_client :: "string \<Rightarrow> clib \<Rightarrow> int option res \<times> clib" where
  "clib_register_client nm s =
     (if is_initialized s then (Inr (Some (-1)), s)
      else
        let l = split_on (CHR ''_'') nm in
        if length l \<le> 1 then (Inr (Some (-1)), s)
        else
          (case py_int (last l) of
             Inl e \<Rightarrow> (Inl e, s)
           | Inr index \<Rightarrow>
               (case services s of
                  None \<Rightarrow> (Inl TypeError, s)
                | Some ps \<Rightarrow>
                    if index \<ge> int (length ps) then (Inl (NameError ''cnt''), s)
                    else
                      (case list_index [0..<length ps] index of
                         Inl e \<Rightarrow> (Inl e, s)
                       | Inr i \<Rightarrow>
                           (Inr (Some 0),
                            send (msg_register_client nm)
                              (s\<lparr>th := \<lparr>cache_svc = Some i, cl_name = Some nm, actions = Some [],
                                       req = None\<rparr>\<rparr>))))))"

definition clib_deregister_client :: "string \<Rightarrow> clib \<Rightarrow> int option res \<times> clib" where
  "clib_deregister_client nm s =
     (if \<not> is_initialized s then (Inr None, s)
      else (Inr None, (send (msg_deregister_client nm) s)\<lparr>th := new_th\<rparr>))"

definition clib_register_action :: "string \<Rightarrow> clib \<Rightarrow> int option res \<times> clib" where
  "clib_register_action act s =
     (if \<not> is_initialized s then (Inr (Some (-1)), s)
      else
        (case actions (th s) of
           None \<Rightarrow> (Inl TypeError, s)
         | Some acts \<Rightarrow>
             if act \<in> set acts then (Inr (Some (-2)), s)
             else
               (Inr (Some 0),
                send (msg_register_action act (cl_name (th s)))
                  (s\<lparr>th := (th s)\<lparr>actions := Some (acts @ [act])\<rparr>\<rparr>))))"

definition clib_touch_heartbeat :: "string \<Rightarrow> string \<Rightarrow> clib \<Rightarrow> int option res \<times> clib" where
  "clib_touch_heartbeat act inst s =
     (if \<not> is_initialized s then (Inr (Some (-1)), s)
      else
        (case actions (th s) of
           None \<Rightarrow> (Inl TypeError, s)
         | Some acts \<Rightarrow>
             if act \<notin> set acts then (Inr (Some (-1)), s)
             else (Inr (Some 0), send (msg_heartbeat (cl_name (th s)) act inst) s)))"

text \<open>The test \<^verbatim>\<open>d[REQ_ACTION_NAME] not in th_local.actions\<close>.\<close>

definition known_action :: "json \<Rightarrow> string list option \<Rightarrow> bool res" where
  "known_action nm acts =
     (case acts of
        None \<Rightarrow> Inl TypeError
      | Some as \<Rightarrow> Inr (case nm of JStr n \<Rightarrow> n \<in> set as | _ \<Rightarrow> False))"

text \<open>Is a message one this thread takes: a shutdown, or a request for one of its actions?\<close>

definition accepts :: "message \<Rightarrow> string list option \<Rightarrow> bool res" where
  "accepts m acts =
     (if length m \<noteq> 1 \<or> fst (hd m) \<noteq> REQ_ACTION_REQUEST then Inr False
      else
        bind_res (dict_index m REQ_ACTION_REQUEST) (\<lambda>d.
        bind_res (json_index d ''request_type'') (\<lambda>t.
          if t = JStr REQ_ACTION_TYPE_SHUTDOWN then Inr True
          else bind_res (json_index d REQ_ACTION_NAME) (\<lambda>nm. known_action nm acts))))"

text \<open>What \<^verbatim>\<open>_read_req\<close> does with the result of the read: keep a message the thread takes.\<close>

definition keep_req :: "message option res \<Rightarrow> clib \<Rightarrow> bool res \<times> clib" where
  "keep_req r s =
     (case r of
        Inl e \<Rightarrow> (Inl e, s)
      | Inr None \<Rightarrow> (Inr False, s)
      | Inr (Some m) \<Rightarrow>
          (case accepts m (actions (th s)) of
             Inl e \<Rightarrow> (Inl e, s)
           | Inr b \<Rightarrow> if b then (Inr True, s\<lparr>th := (th s)\<lparr>req := Some m\<rparr>\<rparr>) else (Inr False, s)))"

definition has_req :: "clib \<Rightarrow> bool" where
  "has_req s \<longleftrightarrow> (case req (th s) of Some m \<Rightarrow> m \<noteq> [] | None \<Rightarrow> False)"

definition read_req ::
  "bool \<Rightarrow> int \<Rightarrow> message list list \<Rightarrow> clib \<Rightarrow> (bool res \<times> clib \<times> message list list) option"
where
  "read_req shutdown timeout env s =
     (if has_req s then Some (Inr True, s, env)
      else
        (case cache_svc (th s) of
           None \<Rightarrow> Some (Inl (AttributeError ''read_from_server''), s, env)
         | Some i \<Rightarrow>
             (case read_from_server shutdown timeout i env s of
                None \<Rightarrow> None
              | Some (r, s1, env1) \<Rightarrow>
                  (case keep_req r s1 of (b, s2) \<Rightarrow> Some (b, s2, env1)))))"

definition clib_read_action_request ::
  "bool \<Rightarrow> int \<Rightarrow> message list list \<Rightarrow> clib
   \<Rightarrow> (string option res \<times> clib \<times> message list list) option"
where
  "clib_read_action_request shutdown timeout env s =
     (if \<not> is_initialized s then Some (Inr None, s, env)
      else
        (case read_req shutdown timeout env s of
           None \<Rightarrow> None
         | Some (Inl e, s1, env1) \<Rightarrow> Some (Inl e, s1, env1)
         | Some (Inr False, s1, env1) \<Rightarrow> Some (Inr (Some ''''), s1, env1)
         | Some (Inr True, s1, env1) \<Rightarrow>
             Some
               (case req (th s1) of
                  None \<Rightarrow> (Inl TypeError, s1, env1)
                | Some m \<Rightarrow>
                    (case dict_index m REQ_ACTION_REQUEST of
                       Inl e \<Rightarrow> (Inl e, s1, env1)
                     | Inr d \<Rightarrow> (Inr (Some (dumps d)), s1\<lparr>th := (th s1)\<lparr>req := None\<rparr>\<rparr>, env1)))))"

definition clib_write_action_response :: "string \<Rightarrow> clib \<Rightarrow> int option res \<times> clib" where
  "clib_write_action_response resp s =
     (if \<not> is_initialized s then (Inr None, s)
      else
        (case loads resp of
           Inl e \<Rightarrow> (Inl e, s)
         | Inr d \<Rightarrow> (Inr (Some 0), send [(REQ_ACTION_REQUEST, d)] s)))"

section \<open>Polling\<close>

text \<open>
  \<^verbatim>\<open>_poll\<close>: \<open>sel s e\<close> is one \<^verbatim>\<open>select\<close>, its ready descriptors and the state other
  threads leave; one environment element per \<^verbatim>\<open>select\<close>.
\<close>

fun poll_fds ::
  "bool \<Rightarrow> ('s \<Rightarrow> 'e \<Rightarrow> int list \<times> 's) \<Rightarrow> int \<Rightarrow> 'e list \<Rightarrow> 's \<Rightarrow> (int list \<times> 'e list \<times> 's) option"
where
  "poll_fds shutdown sel timeout [] s = (if shutdown then Some ([], [], s) else None)"
| "poll_fds shutdown sel timeout (e # es) s =
     (if shutdown then Some ([], e # es, s)
      else
        let poll_wait = (if timeout \<ge> 0 then (if timeout < 2 then timeout else 2) else 2);
            timeout' = (if timeout \<ge> 0 then timeout - poll_wait else timeout)
        in (case sel s e of (r, s') \<Rightarrow>
              if r \<noteq> [] then Some (r, es, s')
              else if timeout' = 0 then Some ([], es, s')
              else poll_fds shutdown sel timeout' es s'))"

text \<open>During one \<^verbatim>\<open>select\<close> the server may write to this client and plugins may signal.\<close>

record poll_event =
  arrivals :: "message list"
  ready :: "int list"

definition deliver :: "nat \<Rightarrow> message list \<Rightarrow> clib \<Rightarrow> clib" where
  "deliver i ms s = put_svc i ((get_svc i s)\<lparr>svc_s2c := write_all ms (svc_s2c (get_svc i s))\<rparr>) s"

definition client_select :: "nat \<Rightarrow> int list \<Rightarrow> clib \<Rightarrow> poll_event \<Rightarrow> int list \<times> clib" where
  "client_select i rdfds s e =
     (let s' = deliver i (arrivals e) s;
          c = svc_s2c (get_svc i s')
      in (filter (\<lambda>fd. if fd = signal_rd c then pipe_bytes c > 0 else fd \<in> set (ready e)) rdfds, s'))"

lemma poll_consumes:
  "poll_fds False sel timeout es s = Some (r, es', s') \<Longrightarrow> length es' < length es"
proof (induction es arbitrary: timeout s)
  case (Cons e es)
  then show ?case
    by (auto simp: Let_def split: prod.splits if_splits) (use Cons.IH less_Suc_eq in blast)+
qed simp

function poll_data_loop ::
  "bool \<Rightarrow> nat \<Rightarrow> int \<Rightarrow> int list \<Rightarrow> int \<Rightarrow> poll_event list \<Rightarrow> clib
   \<Rightarrow> (int option res \<times> poll_event list \<times> clib) option"
where
  "poll_data_loop shutdown i recv_signal_fd lst timeout env s =
     (if shutdown then Some (Inr None, env, s)
      else
        (case poll_fds False (client_select i lst) timeout env s of
           None \<Rightarrow> None
         | Some (r, env', s') \<Rightarrow>
             if r \<noteq> [] then
               if recv_signal_fd \<in> set r then
                 (case read_req shutdown 0 [] s' of
                    None \<Rightarrow> None
                  | Some (Inl e, s1, _) \<Rightarrow> Some (Inl e, env', s1)
                  | Some (Inr _, s1, _) \<Rightarrow>
                      if has_req s1 then Some (Inr (Some (- 1)), env', s1)
                      else poll_data_loop shutdown i recv_signal_fd lst timeout env' s1)
               else Some (Inr (Some (hd r)), env', s')
             else if timeout > 0 then Some (Inr (Some (- 2)), env', s')
             else poll_data_loop shutdown i recv_signal_fd lst timeout env' s'))"
  by pat_completeness auto
termination
  by (relation "measure (\<lambda>(sd, i, fd, lst, t, env, s). length env)") (auto dest: poll_consumes)

declare poll_data_loop.simps [simp del]

definition clib_poll_for_data ::
  "bool \<Rightarrow> int list \<Rightarrow> int \<Rightarrow> int \<Rightarrow> poll_event list \<Rightarrow> clib
   \<Rightarrow> (int option res \<times> poll_event list \<times> clib) option"
where
  "clib_poll_for_data shutdown fds cnt timeout env s =
     (case cache_svc (th s) of
        None \<Rightarrow> Some (Inr None, env, s)
      | Some i \<Rightarrow>
          let recv_signal_fd = get_signal_rd_fd False (get_svc i s);
              lst = [recv_signal_fd] @ fds
          in poll_data_loop shutdown i recv_signal_fd lst timeout env s)"

section \<open>The server's side\<close>

text \<open>One \<^verbatim>\<open>select\<close> of the server over its read ends; clients may write meanwhile.\<close>

definition server_select :: "clib \<Rightarrow> (nat \<times> message) list \<Rightarrow> int list \<times> clib" where
  "server_select s e =
     (let s' = fold (\<lambda>(i, m) s. snd (write_to_server i m s)) e s
      in (filter (\<lambda>fd. case map_of (rd_fds s') fd of
                         Some i \<Rightarrow> pipe_bytes (svc_c2s (get_svc i s')) > 0 | None \<Rightarrow> False)
            (keys (rd_fds s')), s'))"

definition server_kinds :: "string list" where
  "server_kinds = [REQ_REGISTER_CLIENT, REQ_DEREGISTER_CLIENT, REQ_REGISTER_ACTION, REQ_HEARTBEAT,
     REQ_ACTION_REQUEST]"

definition server_read_request ::
  "bool \<Rightarrow> int \<Rightarrow> (nat \<times> message) list list \<Rightarrow> clib
   \<Rightarrow> (message option res \<times> (nat \<times> message) list list \<times> clib) option"
where
  "server_read_request shutdown timeout env s =
     (case poll_fds shutdown server_select timeout env s of
        None \<Rightarrow> None
      | Some (r, env', s1) \<Rightarrow>
          if r = [] then Some (Inr None, env', s1)
          else
            (case map_of (rd_fds s1) (hd r) of
               None \<Rightarrow> Some (Inl (KeyError ''rd_fds''), env', s1)
             | Some i \<Rightarrow>
                 (case read_from_client shutdown 0 i [] s1 of
                    None \<Rightarrow> None
                  | Some (Inl e, s2, _) \<Rightarrow> Some (Inl e, env', s2)
                  | Some (Inr None, s2, _) \<Rightarrow> Some (Inr None, env', s2)
                  | Some (Inr (Some d), s2, _) \<Rightarrow>
                      if length d \<noteq> 1 then Some (Inr None, env', s2)
                      else if fst (hd d) \<notin> set server_kinds then Some (Inr None, env', s2)
                      else Some (Inr (Some d), env', s2))))"

definition server_write_request :: "message \<Rightarrow> clib \<Rightarrow> bool \<times> clib" where
  "server_write_request m s =
     (if length m \<noteq> 1 \<or> fst (hd m) \<noteq> REQ_ACTION_REQUEST then (False, s)
      else (True, fold (\<lambda>(_, i) s. snd (write_to_client i m s)) (wr_fds s) s))"

definition parse_reg_client :: "json \<Rightarrow> json res" where
  "parse_reg_client d = json_index d REQ_CLIENT_NAME"

definition parse_reg_action :: "json \<Rightarrow> (json \<times> json) res" where
  "parse_reg_action d =
     bind_res (json_index d REQ_CLIENT_NAME) (\<lambda>a.
     bind_res (json_index d REQ_ACTION_NAME) (\<lambda>b. Inr (a, b)))"

definition parse_heartbeat :: "json \<Rightarrow> (json \<times> json \<times> json) res" where
  "parse_heartbeat d =
     bind_res (json_index d REQ_CLIENT_NAME) (\<lambda>a.
     bind_res (json_index d REQ_ACTION_NAME) (\<lambda>b.
     bind_res (json_index d REQ_INSTANCE_ID) (\<lambda>c. Inr (a, b, c))))"

section \<open>Invariant\<close>

definition svc_ok :: "cache_service \<Rightarrow> bool" where
  "svc_ok p \<longleftrightarrow> cache_ok (svc_c2s p) \<and> cache_ok (svc_s2c p)"

definition num_svc :: "clib \<Rightarrow> nat" where
  "num_svc s = (case services s of None \<Rightarrow> 0 | Some ps \<Rightarrow> length ps)"

definition services_ok :: "clib \<Rightarrow> bool" where
  "services_ok s \<longleftrightarrow>
     (case services s of None \<Rightarrow> True | Some ps \<Rightarrow> list_all svc_ok ps) \<and>
     list_all (\<lambda>(_, i). i < num_svc s) (rd_fds s) \<and> list_all (\<lambda>(_, i). i < num_svc s) (wr_fds s)"

definition th_ok :: "nat \<Rightarrow> th_local \<Rightarrow> bool" where
  "th_ok n t \<longleftrightarrow>
     (case cache_svc t of
        None \<Rightarrow> True
      | Some i \<Rightarrow>
          i < n \<and> cl_name t \<noteq> None \<and> (case actions t of None \<Rightarrow> False | Some as \<Rightarrow> distinct as)) \<and>
     (case req t of None \<Rightarrow> True | Some m \<Rightarrow> accepts m (actions t) = Inr True)"

definition clib_ok :: "clib \<Rightarrow> bool" where
  "clib_ok s \<longleftrightarrow> services_ok s \<and> th_ok (num_svc s) (th s)"

lemma clib_ok_new: "clib_ok new_clib"
  by (simp add: clib_ok_def services_ok_def th_ok_def new_clib_def new_th_def)

lemma num_svc_put [simp]: "num_svc (put_svc i p s) = num_svc s"
  by (simp add: num_svc_def put_svc_def split: option.splits)

lemma th_put [simp]: "th (put_svc i p s) = th s" "rd_fds (put_svc i p s) = rd_fds s"
  "wr_fds (put_svc i p s) = wr_fds s"
  by (simp_all add: put_svc_def)

lemma num_svc_th [simp]: "num_svc (s\<lparr>th := t\<rparr>) = num_svc s" "get_svc i (s\<lparr>th := t\<rparr>) = get_svc i s"
  "services_ok (s\<lparr>th := t\<rparr>) = services_ok s"
  by (simp_all add: num_svc_def get_svc_def services_ok_def)

lemma get_put_svc: "j < num_svc s \<Longrightarrow> get_svc j (put_svc i p s) = (if i = j then p else get_svc j s)"
  by (auto simp: get_svc_def put_svc_def num_svc_def split: option.splits)

lemma get_svc_ok: "services_ok s \<Longrightarrow> i < num_svc s \<Longrightarrow> svc_ok (get_svc i s)"
  by (auto simp: services_ok_def get_svc_def num_svc_def list_all_iff split: option.splits)

lemma put_svc_ok: "services_ok s \<Longrightarrow> svc_ok p \<Longrightarrow> services_ok (put_svc i p s)"
  by (auto simp: services_ok_def put_svc_def num_svc_def list_all_iff
      split: option.splits dest!: set_update_subset_insert [THEN subsetD])

lemma write_to_server_ok:
  assumes "services_ok s" "i < num_svc s" "write_to_server i m s = (b, s')"
  shows "services_ok s' \<and> th s' = th s \<and> num_svc s' = num_svc s \<and>
    b = (length (contents (svc_c2s (get_svc i s))) < capacity (svc_c2s (get_svc i s))) \<and>
    contents (svc_c2s (get_svc i s')) =
      (if b then contents (svc_c2s (get_svc i s)) @ [m] else contents (svc_c2s (get_svc i s)))"
proof -
  obtain b' c where c: "cache_write m (svc_c2s (get_svc i s)) = (b', c)" by fastforce
  have "svc_ok (get_svc i s)" using assms(1,2) by (rule get_svc_ok)
  then show ?thesis
    using assms c ring.put_result [OF _ c] put_svc_ok [OF assms(1)]
    by (auto simp: write_to_server_def svc_ok_def get_put_svc)
qed

lemma write_to_client_ok:
  assumes "services_ok s" "i < num_svc s"
  shows "services_ok (snd (write_to_client i m s)) \<and> th (snd (write_to_client i m s)) = th s \<and>
    num_svc (snd (write_to_client i m s)) = num_svc s"
proof -
  obtain b' c where c: "cache_write m (svc_s2c (get_svc i s)) = (b', c)" by fastforce
  have "svc_ok (get_svc i s)" using assms by (rule get_svc_ok)
  then show ?thesis
    using assms c ring.put_result [OF _ c] put_svc_ok [OF assms(1)]
    by (auto simp: write_to_client_def svc_ok_def)
qed

lemma read_from_server_ok:
  assumes "services_ok s" "i < num_svc s" "read_from_server sd timeout i env s = Some (r, s', env')"
  shows "services_ok s' \<and> th s' = th s \<and> num_svc s' = num_svc s \<and> is_ok r"
proof -
  obtain c1 where c1: "read_wait sd timeout env (svc_s2c (get_svc i s)) = Some (c1, env')"
    using assms(3) by (auto simp: read_from_server_def cache_read_def split: option.splits prod.splits)
  obtain r' c2 where c2: "cache_take c1 = (r', c2)" by fastforce
  have ok: "svc_ok (get_svc i s)" using assms(1,2) by (rule get_svc_ok)
  then have "cache_ok c1" using wait_result [OF _ c1] by (simp add: svc_ok_def)
  with c2 have "cache_ok c2 \<and> is_ok r'" using ring.get_result [OF _ c2] by (auto split: list.splits)
  then show ?thesis
    using assms c1 c2 put_svc_ok [OF assms(1)] ok
    by (auto simp: read_from_server_def cache_read_def svc_ok_def)
qed

lemma th_ok_svc: "th_ok n t \<Longrightarrow> cache_svc t = Some i \<Longrightarrow> i < n"
  by (simp add: th_ok_def)

lemma send_ok:
  assumes "services_ok s" "th_ok (num_svc s) (th s)"
  shows "services_ok (send m s) \<and> th (send m s) = th s \<and> num_svc (send m s) = num_svc s"
proof (cases "cache_svc (th s)")
  case None
  with assms show ?thesis by (simp add: send_def)
next
  case (Some i)
  obtain b s' where "write_to_server i m s = (b, s')" by fastforce
  with Some write_to_server_ok [OF assms(1) th_ok_svc [OF assms(2) Some] this]
  show ?thesis by (simp add: send_def)
qed

lemma list_index_upt: "list_index [0..<n] i = Inr k \<Longrightarrow> k < n"
  by (auto simp: list_index_def Let_def split: if_splits)

lemma register_client_ok: "clib_ok s \<Longrightarrow> clib_ok (snd (clib_register_client nm s))"
proof -
  assume ok: "clib_ok s"
  have "clib_ok (send m (s\<lparr>th := \<lparr>cache_svc = Some i, cl_name = Some nm, actions = Some [], req = None\<rparr>\<rparr>))"
    if "i < num_svc s" for i m
    using ok that send_ok [of "s\<lparr>th := \<lparr>cache_svc = Some i, cl_name = Some nm, actions = Some [], req = None\<rparr>\<rparr>" m]
    by (auto simp: clib_ok_def th_ok_def)
  then show ?thesis
    using ok by (auto simp: clib_register_client_def Let_def num_svc_def split: sum.splits option.splits
        dest: list_index_upt)
qed

lemma deregister_client_ok: "clib_ok s \<Longrightarrow> clib_ok (snd (clib_deregister_client nm s))"
  using send_ok [of s "msg_deregister_client nm"]
  by (cases "is_initialized s") (simp_all add: clib_deregister_client_def clib_ok_def th_ok_def new_th_def)

lemma known_action_mono:
  "known_action nm (Some as) = Inr True \<Longrightarrow> set as \<subseteq> set bs \<Longrightarrow> known_action nm (Some bs) = Inr True"
  by (auto simp: known_action_def split: json.splits)

lemma accepts_mono:
  "accepts m (Some as) = Inr True \<Longrightarrow> set as \<subseteq> set bs \<Longrightarrow> accepts m (Some bs) = Inr True"
  by (auto simp: accepts_def bind_res_Inr_iff dest: known_action_mono split: if_splits)

lemma register_action_ok: "clib_ok s \<Longrightarrow> clib_ok (snd (clib_register_action act s))"
proof -
  assume ok: "clib_ok s"
  have *: "th_ok (num_svc s) ((th s)\<lparr>actions := Some (as @ [act])\<rparr>)"
    if "actions (th s) = Some as" "act \<notin> set as" for as
    using ok that accepts_mono [of _ as "as @ [act]"]
    by (auto simp: clib_ok_def th_ok_def split: option.splits)
  show ?thesis
    using ok * send_ok [of "s\<lparr>th := (th s)\<lparr>actions := Some (as @ [act])\<rparr>\<rparr>" for as]
    by (auto simp: clib_register_action_def clib_ok_def split: option.splits)
qed

lemma touch_heartbeat_ok: "clib_ok s \<Longrightarrow> clib_ok (snd (clib_touch_heartbeat act inst s))"
  using send_ok [of s] by (auto simp: clib_touch_heartbeat_def clib_ok_def split: option.splits)

lemma write_action_response_ok: "clib_ok s \<Longrightarrow> clib_ok (snd (clib_write_action_response resp s))"
  using send_ok [of s] by (auto simp: clib_write_action_response_def clib_ok_def split: sum.splits)

lemma accepts_not_Nil: "accepts m acts = Inr True \<Longrightarrow> m \<noteq> []"
  by (auto simp: accepts_def)

lemma keep_req_ok:
  assumes "clib_ok s" "\<not> has_req s" "keep_req r s = (b, s')"
  shows "clib_ok s' \<and> num_svc s' = num_svc s \<and> cache_svc (th s') = cache_svc (th s) \<and>
    actions (th s') = actions (th s) \<and> (b = Inr True \<longleftrightarrow> has_req s')"
  using assms accepts_not_Nil
  by (auto simp: keep_req_def has_req_def clib_ok_def th_ok_def split: sum.splits option.splits if_splits)

lemma read_req_ok:
  assumes "clib_ok s" "read_req sd timeout env s = Some (r, s', env')"
  shows "clib_ok s' \<and> num_svc s' = num_svc s \<and> cache_svc (th s') = cache_svc (th s) \<and>
    actions (th s') = actions (th s) \<and> (r = Inr True \<longleftrightarrow> has_req s')"
proof (cases "has_req s \<or> cache_svc (th s) = None")
  case True
  then show ?thesis using assms by (auto simp: read_req_def split: option.splits if_splits)
next
  case False
  then obtain i r1 s1 where r1: "cache_svc (th s) = Some i"
      "read_from_server sd timeout i env s = Some (r1, s1, env')" "keep_req r1 s1 = (r, s')"
    using assms(2) by (auto simp: read_req_def split: option.splits prod.splits)
  have s1: "services_ok s1 \<and> th s1 = th s \<and> num_svc s1 = num_svc s"
    using read_from_server_ok [OF _ _ r1(2)] assms(1) r1(1) by (auto simp: clib_ok_def dest: th_ok_svc)
  then have "clib_ok s1" "\<not> has_req s1" using assms(1) False by (simp_all add: clib_ok_def has_req_def)
  then show ?thesis using keep_req_ok [OF _ _ r1(3)] s1 by simp
qed

lemma clear_req_ok: "clib_ok s \<Longrightarrow> clib_ok (s\<lparr>th := (th s)\<lparr>req := None\<rparr>\<rparr>)"
  by (cases "cache_svc (th s)") (simp_all add: clib_ok_def th_ok_def)

text \<open>The outcomes of \<^verbatim>\<open>clib_read_action_request\<close>.\<close>

lemma read_action_request_cases:
  assumes "clib_read_action_request sd timeout env s = Some (r, s', env')"
  obtains (unregistered) "\<not> is_initialized s" "r = Inr None" "s' = s"
    | (failed) e where "r = Inl e" "read_req sd timeout env s = Some (Inl e, s', env')"
    | (empty) "r = Inr (Some '''')" "read_req sd timeout env s = Some (Inr False, s', env')"
    | (broken) e s1 where "r = Inl e" "read_req sd timeout env s = Some (Inr True, s', env')"
    | (request) m d s1 where "read_req sd timeout env s = Some (Inr True, s1, env')" "req (th s1) = Some m"
        "dict_index m REQ_ACTION_REQUEST = Inr d" "r = Inr (Some (dumps d))"
        "s' = s1\<lparr>th := (th s1)\<lparr>req := None\<rparr>\<rparr>"
proof (cases "is_initialized s")
  case False
  with assms have "r = Inr None" "s' = s" by (auto simp: clib_read_action_request_def)
  with False show thesis by (rule unregistered)
next
  case init: True
  then obtain b s1 env1 where q: "read_req sd timeout env s = Some (b, s1, env1)"
    using assms by (auto simp: clib_read_action_request_def split: option.splits)
  note def = assms [unfolded clib_read_action_request_def, simplified init q, simplified]
  show thesis
  proof (cases b)
    case (Inl e)
    with def have "r = Inl e" "s1 = s'" "env1 = env'" by simp_all
    with q Inl show thesis by (intro failed) simp_all
  next
    case (Inr v)
    show thesis
    proof (cases v)
      case False
      with Inr def have "r = Inr (Some '''')" "s1 = s'" "env1 = env'" by simp_all
      with q Inr False show thesis by (intro empty) simp_all
    next
      case v: True
      show thesis
      proof (cases "case req (th s1) of None \<Rightarrow> Inl TypeError | Some m \<Rightarrow> dict_index m REQ_ACTION_REQUEST")
        case (Inl e)
        then have "r = Inl (if req (th s1) = None then TypeError else e)" "s1 = s'" "env1 = env'"
          using def \<open>b = Inr v\<close> v by (auto split: option.splits)
        with q \<open>b = Inr v\<close> v show thesis by (intro broken) simp_all
      next
        case d: (Inr d)
        then obtain m where m: "req (th s1) = Some m" "dict_index m REQ_ACTION_REQUEST = Inr d"
          by (auto split: option.splits)
        with def \<open>b = Inr v\<close> v have "r = Inr (Some (dumps d))" "s' = s1\<lparr>th := (th s1)\<lparr>req := None\<rparr>\<rparr>"
          "env1 = env'" by simp_all
        with q m \<open>b = Inr v\<close> v show thesis by (intro request) simp_all
      qed
    qed
  qed
qed

lemma read_action_request_ok:
  assumes "clib_ok s" "clib_read_action_request sd timeout env s = Some (r, s', env')"
  shows "clib_ok s'"
  using assms(2)
  by (cases rule: read_action_request_cases)
    (use assms(1) read_req_ok [OF assms(1)] clear_req_ok in blast)+

lemma deliver_ok:
  assumes "clib_ok s" "i < num_svc s"
  shows "clib_ok (deliver i ms s) \<and> th (deliver i ms s) = th s \<and> num_svc (deliver i ms s) = num_svc s"
  using assms get_svc_ok [of s i] write_all_ok [of "svc_s2c (get_svc i s)" ms] put_svc_ok [of s]
  by (auto simp: deliver_def clib_ok_def svc_ok_def)

section \<open>What a poll reports\<close>

lemma client_select_ok:
  assumes "clib_ok s" "cache_svc (th s) = Some i" "client_select i lst s e = (r, s')"
  shows "clib_ok s' \<and> th s' = th s \<and> num_svc s' = num_svc s \<and> set r \<subseteq> set lst"
  using assms deliver_ok [of s i "arrivals e"] th_ok_svc [of "num_svc s" "th s" i]
  by (auto simp: client_select_def Let_def clib_ok_def)

lemma client_select_req: "client_select i lst s e = (r, s') \<Longrightarrow> req (th s') = req (th s)"
  by (auto simp: client_select_def Let_def deliver_def)

lemma poll_fds_ok:
  assumes "poll_fds sd (client_select i lst) timeout env s = Some (r, env', s')"
    "clib_ok s" "cache_svc (th s) = Some i"
  shows "clib_ok s' \<and> th s' = th s \<and> num_svc s' = num_svc s \<and> set r \<subseteq> set lst"
  using assms
proof (induction env arbitrary: timeout s)
  case Nil
  then show ?case by (auto split: if_splits)
next
  case (Cons e es)
  obtain r1 s1 where r1: "client_select i lst s e = (r1, s1)" by fastforce
  note ok = client_select_ok [OF Cons.prems(2,3) r1]
  show ?case
  proof (cases "sd \<or> r1 \<noteq> [] \<or> s1 = s' \<and> r = []")
    case True
    then show ?thesis using Cons.prems ok r1 by (auto simp: Let_def split: if_splits)
  next
    case False
    then obtain t where "poll_fds sd (client_select i lst) t es s1 = Some (r, env', s')"
      using Cons.prems(1) r1 by (auto simp: Let_def split: if_splits)
    then show ?thesis using Cons.IH [of t s1] ok Cons.prems(3) by auto
  qed
qed

lemma poll_data_loop_ok:
  "poll_data_loop sd i fd lst timeout env s = Some (r, env', s') \<Longrightarrow> clib_ok s \<Longrightarrow>
   cache_svc (th s) = Some i \<Longrightarrow>
   clib_ok s' \<and> cache_svc (th s') = Some i \<and> actions (th s') = actions (th s) \<and>
   (\<forall>k. r = Inr (Some k) \<longrightarrow>
      k = -1 \<and> has_req s' \<or> k = -2 \<and> timeout > 0 \<or> k \<in> set lst \<and> k \<noteq> fd)"
proof (induction "length env" arbitrary: env s rule: less_induct)
  case less
  show ?case
  proof (cases sd)
    case True
    then show ?thesis using less.prems by (subst (asm) poll_data_loop.simps) auto
  next
    case False
    then obtain r1 env1 s1 where p: "poll_fds False (client_select i lst) timeout env s = Some (r1, env1, s1)"
      using less.prems(1) by (subst (asm) poll_data_loop.simps) (auto split: option.splits)
    note shorter = poll_consumes [OF p]
    note ok = poll_fds_ok [OF p less.prems(2,3)]
    have step: "Some (r, env', s') =
        (if r1 \<noteq> [] then
           if fd \<in> set r1 then
             (case read_req sd 0 [] s1 of
                None \<Rightarrow> None
              | Some (Inl e, s2, _) \<Rightarrow> Some (Inl e, env1, s2)
              | Some (Inr _, s2, _) \<Rightarrow>
                  if has_req s2 then Some (Inr (Some (- 1)), env1, s2)
                  else poll_data_loop sd i fd lst timeout env1 s2)
           else Some (Inr (Some (hd r1)), env1, s1)
         else if timeout > 0 then Some (Inr (Some (- 2)), env1, s1)
         else poll_data_loop sd i fd lst timeout env1 s1)"
      using less.prems(1) False p by (subst (asm) poll_data_loop.simps) (simp cong: if_cong)
    show ?thesis
    proof (cases "fd \<in> set r1")
      case True
      then obtain b s2 x where q: "read_req sd 0 [] s1 = Some (b, s2, x)"
        using step by (auto split: option.splits if_splits)
      note ok2 = read_req_ok [OF _ q]
      show ?thesis
      proof (cases "is_ok b \<and> \<not> has_req s2")
        case again: True
        then have "poll_data_loop sd i fd lst timeout env1 s2 = Some (r, env', s')"
          using step q True by (auto split: sum.splits if_splits)
        then show ?thesis using less.hyps [OF shorter] ok ok2 less.prems(3) by auto
      next
        case False
        then show ?thesis using step q True ok ok2 less.prems(3) by (auto split: sum.splits if_splits)
      qed
    next
      case notin: False
      show ?thesis
      proof (cases "r1 = [] \<and> \<not> timeout > 0")
        case again: True
        then show ?thesis using less.hyps [OF shorter, of s1] step ok less.prems(3) by auto
      next
        case False
        moreover have "r1 \<noteq> [] \<Longrightarrow> hd r1 \<in> set lst \<and> hd r1 \<noteq> fd"
          using ok notin hd_in_set [of r1] by blast
        ultimately show ?thesis using step notin ok less.prems(3) by (auto split: if_splits)
      qed
    qed
  qed
qed

text \<open>A quiet time: no message arrives, no plugin signals, nothing is waiting.\<close>

definition quiet :: "poll_event list \<Rightarrow> bool" where
  "quiet env \<longleftrightarrow> list_all (\<lambda>e. arrivals e = [] \<and> ready e = []) env"

definition idle :: "nat \<Rightarrow> clib \<Rightarrow> bool" where
  "idle i s \<longleftrightarrow> contents (svc_s2c (get_svc i s)) = []"

lemma put_get_svc: "put_svc i (get_svc i s) s = s"
  by (cases "services s") (auto simp: put_svc_def get_svc_def)

lemma deliver_Nil: "deliver i [] s = s"
  by (simp add: deliver_def put_get_svc)

lemma select_quiet:
  assumes "services_ok s" "i < num_svc s" "idle i s" "arrivals e = []" "ready e = []"
  shows "client_select i lst s e = ([], s)"
proof -
  have "svc_ok (get_svc i s)" using assms(1,2) by (rule get_svc_ok)
  then have "pipe_bytes (svc_s2c (get_svc i s)) = 0"
    using pipe_signals_data [of "svc_s2c (get_svc i s)"] assms(3) by (simp add: svc_ok_def idle_def)
  then show ?thesis using assms(4,5) by (simp add: client_select_def deliver_Nil Let_def filter_empty_conv)
qed

lemma poll_fds_quiet:
  assumes "\<And>e. e \<in> set env \<Longrightarrow> sel s e = ([], s)" "0 < timeout" "nat ((timeout + 1) div 2) \<le> length env"
  shows "poll_fds False sel timeout env s = Some ([], drop (nat ((timeout + 1) div 2)) env, s)"
  using assms
proof (induction env arbitrary: timeout)
  case Nil
  then show ?case by simp
next
  case (Cons e es)
  show ?case
  proof (cases "timeout \<le> 2")
    case True
    then have "timeout = 1 \<or> timeout = 2" using Cons.prems(2) by auto
    then show ?thesis using Cons.prems(1) by auto
  next
    case False
    have "nat ((timeout - 2 + 1) div 2) \<le> length es"
      "nat ((timeout + 1) div 2) = Suc (nat ((timeout - 2 + 1) div 2))"
      using False Cons.prems(3) by (simp_all add: nat_eq_iff2) 
    then show ?thesis using Cons.IH [of "timeout - 2"] Cons.prems(1) False by simp
  qed
qed

lemma poll_fds_quiet_zero:
  "sel s e = ([], s) \<Longrightarrow> poll_fds False sel 0 (e # es) s = Some ([], es, s)"
  by simp

lemma poll_loop_quiet_timeout:
  assumes "clib_ok s" "cache_svc (th s) = Some i" "idle i s" "quiet env" "0 < timeout"
    "nat ((timeout + 1) div 2) \<le> length env"
  shows "poll_data_loop False i fd lst timeout env s =
    Some (Inr (Some (-2)), drop (nat ((timeout + 1) div 2)) env, s)"
proof -
  have "client_select i lst s e = ([], s)" if "e \<in> set env" for e
    using that assms by (intro select_quiet) (auto simp: clib_ok_def quiet_def list_all_iff dest: th_ok_svc)
  from poll_fds_quiet [where sel = "client_select i lst", OF this assms(5,6)] show ?thesis
    using assms(5) by (subst poll_data_loop.simps) simp
qed

lemma poll_loop_quiet_zero:
  assumes "clib_ok s" "cache_svc (th s) = Some i" "idle i s"
  shows "quiet env \<Longrightarrow> poll_data_loop False i fd lst 0 env s = None"
proof (induction env)
  case Nil
  then show ?case by (subst poll_data_loop.simps) simp
next
  case (Cons e es)
  have "client_select i lst s e = ([], s)"
    using Cons.prems assms by (intro select_quiet) (auto simp: clib_ok_def quiet_def dest: th_ok_svc)
  moreover have "quiet es" using Cons.prems by (simp add: quiet_def)
  ultimately show ?case using Cons.IH by (subst poll_data_loop.simps) simp
qed

section \<open>Runs of calls\<close>

datatype clib_call =
    Register string
  | Deregister string
  | Register_Action string
  | Heartbeat string string
  | Read_Request int "message list list"
  | Write_Response string
  | Poll "int list" int "poll_event list"

text \<open>The state after a call; a call that is still waiting has changed nothing yet.\<close>

fun clib_call_state :: "clib_call \<Rightarrow> clib \<Rightarrow> clib" where
  "clib_call_state (Register nm) s = snd (clib_register_client nm s)"
| "clib_call_state (Deregister nm) s = snd (clib_deregister_client nm s)"
| "clib_call_state (Register_Action a) s = snd (clib_register_action a s)"
| "clib_call_state (Heartbeat a i) s = snd (clib_touch_heartbeat a i s)"
| "clib_call_state (Read_Request t env) s =
     (case clib_read_action_request False t env s of None \<Rightarrow> s | Some (_, s', _) \<Rightarrow> s')"
| "clib_call_state (Write_Response txt) s = snd (clib_write_action_response txt s)"
| "clib_call_state (Poll fds t env) s =
     (case clib_poll_for_data False fds (int (length fds)) t env s of
        None \<Rightarrow> s | Some (_, _, s') \<Rightarrow> s')"

lemma poll_ok:
  "clib_ok s \<Longrightarrow> clib_poll_for_data sd fds n t env s = Some (r, env', s') \<Longrightarrow> clib_ok s'"
  by (cases "cache_svc (th s)") (auto simp: clib_poll_for_data_def Let_def dest!: poll_data_loop_ok)

lemma clib_call_ok: "clib_ok s \<Longrightarrow> clib_ok (clib_call_state call s)"
  by (cases call)
    (auto simp: register_client_ok deregister_client_ok register_action_ok touch_heartbeat_ok
      write_action_response_ok intro: read_action_request_ok poll_ok split: option.splits)

lemma clib_calls_ok: "clib_ok s \<Longrightarrow> clib_ok (fold clib_call_state calls s)"
  by (induction calls arbitrary: s) (simp_all add: clib_call_ok)

lemma fold_update_bound:
  "\<forall>i \<in> set is. i < n \<Longrightarrow> list_all (\<lambda>(_, i). i < n) d \<Longrightarrow>
   list_all (\<lambda>(_, i). i < n) (fold (\<lambda>i d. AList.update (f i) i d) is d)"
proof (induction "is" arbitrary: d)
  case (Cons i "is")
  have "set (AList.update k i d) \<subseteq> insert (k, i) (set d)" for k by (induction d) auto
  then have "list_all (\<lambda>(_, i). i < n) (AList.update (f i) i d)"
    using Cons.prems by (fastforce simp: list_all_iff)
  with Cons show ?case by simp
qed simp

lemma new_services_ok: "services_ok (create_cache_services pipes n new_clib)"
proof -
  have "svc_ok (new_cache_service CACHE_LIMIT p q)" for p q
    by (simp add: svc_ok_def new_cache_service_def CACHE_LIMIT_def new_cache_ok)
  then show ?thesis
    by (auto simp: services_ok_def create_cache_services_def Let_def new_clib_def num_svc_def
        list_all_iff [of svc_ok] intro!: fold_update_bound)
qed

lemma created_ok: "clib_ok (create_cache_services pipes n new_clib)"
  using new_services_ok
  by (simp add: clib_ok_def th_ok_def create_cache_services_def Let_def new_clib_def new_th_def)

section \<open>Properties\<close>

text \<open>C20. From freshly created services, any sequence of calls of the plugin process leaves the client
  library well-formed: every queue is a well-formed ring, the thread's service exists, its actions
  are distinct, and a request kept for it is one it accepts.\<close>

theorem client_calls_keep_invariant:
  "clib_ok (fold clib_call_state calls (create_cache_services pipes n new_clib))"
  by (rule clib_calls_ok [OF created_ok])

text \<open>C33. A poll of a registered thread that returns a number returns \<open>-1\<close> with a request kept for
  the thread, \<open>-2\<close> only for a positive timeout, or one of the caller's descriptors; the library
  stays well-formed and registered.\<close>

theorem poll_result_kinds:
  assumes "clib_ok s" "cache_svc (th s) = Some i"
    "clib_poll_for_data shutdown fds cnt timeout env s = Some (Inr (Some k), env', s')"
  shows "clib_ok s' \<and> cache_svc (th s') = Some i \<and>
    (k = - 1 \<and> has_req s' \<or> k = - 2 \<and> timeout > 0 \<or> k \<in> set fds)"
  using assms by (auto simp: clib_poll_for_data_def Let_def dest!: poll_data_loop_ok)

definition sample_clib :: clib where
  "sample_clib = snd (clib_register_client ''proc_0'' (create_cache_services (\<lambda>k. (int (2 * k) + 3, int (2 * k) + 4)) 1 new_clib))"

lemma sample_clib_ok: "clib_ok sample_clib"
  unfolding sample_clib_def by (rule register_client_ok [OF created_ok])

lemma split_proc_0: "split_on CHR ''_'' ''proc_0'' = [''proc'', ''0'']"
  by simp

lemma py_int_0: "py_int ''0'' = Inr 0"
  by (simp add: py_defs)

lemma sample_clib_eval:
  "cache_svc (th sample_clib) = Some 0" "idle 0 sample_clib" "actions (th sample_clib) = Some []"
  "get_signal_rd_fd False (get_svc 0 sample_clib) = 5" "has_req sample_clib \<longleftrightarrow> False"
  by (simp_all add: sample_clib_def clib_register_client_def split_proc_0 py_int_0 create_cache_services_def Let_def
      new_clib_def new_th_def is_initialized_def list_index_def send_def write_to_server_def put_svc_def get_svc_def
      new_cache_service_def new_cache_data_def CACHE_LIMIT_def cache_write_def raise_signal_def idle_def contents_def
      get_signal_rd_fd_def has_req_def)

lemma poll_result_kinds_witness:
  "\<exists>env' s'. clib_poll_for_data False [40] 1 2 [\<lparr>arrivals = [], ready = [40]\<rparr>] sample_clib = Some (Inr (Some 40), env', s') \<and>
     clib_ok s'"
proof -
  have "\<exists>env' s'. clib_poll_for_data False [40] 1 2 [\<lparr>arrivals = [], ready = [40]\<rparr>] sample_clib = Some (Inr (Some 40), env', s')"
  proof -
    have "svc_ok (get_svc 0 sample_clib)"
      using sample_clib_ok sample_clib_eval(1) by (auto simp: clib_ok_def intro: get_svc_ok dest: th_ok_svc)
    then have "pipe_bytes (svc_s2c (get_svc 0 sample_clib)) = 0"
      using pipe_signals_data sample_clib_eval(2) by (auto simp: svc_ok_def idle_def)
    moreover have "signal_rd (svc_s2c (get_svc 0 sample_clib)) = 5"
      using sample_clib_eval(4) by (simp add: get_signal_rd_fd_def)
    ultimately show ?thesis using sample_clib_eval(1,4)
      by (simp add: clib_poll_for_data_def Let_def) (subst poll_data_loop.simps, simp add: client_select_def deliver_Nil Let_def)
  qed
  then show ?thesis using poll_result_kinds [OF sample_clib_ok sample_clib_eval(1)] by blast
qed

text \<open>C34. While nothing arrives and no plugin signals, a poll with a positive timeout returns \<open>-2\<close>
  after half as many waits of at most two seconds as the timeout has seconds, rounded up, and
  changes nothing.\<close>

theorem poll_times_out:
  assumes "clib_ok s" "cache_svc (th s) = Some i" "idle i s" "quiet env" "0 < timeout"
    "nat ((timeout + 1) div 2) \<le> length env"
  shows "clib_poll_for_data False fds cnt timeout env s =
    Some (Inr (Some (- 2)), drop (nat ((timeout + 1) div 2)) env, s)"
  using poll_loop_quiet_timeout [OF assms] assms(2) by (simp add: clib_poll_for_data_def Let_def)

lemma poll_times_out_witness:
  "clib_poll_for_data False [40] 1 2 [\<lparr>arrivals = [], ready = []\<rparr>] sample_clib = Some (Inr (Some (- 2)), [], sample_clib)"
  using poll_times_out [OF sample_clib_ok sample_clib_eval(1,2), of "[\<lparr>arrivals = [], ready = []\<rparr>]" 2 "[40]" 1]
  by (simp add: quiet_def)

text \<open>A poll with timeout 0 does not return while nothing happens: the loop of the test client
  only ends on a timeout greater than zero, so \<open>-2\<close> never comes.\<close>

lemma poll_zero_never_returns:
  assumes "clib_ok s" "cache_svc (th s) = Some i" "idle i s" "quiet env"
  shows "clib_poll_for_data False fds cnt 0 env s = None"
  using poll_loop_quiet_zero [OF assms] assms(2) by (simp add: clib_poll_for_data_def Let_def)

text \<open>A response written while the queue to the server is full is dropped, and the caller still
  gets 0: the result of the write is not looked at.\<close>

lemma full_queue_drops_response:
  assumes "clib_ok s" "cache_svc (th s) = Some i" "loads txt = Inr d"
    "capacity (svc_c2s (get_svc i s)) \<le> length (contents (svc_c2s (get_svc i s)))"
  shows "clib_write_action_response txt s = (Inr (Some 0), s)"
proof -
  have "svc_ok (get_svc i s)" using assms(1,2) by (auto simp: clib_ok_def intro: get_svc_ok dest: th_ok_svc)
  then have "cache_write m (svc_c2s (get_svc i s)) = (False, svc_c2s (get_svc i s))" for m
    using write_refuses [of "svc_c2s (get_svc i s)" m] assms(4) by (simp add: svc_ok_def not_less)
  then show ?thesis using assms(2,3)
    by (simp add: clib_write_action_response_def is_initialized_def send_def write_to_server_def put_get_svc)
qed

text \<open>The sample state with its queue to the server filled up.\<close>

definition full_clib :: clib where
  "full_clib =
     (let p = get_svc 0 sample_clib; c = svc_c2s p
      in put_svc 0 (p\<lparr>svc_c2s := write_all (replicate (capacity c) (msg_register_client ''x'')) c\<rparr>) sample_clib)"

lemma full_clib_facts:
  "clib_ok full_clib" "cache_svc (th full_clib) = Some 0"
  "capacity (svc_c2s (get_svc 0 full_clib)) \<le> length (contents (svc_c2s (get_svc 0 full_clib)))"
proof -
  have n: "0 < num_svc sample_clib" "services_ok sample_clib"
    using sample_clib_ok sample_clib_eval(1) by (auto simp: clib_ok_def dest: th_ok_svc)
  then have svc: "svc_ok (get_svc 0 sample_clib)" by (intro get_svc_ok)
  then have c: "cache_ok (svc_c2s (get_svc 0 sample_clib))" by (simp add: svc_ok_def)
  note w = write_all_ok [OF c]
  show "clib_ok full_clib"
    using sample_clib_ok n svc w by (simp add: clib_ok_def full_clib_def Let_def put_svc_ok svc_ok_def)
  show "cache_svc (th full_clib) = Some 0" using sample_clib_eval(1) by (simp add: full_clib_def Let_def)
  show "capacity (svc_c2s (get_svc 0 full_clib)) \<le> length (contents (svc_c2s (get_svc 0 full_clib)))"
    using n(1) w by (simp add: full_clib_def Let_def get_put_svc)
qed

text \<open>A response written while the queue to the server has room is queued behind what waits there,
  as a message of kind \<^verbatim>\<open>action_request\<close> with the response's dictionary, and nothing
  else changes for the thread.\<close>

lemma response_is_queued:
  assumes "clib_ok s" "cache_svc (th s) = Some i" "loads txt = Inr d"
    "length (contents (svc_c2s (get_svc i s))) < capacity (svc_c2s (get_svc i s))"
  shows "\<exists>s'. clib_write_action_response txt s = (Inr (Some 0), s') \<and> th s' = th s \<and>
    contents (svc_c2s (get_svc i s')) = contents (svc_c2s (get_svc i s)) @ [[(REQ_ACTION_REQUEST, d)]] \<and>
    svc_s2c (get_svc i s') = svc_s2c (get_svc i s)"
proof -
  have i: "i < num_svc s" "services_ok s" using assms(1,2) by (auto simp: clib_ok_def dest: th_ok_svc)
  then have c: "cache_ok (svc_c2s (get_svc i s))" using get_svc_ok by (simp add: svc_ok_def)
  obtain c' where "cache_write [(REQ_ACTION_REQUEST, d)] (svc_c2s (get_svc i s)) = (True, c')"
    "contents c' = contents (svc_c2s (get_svc i s)) @ [[(REQ_ACTION_REQUEST, d)]]"
    using ring.put_accepts [OF c assms(4)] by blast
  then show ?thesis using assms(2,3) i
    by (simp add: clib_write_action_response_def is_initialized_def send_def write_to_server_def get_put_svc)
qed

lemma read_oldest:
  assumes "clib_ok s" "cache_svc (th s) = Some i" "\<not> has_req s" "contents (svc_s2c (get_svc i s)) = m # ms"
    "accepts m (actions (th s)) = Inr b"
  shows "\<exists>s' body. clib_read_action_request False 0 env s = Some (Inr (Some body), s', env) \<and>
    contents (svc_s2c (get_svc i s')) = ms \<and>
    (if b then \<exists>d. m = [(REQ_ACTION_REQUEST, d)] \<and> body = dumps d else body = '''')"
proof -
  have i: "i < num_svc s" "services_ok s" using assms(1,2) by (auto simp: clib_ok_def dest: th_ok_svc)
  then have c: "cache_ok (svc_s2c (get_svc i s))" using get_svc_ok by (simp add: svc_ok_def)
  obtain c' where t: "cache_take (svc_s2c (get_svc i s)) = (Inr (Some m), c')" "contents c' = ms"
    using ring.get_some [OF c assms(4)] by blast
  let ?s1 = "put_svc i ((get_svc i s)\<lparr>svc_s2c := c'\<rparr>) s"
  have rd: "read_from_server False 0 i env s = Some (Inr (Some m), ?s1, env)"
    using t by (simp add: read_from_server_def cache_read_def wait_immediate)
  have q: "contents (svc_s2c (get_svc i ?s1)) = ms" using t i by (simp add: get_put_svc)
  show ?thesis
  proof (cases b)
    case False
    then show ?thesis using assms rd q
      by (simp add: clib_read_action_request_def is_initialized_def read_req_def keep_req_def)
  next
    case True
    then obtain d where m: "m = [(REQ_ACTION_REQUEST, d)]"
      using assms(5) by (cases m) (auto simp: accepts_def split: if_splits)
    then show ?thesis using assms rd q True
      by (simp add: clib_read_action_request_def is_initialized_def read_req_def keep_req_def)
  qed
qed

end
