(* ===== verification/ActionMsg.thy ===== *)
theory ActionMsg
  imports PyJson Gvars
begin

text \<open>
  Requests and responses as the plugins see them (\<^verbatim>\<open>clib_bind.py\<close>, classes
  \<^verbatim>\<open>ActionRequest\<close> and \<^verbatim>\<open>ActionResponse\<close>). Both travel as JSON text. A request that is not
  of type \<^verbatim>\<open>action\<close> has no attributes beyond its type: reading one raises.
\<close>

record action_attrs =
  attr_action_name :: json
  attr_instance_id :: json
  attr_anomaly_instance_id :: json
  attr_anomaly_key :: json
  attr_context :: json
  attr_timeout :: json

record action_request =
  str_data :: string
  req_type :: json
  attrs :: "action_attrs option"

definition new_action_request :: "string \<Rightarrow> action_request res" where
  "new_action_request sdata =
     bind_res (loads sdata) (\<lambda>data.
     bind_res (json_index data REQ_ACTION_TYPE) (\<lambda>ty.
       if ty = JStr REQ_ACTION_TYPE_ACTION then
         bind_res (json_index data REQ_ACTION_NAME) (\<lambda>an.
         bind_res (json_index data REQ_INSTANCE_ID) (\<lambda>inst.
         bind_res (json_index data REQ_ANOMALY_INSTANCE_ID) (\<lambda>ai.
         bind_res (json_index data REQ_ANOMALY_KEY) (\<lambda>ak.
         bind_res (json_index data REQ_CONTEXT) (\<lambda>ctx.
         bind_res (json_index data REQ_TIMEOUT) (\<lambda>tmo.
           Inr \<lparr>str_data = sdata, req_type = ty,
                attrs = Some \<lparr>attr_action_name = an, attr_instance_id = inst,
                  attr_anomaly_instance_id = ai, attr_anomaly_key = ak, attr_context = ctx,
                  attr_timeout = tmo\<rparr>\<rparr>))))))
       else Inr \<lparr>str_data = sdata, req_type = ty, attrs = None\<rparr>))"

definition request_repr :: "action_request \<Rightarrow> string" where
  "request_repr r = str_data r"

definition is_shutdown :: "action_request \<Rightarrow> bool" where
  "is_shutdown r \<longleftrightarrow> req_type r = JStr REQ_ACTION_TYPE_SHUTDOWN"

text \<open>Reading an attribute of a request object.\<close>

definition req_attr :: "string \<Rightarrow> (action_attrs \<Rightarrow> json) \<Rightarrow> action_request \<Rightarrow> json res" where
  "req_attr nm sel r = (case attrs r of None \<Rightarrow> Inl (AttributeError nm) | Some a \<Rightarrow> Inr (sel a))"

definition req_action_name :: "action_request \<Rightarrow> json res" where
  "req_action_name = req_attr ''action_name'' attr_action_name"

definition req_instance_id :: "action_request \<Rightarrow> json res" where
  "req_instance_id = req_attr ''instance_id'' attr_instance_id"

definition req_anomaly_instance_id :: "action_request \<Rightarrow> json res" where
  "req_anomaly_instance_id = req_attr ''anomaly_instance_id'' attr_anomaly_instance_id"

definition req_anomaly_key :: "action_request \<Rightarrow> json res" where
  "req_anomaly_key = req_attr ''anomaly_key'' attr_anomaly_key"

definition req_context :: "action_request \<Rightarrow> json res" where
  "req_context = req_attr ''context'' attr_context"

lemmas req_attr_defs = req_action_name_def req_instance_id_def req_anomaly_instance_id_def
  req_anomaly_key_def req_context_def req_attr_def

record action_response =
  resp_data :: string

text \<open>The dictionary a response prints; the identifiers are what the request carried.\<close>

definition response_dict ::
  "string \<Rightarrow> json \<Rightarrow> json \<Rightarrow> json \<Rightarrow> string \<Rightarrow> int \<Rightarrow> string \<Rightarrow> json"
where
  "response_dict action_name instance_id anomaly_instance_id anomaly_key action_data result_code result_str =
     JObj [(REQ_ACTION_NAME, JStr action_name),
           (REQ_ACTION_TYPE, JStr REQ_ACTION_TYPE_ACTION),
           (REQ_INSTANCE_ID, instance_id),
           (REQ_ANOMALY_INSTANCE_ID, anomaly_instance_id),
           (REQ_ANOMALY_KEY, anomaly_key),
           (REQ_ACTION_DATA, JStr action_data),
           (REQ_RESULT_CODE, JInt result_code),
           (REQ_RESULT_STR, JStr result_str)]"

definition new_action_response ::
  "string \<Rightarrow> json \<Rightarrow> json \<Rightarrow> json \<Rightarrow> string \<Rightarrow> int \<Rightarrow> string \<Rightarrow> action_response"
where
  "new_action_response an inst ai ak adata rc rstr =
     \<lparr>resp_data = dumps (response_dict an inst ai ak adata rc rstr)\<rparr>"

definition response_repr :: "action_response \<Rightarrow> string" where
  "response_repr r = resp_data r"

definition response_value :: "action_response \<Rightarrow> string" where
  "response_value r = resp_data r"

section \<open>Facts\<close>

text \<open>The dictionary of a complete action request, as the server prints it.\<close>

definition request_dict :: "json \<Rightarrow> json \<Rightarrow> json \<Rightarrow> json \<Rightarrow> json \<Rightarrow> json \<Rightarrow> json" where
  "request_dict an inst ai ak ctx tmo =
     JObj [(REQ_ACTION_TYPE, JStr REQ_ACTION_TYPE_ACTION), (REQ_ACTION_NAME, an),
           (REQ_INSTANCE_ID, inst), (REQ_ANOMALY_INSTANCE_ID, ai), (REQ_ANOMALY_KEY, ak),
           (REQ_CONTEXT, ctx), (REQ_TIMEOUT, tmo)]"

lemma request_dict_wf:
  "wf_json (request_dict an inst ai ak ctx tmo) \<longleftrightarrow>
   wf_json an \<and> wf_json inst \<and> wf_json ai \<and> wf_json ak \<and> wf_json ctx \<and> wf_json tmo"
  by (simp add: request_dict_def msg_defs)

lemma response_dict_wf:
  "wf_json (response_dict an inst ai ak adata rc rstr) \<longleftrightarrow> wf_json inst \<and> wf_json ai \<and> wf_json ak"
  by (simp add: response_dict_def msg_defs)

lemma request_parsed:
  assumes "wf_json an" "wf_json inst" "wf_json ai" "wf_json ak" "wf_json ctx" "wf_json tmo"
  shows "new_action_request (dumps (request_dict an inst ai ak ctx tmo)) =
    Inr \<lparr>str_data = dumps (request_dict an inst ai ak ctx tmo), req_type = JStr REQ_ACTION_TYPE_ACTION,
         attrs = Some \<lparr>attr_action_name = an, attr_instance_id = inst,
           attr_anomaly_instance_id = ai, attr_anomaly_key = ak, attr_context = ctx,
           attr_timeout = tmo\<rparr>\<rparr>"
proof -
  let ?v = "request_dict an inst ai ak ctx tmo"
  have l: "loads (dumps ?v) = Inr ?v" using assms by (simp add: loads_dumps request_dict_wf)
  have i: "json_index ?v REQ_ACTION_TYPE = Inr (JStr REQ_ACTION_TYPE_ACTION)"
    "json_index ?v REQ_ACTION_NAME = Inr an" "json_index ?v REQ_INSTANCE_ID = Inr inst"
    "json_index ?v REQ_ANOMALY_INSTANCE_ID = Inr ai" "json_index ?v REQ_ANOMALY_KEY = Inr ak"
    "json_index ?v REQ_CONTEXT = Inr ctx" "json_index ?v REQ_TIMEOUT = Inr tmo"
    by (simp_all add: request_dict_def msg_defs)
  show ?thesis by (simp add: new_action_request_def l i)
qed

lemma response_parsed:
  assumes "wf_json inst" "wf_json ai" "wf_json ak"
  shows "loads (response_value (new_action_response an inst ai ak adata rc rstr)) =
    Inr (response_dict an inst ai ak adata rc rstr)"
  using assms by (simp add: response_value_def new_action_response_def loads_dumps response_dict_wf)

text \<open>An object exists only with its attributes when its type is \<^verbatim>\<open>action\<close>.\<close>

lemma request_attrs:
  assumes "new_action_request txt = Inr r"
  shows "attrs r \<noteq> None \<longleftrightarrow> req_type r = JStr REQ_ACTION_TYPE_ACTION"
  using assms by (auto simp: new_action_request_def bind_res_Inr_iff split: if_splits)

text \<open>The attributes of a request come from parsed text: their dictionaries have distinct keys.\<close>

definition attrs_wf :: "action_attrs \<Rightarrow> bool" where
  "attrs_wf a \<longleftrightarrow> wf_json (attr_action_name a) \<and> wf_json (attr_instance_id a) \<and>
     wf_json (attr_anomaly_instance_id a) \<and> wf_json (attr_anomaly_key a) \<and>
     wf_json (attr_context a) \<and> wf_json (attr_timeout a)"

lemma request_attrs_wf:
  assumes "new_action_request t = Inr r" "attrs r = Some a"
  shows "attrs_wf a"
proof -
  obtain d where d: "loads t = Inr d"
    using assms(1) by (auto simp: new_action_request_def bind_res_Inr_iff)
  note wf = json_index_wf [OF loads_wf [OF d]]
  show ?thesis
    using assms d wf by (auto simp: new_action_request_def bind_res_Inr_iff attrs_wf_def split: if_splits)
qed

section \<open>Properties\<close>

text \<open>C25. A request that the server prints from a complete dictionary is parsed by the plugin
  process into a request whose attributes are exactly these, each read back under its own name, the timeout included,
  and prints as the same text.\<close>

theorem request_round_trip:
  assumes "wf_json an" "wf_json inst" "wf_json ai" "wf_json ak" "wf_json ctx" "wf_json tmo"
  shows "\<exists>rq. new_action_request (dumps (request_dict an inst ai ak ctx tmo)) = Inr rq \<and>
    request_repr rq = dumps (request_dict an inst ai ak ctx tmo) \<and> \<not> is_shutdown rq \<and>
    req_action_name rq = Inr an \<and> req_instance_id rq = Inr inst \<and> req_anomaly_instance_id rq = Inr ai \<and>
    req_anomaly_key rq = Inr ak \<and> req_context rq = Inr ctx \<and>
    attrs rq = Some \<lparr>attr_action_name = an, attr_instance_id = inst, attr_anomaly_instance_id = ai,
      attr_anomaly_key = ak, attr_context = ctx, attr_timeout = tmo\<rparr>"
  using request_parsed [OF assms]
  by (simp add: request_repr_def is_shutdown_def req_attr_defs REQ_ACTION_TYPE_ACTION_def REQ_ACTION_TYPE_SHUTDOWN_def)

lemma request_round_trip_witness:
  "\<exists>rq. new_action_request (dumps (request_dict (JStr ''link_down'') (JStr ''i'') (JStr ''a'') (JStr ''Ethernet0'')
          (JObj [(''link_flap'', JStr ''{}'')]) (JInt 5))) = Inr rq \<and> req_anomaly_key rq = Inr (JStr ''Ethernet0'')"
  using request_round_trip [of "JStr ''link_down''" "JStr ''i''" "JStr ''a''" "JStr ''Ethernet0''"
      "JObj [(''link_flap'', JStr ''{}'')]" "JInt 5"] by auto

end
