(* ===== verification/ClibBind.thy ===== *)
theory ClibBind
  imports ClientLib ActionMsg
begin

text \<open>
  The bindings of the plugin process to its client library (\<^verbatim>\<open>clib_bind.py\<close>). A library is
  a table of calls over a state of its own; \<open>None\<close> as the outcome of a call means that it is
  still waiting. The C library is not Python code of the repository: its symbols and calls
  are a parameter. The library of test mode is the one of theory \<^verbatim>\<open>ClientLib\<close>.
\<close>

section \<open>Libraries\<close>

record 's clib_api =
  api_get_last_error :: "'s \<Rightarrow> int"
  api_get_last_error_str :: "'s \<Rightarrow> string"
  api_register_client :: "string \<Rightarrow> 's \<Rightarrow> int option res \<times> 's"
  api_deregister_client :: "string \<Rightarrow> 's \<Rightarrow> int option res \<times> 's"
  api_register_action :: "string \<Rightarrow> 's \<Rightarrow> int option res \<times> 's"
  api_touch_heartbeat :: "string \<Rightarrow> string \<Rightarrow> 's \<Rightarrow> int option res \<times> 's"
  api_read_action_request :: "int \<Rightarrow> 's \<Rightarrow> (string option res \<times> 's) option"
  api_write_action_response :: "string \<Rightarrow> 's \<Rightarrow> int option res \<times> 's"
  api_poll_for_data :: "int list \<Rightarrow> int \<Rightarrow> int \<Rightarrow> 's \<Rightarrow> (int option res \<times> 's) option"

text \<open>A shared library as \<^verbatim>\<open>ctypes.CDLL\<close> sees it.\<close>

record 's cdll =
  cdll_opens :: bool
  cdll_symbols :: "string list"
  cdll_strings :: "(string, string) dict"
  cdll_api :: "'s clib_api"

datatype dll_handle = No_Dll | Real_Dll | Test_Dll

record 's bind =
  clib_dll :: dll_handle
  TEST_RUN :: bool
  ptrs :: "(string, 's clib_api) dict"
  gvars_set :: "(string, string) dict"
  lib :: 's

definition set_test_mode :: "'s bind \<Rightarrow> 's bind" where
  "set_test_mode b = b\<lparr>TEST_RUN := True\<rparr>"

section \<open>Loading\<close>

text \<open>
  The global names of the module \<^verbatim>\<open>clib_bind\<close> that its code can use: what it defines and
  what \<^verbatim>\<open>from common import *\<close> brings in. \<^verbatim>\<open>common\<close> imports the module \<^verbatim>\<open>ctypes\<close>, none of
  its members.
\<close>

definition common_names :: "string list" where
  "common_names = [''ctypes'', ''json'', ''os'', ''sys'', ''syslog'', ''time'', ''current_thread'',
     ''NamedTuple'', ''gvars'', ''GLOBAL_RC_FILE'', ''Enum'', ''syspath_append'', ''syslog_init'',
     ''ct_log_level'', ''set_log_level'', ''log_error'', ''log_info'', ''log_warning'', ''log_debug'',
     ''set_global_rc_file'', ''get_global_rc'', ''get_config_path'', ''get_proc_plugins_conf_file'',
     ''get_actions_conf_file'', ''get_actions_binding_conf_file'', ''get_plugins_data_file'',
     ''is_running_config_available'', ''get_proc_plugins_conf'', ''get_actions_conf'',
     ''get_actions_binding_conf'', ''get_plugin_data'', ''set_test_mode'']"

definition eval_name :: "string list \<Rightarrow> string \<Rightarrow> unit res" where
  "eval_name names n = (if n \<in> set names then Inr () else Inl (NameError n))"

fun eval_names :: "string list \<Rightarrow> string list \<Rightarrow> unit res" where
  "eval_names names [] = Inr ()"
| "eval_names names (n # ns) = bind_res (eval_name names n) (\<lambda>_. eval_names names ns)"

text \<open>
  One binding per call, in the order of the code: the function pointer, the symbol, the names
  of the argument types and of the result type.
\<close>

definition bindings :: "(string \<times> string list \<times> string) list" where
  "bindings =
     [(''get_last_error'', [], ''c_int''),
      (''get_last_error_str'', [], ''c_char_p''),
      (''register_client'', [''c_char_p''], ''c_int''),
      (''register_action'', [''c_char_p''], ''c_int''),
      (''deregister_client'', [''c_char_p''], ''c_int''),
      (''touch_heartbeat'', [''c_char_p'', ''c_char_p''], ''c_int''),
      (''read_action_request'', [''c_int''], ''c_char_p''),
      (''write_action_response'', [''c_char_p''], ''c_int''),
      (''poll_for_data'', [''POINTER'', ''c_int'', ''c_int'', ''c_int''], ''c_int'')]"

fun bind_all ::
  "string list \<Rightarrow> 's cdll \<Rightarrow> (string \<times> string list \<times> string) list \<Rightarrow> (string, 's clib_api) dict
   \<Rightarrow> unit res \<times> (string, 's clib_api) dict"
where
  "bind_all names d [] ps = (Inr (), ps)"
| "bind_all names d ((nm, args, ret) # rows) ps =
     (if nm \<notin> set (cdll_symbols d) then (Inl (AttributeError nm), ps)
      else
        let ps' = AList.update nm (cdll_api d) ps in
        (case bind_res (eval_names names args) (\<lambda>_. eval_name names ret) of
           Inl e \<Rightarrow> (Inl e, ps')
         | Inr _ \<Rightarrow> bind_all names d rows ps'))"

definition updated_gvars :: "string list" where
  "updated_gvars = [''REQ_ACTION_TYPE'', ''REQ_ACTION_TYPE_ACTION'', ''REQ_ACTION_TYPE_SHUTDOWN'',
     ''REQ_ACTION_NAME'', ''REQ_INSTANCE_ID'', ''REQ_ANOMALY_INSTANCE_ID'', ''REQ_ANOMALY_KEY'',
     ''REQ_CONTEXT'', ''REQ_TIMEOUT'', ''REQ_ACTION_DATA'', ''REQ_RESULT_CODE'', ''REQ_RESULT_STR'']"

text \<open>\<^verbatim>\<open>c_char_p.in_dll\<close> raises \<^verbatim>\<open>ValueError\<close> for a symbol the library does not have.\<close>

definition get_str_clib_globals :: "string list \<Rightarrow> 's cdll \<Rightarrow> string \<Rightarrow> string res" where
  "get_str_clib_globals names d nm =
     bind_res (eval_name names ''c_char_p'') (\<lambda>_.
       case map_of (cdll_strings d) nm of None \<Rightarrow> Inl ValueError | Some v \<Rightarrow> Inr v)"

fun update_globals ::
  "string list \<Rightarrow> 's cdll \<Rightarrow> string list \<Rightarrow> (string, string) dict \<Rightarrow> unit res \<times> (string, string) dict"
where
  "update_globals names d [] gv = (Inr (), gv)"
| "update_globals names d (n # ns) gv =
     (case get_str_clib_globals names d n of
        Inl e \<Rightarrow> (Inl e, gv)
      | Inr v \<Rightarrow> update_globals names d ns (AList.update n v gv))"

definition test_pointers :: "string list" where
  "test_pointers = [''get_last_error'', ''get_last_error_str'', ''register_client'',
     ''deregister_client'', ''register_action'', ''touch_heartbeat'', ''read_action_request'',
     ''write_action_response'', ''poll_for_data'']"

text \<open>
  \<open>names\<close> are the module's global names, \<open>d\<close> the shared library, \<open>test_api\<close> and
  \<open>test_init\<close> the library of test mode.
\<close>

definition c_lib_init ::
  "string list \<Rightarrow> 's cdll \<Rightarrow> 's clib_api \<Rightarrow> ('s \<Rightarrow> bool res \<times> 's) \<Rightarrow> 's bind \<Rightarrow> bool res \<times> 's bind"
where
  "c_lib_init names d test_api test_init b =
     (if clib_dll b \<noteq> No_Dll then (Inr True, b)
      else if \<not> TEST_RUN b then
        if \<not> cdll_opens d then (Inr False, b)
        else
          (case bind_all names d bindings (ptrs b) of
             (Inl e, ps) \<Rightarrow> (Inr False, b\<lparr>ptrs := ps\<rparr>)
           | (Inr _, ps) \<Rightarrow>
               (case update_globals names d updated_gvars (gvars_set b) of
                  (Inl e, gv) \<Rightarrow> (Inr False, b\<lparr>ptrs := ps, gvars_set := gv\<rparr>)
                | (Inr _, gv) \<Rightarrow> (Inr True, b\<lparr>clib_dll := Real_Dll, ptrs := ps, gvars_set := gv\<rparr>)))
      else
        (case test_init (lib b) of
           (Inl e, l) \<Rightarrow> (Inl e, b\<lparr>lib := l\<rparr>)
         | (Inr ok, l) \<Rightarrow>
             if \<not> ok then (Inr False, b\<lparr>lib := l\<rparr>)
             else
               (Inr True,
                b\<lparr>lib := l, clib_dll := Test_Dll,
                  ptrs := fold (\<lambda>n ps. AList.update n test_api ps) test_pointers (ptrs b)\<rparr>)))"

section \<open>Wrapped calls\<close>

text \<open>
  What the wrappers return: a boolean, the pair \<^verbatim>\<open>(False, {})\<close>, or \<^verbatim>\<open>None\<close>, and the truth
  value a caller's \<^verbatim>\<open>if\<close> sees; a non-empty tuple is true.
\<close>

datatype py_ret = PyBool bool | PyTuple | PyNone

fun ret_truth :: "py_ret \<Rightarrow> bool" where
  "ret_truth (PyBool v) = v"
| "ret_truth PyTuple = True"
| "ret_truth PyNone = False"

definition validate_dll :: "'s bind \<Rightarrow> bool" where
  "validate_dll b = (if clib_dll b = No_Dll then TEST_RUN b else True)"

definition call_ptr ::
  "string \<Rightarrow> ('s clib_api \<Rightarrow> 's \<Rightarrow> 'r res \<times> 's) \<Rightarrow> 's bind \<Rightarrow> 'r res \<times> 's bind"
where
  "call_ptr nm f b =
     (case map_of (ptrs b) nm of
        None \<Rightarrow> (Inl TypeError, b)
      | Some api \<Rightarrow> (case f api (lib b) of (r, l) \<Rightarrow> (r, b\<lparr>lib := l\<rparr>)))"

definition get_last_error :: "'s bind \<Rightarrow> (int \<times> string) res" where
  "get_last_error b =
     (case map_of (ptrs b) ''get_last_error'' of
        None \<Rightarrow> Inl TypeError
      | Some api \<Rightarrow>
          (case map_of (ptrs b) ''get_last_error_str'' of
             None \<Rightarrow> Inl TypeError
           | Some api' \<Rightarrow> Inr (api_get_last_error api (lib b), api_get_last_error_str api' (lib b))))"

text \<open>The message logged about a failed call.\<close>

definition print_clib_error :: "string \<Rightarrow> int \<Rightarrow> 's bind \<Rightarrow> string res" where
  "print_clib_error m ret b =
     bind_res (get_last_error b) (\<lambda>(err, estr).
       Inr (m @ '': ret:'' @ show_int ret @ '' last_error:'' @ show_int err @ '' ('' @ estr @ '')''))"

definition register_client :: "string \<Rightarrow> 's bind \<Rightarrow> py_ret res \<times> 's bind" where
  "register_client proc_id b =
     (if \<not> validate_dll b then (Inr PyTuple, b)
      else
        bind_st (call_ptr ''register_client'' (\<lambda>api. api_register_client api proc_id) b) (\<lambda>ret b.
          if ret \<noteq> Some 0 then (Inr (PyBool False), b) else (Inr (PyBool True), b)))"

definition register_action :: "string \<Rightarrow> 's bind \<Rightarrow> py_ret res \<times> 's bind" where
  "register_action action b =
     (if \<not> validate_dll b then (Inr PyTuple, b)
      else
        bind_st (call_ptr ''register_action'' (\<lambda>api. api_register_action api action) b) (\<lambda>ret b.
          if ret \<noteq> Some 0 then (Inr (PyBool False), b) else (Inr (PyBool True), b)))"

definition deregister_client :: "string \<Rightarrow> 's bind \<Rightarrow> py_ret res \<times> 's bind" where
  "deregister_client proc_id b =
     (if \<not> validate_dll b then (Inr PyTuple, b)
      else
        bind_st (call_ptr ''deregister_client'' (\<lambda>api. api_deregister_client api proc_id) b)
          (\<lambda>_ b. (Inr PyNone, b)))"

text \<open>The instance identifier is the value a plugin passed on; only a string has \<^verbatim>\<open>encode\<close>.\<close>

fun encode_value :: "json \<Rightarrow> string res" where
  "encode_value (JStr s) = Inr s"
| "encode_value _ = Inl (AttributeError ''encode'')"

definition touch_heartbeat :: "string \<Rightarrow> json \<Rightarrow> 's bind \<Rightarrow> py_ret res \<times> 's bind" where
  "touch_heartbeat action instance_id b =
     (if \<not> validate_dll b then (Inr PyTuple, b)
      else
        bind_st (encode_value instance_id, b) (\<lambda>inst b.
        bind_st (call_ptr ''touch_heartbeat'' (\<lambda>api. api_touch_heartbeat api action inst) b) (\<lambda>ret b.
          if ret \<noteq> Some 0 then (Inr (PyBool False), b) else (Inr (PyBool True), b))))"

text \<open>A read yields the flag and the request; \<open>None\<close> is a call that is still waiting.\<close>

definition read_action_request ::
  "int \<Rightarrow> 's bind \<Rightarrow> ((bool \<times> action_request option) res \<times> 's bind) option"
where
  "read_action_request timeout b =
     (if \<not> validate_dll b then Some (Inr (False, None), b)
      else
        (case map_of (ptrs b) ''read_action_request'' of
           None \<Rightarrow> Some (Inl TypeError, b)
         | Some api \<Rightarrow>
             (case api_read_action_request api timeout (lib b) of
                None \<Rightarrow> None
              | Some (r, l) \<Rightarrow>
                  Some
                    (bind_st (r, b\<lparr>lib := l\<rparr>) (\<lambda>v b.
                       (case v of
                          None \<Rightarrow> (Inl (AttributeError ''decode''), b)
                        | Some txt \<Rightarrow>
                            if txt = '''' then
                              bind_st (get_last_error b, b) (\<lambda>_ b. (Inr (False, None), b))
                            else
                              bind_st (new_action_request txt, b) (\<lambda>rq b. (Inr (True, Some rq), b))))))))"

definition write_action_response :: "action_response \<Rightarrow> 's bind \<Rightarrow> py_ret res \<times> 's bind" where
  "write_action_response rsp b =
     (if \<not> validate_dll b then (Inr (PyBool False), b)
      else
        bind_st (call_ptr ''write_action_response''
                   (\<lambda>api. api_write_action_response api (response_value rsp)) b) (\<lambda>ret b.
          if ret \<noteq> Some 0 then (Inr (PyBool False), b) else (Inr (PyBool True), b)))"

text \<open>
  \<^verbatim>\<open>poll_for_data\<close> returns \<^verbatim>\<open>False\<close>, which is the integer 0, when no library is loaded. Outside
  test mode the descriptors are first copied to an array of \<^verbatim>\<open>c_int\<close>.
\<close>

definition poll_for_data ::
  "string list \<Rightarrow> int list \<Rightarrow> int \<Rightarrow> 's bind \<Rightarrow> (int option res \<times> 's bind) option"
where
  "poll_for_data names lst_fds timeout b =
     (if \<not> validate_dll b then Some (Inr (Some 0), b)
      else
        (case (if TEST_RUN b then Inr () else eval_name names ''c_int'') of
           Inl e \<Rightarrow> Some (Inl e, b)
         | Inr _ \<Rightarrow>
             (case map_of (ptrs b) ''poll_for_data'' of
                None \<Rightarrow> Some (Inl TypeError, b)
              | Some api \<Rightarrow>
                  (case api_poll_for_data api lst_fds (int (length lst_fds)) timeout (lib b) of
                     None \<Rightarrow> None
                   | Some (r, l) \<Rightarrow> Some (r, b\<lparr>lib := l\<rparr>)))))"

section \<open>Loading outside test mode\<close>

text \<open>
  The first binding already needs \<^verbatim>\<open>c_int\<close>, a member of \<^verbatim>\<open>ctypes\<close> that no import brings in.
\<close>

lemma bind_all_needs_names:
  assumes "''c_int'' \<notin> set names"
  shows "\<exists>e ps'. bind_all names d bindings ps = (Inl e, ps')"
  using assms by (auto simp: bindings_def eval_name_def)

lemma eval_names_ok: "set ns \<subseteq> set names \<Longrightarrow> eval_names names ns = Inr ()"
  by (induction ns) (auto simp: eval_name_def)

lemma bind_all_complete:
  assumes "\<forall>(nm, args, ret) \<in> set rows. nm \<in> set (cdll_symbols d) \<and> set args \<subseteq> set names \<and> ret \<in> set names"
  shows "fst (bind_all names d rows ps) = Inr ()"
  using assms
proof (induction rows arbitrary: ps)
  case (Cons row rows)
  then show ?case by (cases row) (auto simp: eval_names_ok eval_name_def)
qed simp

lemma update_globals_complete:
  assumes "''c_char_p'' \<in> set names" "set ns \<subseteq> set (keys (cdll_strings d))"
  shows "fst (update_globals names d ns gv) = Inr ()"
  using assms
proof (induction ns arbitrary: gv)
  case (Cons n ns)
  then obtain v where "map_of (cdll_strings d) n = Some v"
    using map_of_eq_None_iff [of "cdll_strings d" n] by auto
  with Cons show ?case by (simp add: get_str_clib_globals_def eval_name_def)
qed simp

section \<open>The contract of a client library\<close>

text \<open>
  What the plugin process relies on while it is registered (\<open>reg\<close>): reads with timeout 0
  return, each request read makes the backlog smaller, and a request is for a registered
  action or a shutdown; every call keeps the registration and the actions, except that
  registering an action adds it.
\<close>

locale client_library =
  fixes api :: "'s clib_api"
    and up :: "'s \<Rightarrow> bool"
    and reg :: "'s \<Rightarrow> bool"
    and acts :: "'s \<Rightarrow> string list"
    and pending :: "'s \<Rightarrow> nat"
  assumes register: "up l \<Longrightarrow> api_register_client api nm l = (Inr (Some 0), l') \<Longrightarrow> reg l' \<and> acts l' = []"
    and add_action:
      "reg l \<Longrightarrow> api_register_action api a l = (r, l') \<Longrightarrow>
       reg l' \<and> (if r = Inr (Some 0) then a \<notin> set (acts l) \<and> acts l' = acts l @ [a] else acts l' = acts l)"
    and heartbeat: "reg l \<Longrightarrow> api_touch_heartbeat api a i l = (r, l') \<Longrightarrow> reg l' \<and> acts l' = acts l"
    and respond: "reg l \<Longrightarrow> api_write_action_response api t l = (r, l') \<Longrightarrow> reg l' \<and> acts l' = acts l"
    and read_now: "reg l \<Longrightarrow> \<exists>v l'. api_read_action_request api 0 l = Some (v, l')"
    and read_keeps:
      "reg l \<Longrightarrow> api_read_action_request api 0 l = Some (v, l') \<Longrightarrow> reg l' \<and> acts l' = acts l"
    and read_filtered:
      "reg l \<Longrightarrow> api_read_action_request api 0 l = Some (Inr (Some txt), l') \<Longrightarrow> txt \<noteq> '''' \<Longrightarrow>
       pending l' < pending l \<and>
       (\<exists>d. txt = dumps d \<and> wf_json d \<and>
          (json_index d REQ_ACTION_TYPE = Inr (JStr REQ_ACTION_TYPE_SHUTDOWN) \<or>
           (\<exists>n \<in> set (acts l). json_index d REQ_ACTION_NAME = Inr (JStr n))))"
    and poll_keeps:
      "reg l \<Longrightarrow> api_poll_for_data api fds n tmo l = Some (r, l') \<Longrightarrow> reg l' \<and> acts l' = acts l"
begin

text \<open>The bindings are loaded with this library.\<close>

definition bound :: "'s bind \<Rightarrow> bool" where
  "bound b \<longleftrightarrow> validate_dll b \<and> list_all (\<lambda>n. map_of (ptrs b) n = Some api) test_pointers"

lemma bound_ptr: "bound b \<Longrightarrow> n \<in> set test_pointers \<Longrightarrow> map_of (ptrs b) n = Some api"
  by (simp add: bound_def list_all_iff)

lemma bound_lib [simp]: "bound (b\<lparr>lib := l\<rparr>) = bound b"
  by (simp add: bound_def validate_dll_def)

lemma bound_valid [simp]: "bound b \<Longrightarrow> validate_dll b"
  by (simp add: bound_def)

lemma register_client_bound:
  assumes "bound b" "up (lib b)" "register_client nm b = (Inr v, b')" "ret_truth v"
  shows "bound b' \<and> reg (lib b') \<and> acts (lib b') = []"
  using assms bound_ptr [OF assms(1), of "''register_client''"] register [of "lib b" nm]
  by (auto simp: register_client_def call_ptr_def test_pointers_def bind_st_def
      split: prod.splits sum.splits if_splits)

lemma register_action_bound:
  assumes "bound b" "reg (lib b)" "register_action a b = (r, b')"
  shows "bound b' \<and> reg (lib b') \<and>
    (if r = Inr (PyBool True) then a \<notin> set (acts (lib b)) \<and> acts (lib b') = acts (lib b) @ [a]
     else acts (lib b') = acts (lib b))"
  using assms bound_ptr [OF assms(1), of "''register_action''"] add_action [of "lib b" a]
  by (auto simp: register_action_def call_ptr_def test_pointers_def bind_st_def
      split: prod.splits sum.splits if_splits)

lemma touch_heartbeat_bound:
  assumes "bound b" "reg (lib b)" "touch_heartbeat a i b = (r, b')"
  shows "bound b' \<and> reg (lib b') \<and> acts (lib b') = acts (lib b)"
  using assms bound_ptr [OF assms(1), of "''touch_heartbeat''"] heartbeat [of "lib b" a]
  by (cases i) (auto simp: touch_heartbeat_def call_ptr_def test_pointers_def bind_st_def
      split: prod.splits sum.splits if_splits)

lemma write_action_response_bound:
  assumes "bound b" "reg (lib b)" "write_action_response rsp b = (r, b')"
  shows "bound b' \<and> reg (lib b') \<and> acts (lib b') = acts (lib b)"
  using assms bound_ptr [OF assms(1), of "''write_action_response''"] respond [of "lib b" "response_value rsp"]
  by (auto simp: write_action_response_def call_ptr_def test_pointers_def bind_st_def
      split: prod.splits sum.splits if_splits)

lemma poll_for_data_bound:
  assumes "bound b" "reg (lib b)" "poll_for_data names fds t b = Some (r, b')"
  shows "bound b' \<and> reg (lib b') \<and> acts (lib b') = acts (lib b)"
  using assms bound_ptr [OF assms(1), of "''poll_for_data''"] poll_keeps [of "lib b" fds "int (length fds)" t]
  by (auto simp: poll_for_data_def test_pointers_def split: option.splits sum.splits if_splits)

text \<open>
  A read with timeout 0 returns; a request it yields is a shutdown, or names a registered
  action and is an action request, or is of another type and has no attributes.
\<close>

lemma request_kind:
  assumes "new_action_request (dumps d) = Inr rq" "wf_json d"
    "json_index d REQ_ACTION_TYPE = Inr (JStr REQ_ACTION_TYPE_SHUTDOWN) \<or>
     (\<exists>n \<in> set as. json_index d REQ_ACTION_NAME = Inr (JStr n))"
  shows "is_shutdown rq \<or> attrs rq = None \<or> (\<exists>n \<in> set as. req_action_name rq = Inr (JStr n))"
  using assms by (auto simp: new_action_request_def loads_dumps bind_res_Inr_iff is_shutdown_def
      req_attr_defs split: if_splits)

lemma read_request_bound:
  assumes "bound b" "reg (lib b)"
  obtains r b' where "read_action_request 0 b = Some (r, b')"
    "bound b'" "reg (lib b')" "acts (lib b') = acts (lib b)"
    "\<And>ok rq. r = Inr (ok, rq) \<Longrightarrow> (ok \<longleftrightarrow> rq \<noteq> None)"
    "\<And>rq. r = Inr (True, Some rq) \<Longrightarrow> pending (lib b') < pending (lib b) \<and>
       (is_shutdown rq \<or> attrs rq = None \<or> (\<exists>n \<in> set (acts (lib b)). req_action_name rq = Inr (JStr n)))"
proof -
  obtain v l where v: "api_read_action_request api 0 (lib b) = Some (v, l)"
    using read_now [OF assms(2)] by blast
  note keeps = read_keeps [OF assms(2) v]
  have ptr: "map_of (ptrs b) ''read_action_request'' = Some api"
    "map_of (ptrs b) ''get_last_error'' = Some api" "map_of (ptrs b) ''get_last_error_str'' = Some api"
    by (rule bound_ptr [OF assms(1)], simp add: test_pointers_def)+
  show thesis
  proof (cases "\<exists>body. v = Inr (Some body) \<and> body \<noteq> ''''")
    case False
    show thesis
    proof (cases "v = Inr (Some '''')")
      case True
      then have "read_action_request 0 b = Some (Inr (False, None), b\<lparr>lib := l\<rparr>)"
        using v assms(1) ptr by (simp add: read_action_request_def get_last_error_def)
      then show thesis using keeps assms(1) by (intro that [of "Inr (False, None)" "b\<lparr>lib := l\<rparr>"]) simp_all
    next
      case other: False
      then obtain e where "read_action_request 0 b = Some (Inl e, b\<lparr>lib := l\<rparr>)"
      proof (cases v)
        case (Inl e)
        then show ?thesis using v assms(1) ptr that by (simp add: read_action_request_def)
      next
        case (Inr t)
        then have "t = None" using False other by (cases t) auto
        then show ?thesis using v assms(1) ptr that Inr by (simp add: read_action_request_def)
      qed
      then show thesis using keeps assms(1) by (intro that [of "Inl e" "b\<lparr>lib := l\<rparr>"]) simp_all
    qed
  next
    case True
    then obtain body where body: "v = Inr (Some body)" "body \<noteq> ''''" by blast
    obtain d where d: "body = dumps d" "wf_json d" "pending l < pending (lib b)"
        "json_index d REQ_ACTION_TYPE = Inr (JStr REQ_ACTION_TYPE_SHUTDOWN) \<or>
         (\<exists>n \<in> set (acts (lib b)). json_index d REQ_ACTION_NAME = Inr (JStr n))"
      using read_filtered [OF assms(2)] v body by blast
    note rq = request_kind [OF _ d(2,4), folded d(1)]
    have eq: "read_action_request 0 b =
        Some (bind_st (new_action_request body, b\<lparr>lib := l\<rparr>) (\<lambda>rq b. (Inr (True, Some rq), b)))"
      using assms(1) v body ptr by (simp add: read_action_request_def)
    show thesis
    proof (cases "new_action_request body")
      case (Inl e)
      then show thesis using eq keeps assms(1) by (intro that [of "Inl e" "b\<lparr>lib := l\<rparr>"]) auto
    next
      case (Inr q)
      then show thesis using eq keeps assms(1) d(3) rq [of q]
        by (intro that [of "Inr (True, Some q)" "b\<lparr>lib := l\<rparr>"]) auto
    qed
  qed
qed

end

section \<open>Properties\<close>

text \<open>Outside test mode the C library never loads: the module imports none of the names its
  bindings use, so the first one raises \<^verbatim>\<open>NameError\<close>, which \<^verbatim>\<open>c_lib_init\<close> turns into
  \<^verbatim>\<open>False\<close>, whatever the shared library provides.\<close>

lemma c_library_never_loads:
  assumes "clib_dll b = No_Dll" "\<not> TEST_RUN b"
  shows "fst (c_lib_init common_names d test_api test_init b) = Inr False \<and>
    clib_dll (snd (c_lib_init common_names d test_api test_init b)) = No_Dll"
proof -
  have "''c_int'' \<notin> set common_names" by (simp add: common_names_def)
  from bind_all_needs_names [OF this, of d "ptrs b"] obtain e ps'
    where "bind_all common_names d bindings (ptrs b) = (Inl e, ps')" by blast
  then show ?thesis using assms by (simp add: c_lib_init_def)
qed

text \<open>A bound table of calls that refuses everything.\<close>

definition dead_api :: "unit clib_api" where
  "dead_api =
     \<lparr>api_get_last_error = (\<lambda>_. 0), api_get_last_error_str = (\<lambda>_. ''''),
      api_register_client = (\<lambda>_ u. (Inr (Some 1), u)), api_deregister_client = (\<lambda>_ u. (Inr (Some 1), u)),
      api_register_action = (\<lambda>_ u. (Inr (Some 1), u)), api_touch_heartbeat = (\<lambda>_ _ u. (Inr (Some 1), u)),
      api_read_action_request = (\<lambda>_ u. Some (Inr (Some ''''), u)),
      api_write_action_response = (\<lambda>_ u. (Inr (Some 1), u)),
      api_poll_for_data = (\<lambda>_ _ _ u. Some (Inr (Some (- 2)), u))\<rparr>"

definition no_bind :: "unit bind" where
  "no_bind = \<lparr>clib_dll = No_Dll, TEST_RUN = False, ptrs = [], gvars_set = [], lib = ()\<rparr>"

text \<open>With the names imported and a library that has every symbol and string, the library
  loads.\<close>

lemma complete_library_loads:
  assumes "clib_dll b = No_Dll" "\<not> TEST_RUN b" "cdll_opens d"
    "set [''c_int'', ''c_char_p'', ''POINTER''] \<subseteq> set nms"
    "set (map fst bindings) \<subseteq> set (cdll_symbols d)" "set updated_gvars \<subseteq> set (keys (cdll_strings d))"
  shows "fst (c_lib_init nms d test_api test_init b) = Inr True \<and>
    clib_dll (snd (c_lib_init nms d test_api test_init b)) = Real_Dll"
proof -
  have "\<forall>(nm, args, ret) \<in> set bindings. nm \<in> set (cdll_symbols d) \<and> set args \<subseteq> set nms \<and> ret \<in> set nms"
    using assms(4,5) by (auto simp: bindings_def)
  from bind_all_complete [OF this, of "ptrs b"] obtain ps where
    1: "bind_all nms d bindings (ptrs b) = (Inr (), ps)" by (cases "bind_all nms d bindings (ptrs b)") auto
  have "''c_char_p'' \<in> set nms" using assms(4) by simp
  from update_globals_complete [OF this assms(6), of "gvars_set b"] obtain gv where
    2: "update_globals nms d updated_gvars (gvars_set b) = (Inr (), gv)"
    by (cases "update_globals nms d updated_gvars (gvars_set b)") auto
  show ?thesis using assms(1-3) 1 2 by (simp add: c_lib_init_def)
qed

text \<open>Without a library the wrappers report failure as the tuple \<^verbatim>\<open>(False, {})\<close>, which is
  true in a condition: registering then looks successful to its callers, and a poll returns 0, a
  valid descriptor.\<close>

lemma calls_without_library:
  assumes "clib_dll b = No_Dll" "\<not> TEST_RUN b"
  shows "(\<exists>v. register_client nm b = (Inr v, b) \<and> ret_truth v) \<and>
    (\<exists>v. register_action act b = (Inr v, b) \<and> ret_truth v) \<and>
    (\<exists>v. touch_heartbeat act inst b = (Inr v, b) \<and> ret_truth v) \<and>
    write_action_response rsp b = (Inr (PyBool False), b) \<and>
    read_action_request timeout b = Some (Inr (False, None), b) \<and>
    poll_for_data nms fds timeout b = Some (Inr (Some 0), b)"
  using assms
  by (simp add: validate_dll_def register_client_def register_action_def touch_heartbeat_def
      write_action_response_def read_action_request_def poll_for_data_def)

end
