(* ===== verification/TestLibrary.thy ===== *)
theory TestLibrary
  imports ClibBind
begin

text \<open>
  The library of test mode as the bindings see it, and the proof that it keeps the contract
  of a client library. Its state is the configuration, the shared services with the thread's
  registration, and what the server and the plugins will do during the waits to come.
\<close>

record test_world =
  tw_cfg :: config
  tw_lib :: clib
  tw_env :: "poll_event list"
  tw_shutdown :: bool

definition on_lib :: "(clib \<Rightarrow> 'r \<times> clib) \<Rightarrow> test_world \<Rightarrow> 'r \<times> test_world" where
  "on_lib f w = (case f (tw_lib w) of (r, s) \<Rightarrow> (r, w\<lparr>tw_lib := s\<rparr>))"

definition test_read :: "int \<Rightarrow> test_world \<Rightarrow> (string option res \<times> test_world) option" where
  "test_read timeout w =
     (case clib_read_action_request (tw_shutdown w) timeout (map arrivals (tw_env w)) (tw_lib w) of
        None \<Rightarrow> None
      | Some (r, s, env') \<Rightarrow>
          Some (r, w\<lparr>tw_lib := s, tw_env := drop (length (tw_env w) - length env') (tw_env w)\<rparr>))"

definition test_poll :: "int list \<Rightarrow> int \<Rightarrow> int \<Rightarrow> test_world \<Rightarrow> (int option res \<times> test_world) option" where
  "test_poll fds cnt timeout w =
     (case clib_poll_for_data (tw_shutdown w) fds cnt timeout (tw_env w) (tw_lib w) of
        None \<Rightarrow> None
      | Some (r, env', s) \<Rightarrow> Some (r, w\<lparr>tw_lib := s, tw_env := env'\<rparr>))"

definition test_api :: "test_world clib_api" where
  "test_api =
     \<lparr>api_get_last_error = (\<lambda>w. error_code (tw_lib w)),
      api_get_last_error_str = (\<lambda>w. error_str (tw_lib w)),
      api_register_client = (\<lambda>nm. on_lib (clib_register_client nm)),
      api_deregister_client = (\<lambda>nm. on_lib (clib_deregister_client nm)),
      api_register_action = (\<lambda>a. on_lib (clib_register_action a)),
      api_touch_heartbeat = (\<lambda>a i. on_lib (clib_touch_heartbeat a i)),
      api_read_action_request = test_read,
      api_write_action_response = (\<lambda>t. on_lib (clib_write_action_response t)),
      api_poll_for_data = test_poll\<rparr>"

text \<open>\<^verbatim>\<open>test_client.clib_init()\<close>, with \<open>pipes\<close> the descriptors the system hands out.\<close>

definition test_init :: "(nat \<Rightarrow> int \<times> int) \<Rightarrow> test_world \<Rightarrow> bool res \<times> test_world" where
  "test_init pipes w =
     (case clib_init pipes (tw_cfg w) (tw_lib w) of
        (r, cfg, s) \<Rightarrow> (r, w\<lparr>tw_cfg := cfg, tw_lib := s\<rparr>))"

lemmas api_simps = test_api_def on_lib_def

section \<open>Messages are dictionaries with distinct keys\<close>

definition queue_wf :: "message cache_data \<Rightarrow> bool" where
  "queue_wf c \<longleftrightarrow> list_all wf_members (contents c)"

lemma queue_wf_subset: "set (contents c') \<subseteq> set (contents c) \<Longrightarrow> queue_wf c \<Longrightarrow> queue_wf c'"
  by (auto simp: queue_wf_def list_all_iff)

lemma wait_wf:
  assumes "cache_ok c" "queue_wf c" "list_all (list_all wf_members) env"
    "read_wait sd timeout env c = Some (c', env')"
  shows "cache_ok c' \<and> queue_wf c'"
  using wait_result [OF assms(1,4)] assms write_all_ok [OF assms(1)]
  by (auto simp: queue_wf_def list_all_iff) (meson in_set_takeD)

lemma cache_read_wf:
  assumes "cache_ok c" "queue_wf c" "list_all (list_all wf_members) env"
    "cache_read sd timeout env c = Some (r, c', env')"
  shows "cache_ok c' \<and> queue_wf c' \<and> (\<forall>m. r = Inr (Some m) \<longrightarrow> wf_members m)"
proof -
  obtain c1 where c1: "read_wait sd timeout env c = Some (c1, env')" "cache_take c1 = (r, c')"
    using assms(4) by (auto simp: cache_read_def split: option.splits prod.splits)
  note ok = wait_wf [OF assms(1-3) c1(1)]
  then show ?thesis using ring.get_result [OF _ c1(2)]
    by (cases "contents c1") (auto simp: queue_wf_def)
qed

text \<open>A read with timeout 0 takes the oldest message, if there is one.\<close>

lemma cache_read_now:
  assumes "cache_ok c"
  obtains r c' where "cache_read sd 0 env c = Some (r, c', env)" "cache_ok c'"
    "case contents c of [] \<Rightarrow> r = Inr None \<and> c' = c | m # ms \<Rightarrow> r = Inr (Some m) \<and> contents c' = ms"
proof -
  obtain r c' where t: "cache_take c = (r, c')" by fastforce
  have "cache_read sd 0 env c = Some (r, c', env)" by (simp add: cache_read_def wait_immediate t)
  then show thesis using that ring.get_result [OF assms t] by blast
qed

section \<open>The registered state\<close>

definition own_queue :: "clib \<Rightarrow> message cache_data" where
  "own_queue s = svc_s2c (get_svc (the (cache_svc (th s))) s)"

definition client_reg :: "clib \<Rightarrow> bool" where
  "client_reg s \<longleftrightarrow> clib_ok s \<and> cache_svc (th s) \<noteq> None \<and> queue_wf (own_queue s) \<and>
     (case req (th s) of None \<Rightarrow> True | Some m \<Rightarrow> wf_members m)"

definition client_up :: "clib \<Rightarrow> bool" where
  "client_up s \<longleftrightarrow> clib_ok s \<and> cache_svc (th s) = None \<and>
     (case services s of None \<Rightarrow> True | Some ps \<Rightarrow> list_all (\<lambda>p. queue_wf (svc_s2c p)) ps)"

definition client_acts :: "clib \<Rightarrow> string list" where
  "client_acts s = (case actions (th s) of None \<Rightarrow> [] | Some as \<Rightarrow> as)"

definition client_pending :: "clib \<Rightarrow> nat" where
  "client_pending s = length (contents (own_queue s)) + (if has_req s then 1 else 0)"

definition env_wf :: "poll_event list \<Rightarrow> bool" where
  "env_wf env = list_all (\<lambda>e. list_all wf_members (arrivals e)) env"

definition tw_up :: "test_world \<Rightarrow> bool" where
  "tw_up w \<longleftrightarrow> client_up (tw_lib w) \<and> env_wf (tw_env w)"

definition tw_reg :: "test_world \<Rightarrow> bool" where
  "tw_reg w \<longleftrightarrow> client_reg (tw_lib w) \<and> env_wf (tw_env w)"

definition tw_acts :: "test_world \<Rightarrow> string list" where
  "tw_acts w = client_acts (tw_lib w)"

definition tw_pending :: "test_world \<Rightarrow> nat" where
  "tw_pending w = client_pending (tw_lib w)"

lemma client_regE:
  assumes "client_reg s"
  obtains i as where "cache_svc (th s) = Some i" "i < num_svc s" "actions (th s) = Some as" "distinct as"
    "services_ok s" "own_queue s = svc_s2c (get_svc i s)"
  using assms th_ok_svc [of "num_svc s" "th s"]
  by (auto simp: client_reg_def clib_ok_def th_ok_def own_queue_def split: option.splits)

text \<open>Writing to the server leaves the client's own queue alone.\<close>

lemma send_queue:
  assumes "services_ok s" "th_ok (num_svc s) (th s)"
  shows "own_queue (send m s) = own_queue s"
proof (cases "cache_svc (th s)")
  case (Some i)
  then show ?thesis using th_ok_svc [OF assms(2) Some]
    by (auto simp: send_def own_queue_def write_to_server_def get_put_svc split: prod.splits)
qed (simp add: send_def)

lemma send_reg:
  assumes "client_reg s"
  shows "client_reg (send m s) \<and> th (send m s) = th s"
  using assms send_ok [of s m] send_queue [of s m] by (auto simp: client_reg_def clib_ok_def)

lemma register_reg:
  assumes "client_up s" "clib_register_client nm s = (Inr (Some 0), s')"
  shows "client_reg s' \<and> client_acts s' = []"
proof -
  obtain i ps where i: "services s = Some ps" "i < length ps"
      "s' = send (msg_register_client nm)
         (s\<lparr>th := \<lparr>cache_svc = Some i, cl_name = Some nm, actions = Some [], req = None\<rparr>\<rparr>)"
    using assms(2)
    by (auto simp: clib_register_client_def Let_def split: if_splits sum.splits option.splits dest: list_index_upt)
  let ?s = "s\<lparr>th := \<lparr>cache_svc = Some i, cl_name = Some nm, actions = Some [], req = None\<rparr>\<rparr>"
  have "client_reg ?s"
    using assms(1) i
    by (auto simp: client_reg_def client_up_def clib_ok_def th_ok_def own_queue_def num_svc_def get_svc_def
        list_all_length)
  then show ?thesis using send_reg [of ?s] i(3) by (simp add: client_acts_def)
qed

lemma register_action_reg:
  assumes "client_reg s" "clib_register_action a s = (r, s')"
  shows "client_reg s' \<and>
    (if r = Inr (Some 0) then a \<notin> set (client_acts s) \<and> client_acts s' = client_acts s @ [a]
     else client_acts s' = client_acts s)"
proof -
  obtain i as where i: "cache_svc (th s) = Some i" "actions (th s) = Some as" "distinct as"
    using assms(1) by (auto elim: client_regE)
  show ?thesis
  proof (cases "a \<in> set as")
    case True
    then show ?thesis using assms i by (auto simp: clib_register_action_def is_initialized_def)
  next
    case False
    let ?s = "s\<lparr>th := (th s)\<lparr>actions := Some (as @ [a])\<rparr>\<rparr>"
    have "clib_ok s'" using register_action_ok [of s a] assms by (simp add: client_reg_def)
    moreover have s': "r = Inr (Some 0)" "s' = send (msg_register_action a (cl_name (th s))) ?s"
      using assms(2) i False by (simp_all add: clib_register_action_def is_initialized_def)
    moreover have "th_ok (num_svc ?s) (th ?s)" "services_ok ?s"
      using assms(1) i False accepts_mono [of _ as "as @ [a]"]
      by (auto simp: client_reg_def clib_ok_def th_ok_def split: option.splits)
    note send_queue [OF this(2,1)] send_ok [OF this(2,1)]
    ultimately show ?thesis using assms(1) i False
      by (auto simp: client_reg_def client_acts_def own_queue_def)
  qed
qed

lemma heartbeat_reg:
  assumes "client_reg s" "clib_touch_heartbeat a inst s = (r, s')"
  shows "client_reg s' \<and> client_acts s' = client_acts s"
  using assms send_reg [OF assms(1)]
  by (auto simp: clib_touch_heartbeat_def client_acts_def split: if_splits option.splits)

lemma respond_reg:
  assumes "client_reg s" "clib_write_action_response t s = (r, s')"
  shows "client_reg s' \<and> client_acts s' = client_acts s"
  using assms send_reg [OF assms(1)]
  by (auto simp: clib_write_action_response_def client_acts_def split: if_splits sum.splits)

lemma known_action_name: "known_action nm (Some as) = Inr True \<Longrightarrow> \<exists>n \<in> set as. nm = JStr n"
  by (cases nm) (auto simp: known_action_def split: if_splits)

lemma accepts_cases:
  assumes "accepts m (Some as) = Inr True" "wf_members m"
  obtains d where "m = [(REQ_ACTION_REQUEST, d)]" "wf_json d"
    "json_index d REQ_ACTION_TYPE = Inr (JStr REQ_ACTION_TYPE_SHUTDOWN) \<or>
     (\<exists>n \<in> set as. json_index d REQ_ACTION_NAME = Inr (JStr n))"
proof -
  obtain d where m: "m = [(REQ_ACTION_REQUEST, d)]"
    using assms(1) by (cases m) (auto simp: accepts_def split: if_splits)
  moreover have "json_index d REQ_ACTION_TYPE = Inr (JStr REQ_ACTION_TYPE_SHUTDOWN) \<or>
      (\<exists>n \<in> set as. json_index d REQ_ACTION_NAME = Inr (JStr n))"
    using assms(1) m
    by (auto simp: accepts_def bind_res_Inr_iff REQ_ACTION_TYPE_def
        split: if_splits dest: known_action_name)
  ultimately show thesis using that assms(2) by simp
qed

text \<open>Putting back the own queue of the registered service.\<close>

lemma put_own_queue:
  assumes "client_reg s" "cache_svc (th s) = Some i" "cache_ok c" "queue_wf c"
  shows "client_reg (put_svc i ((get_svc i s)\<lparr>svc_s2c := c\<rparr>) s)"
    "own_queue (put_svc i ((get_svc i s)\<lparr>svc_s2c := c\<rparr>) s) = c"
proof -
  have i: "i < num_svc s" "services_ok s"
    using assms(1,2) by (auto simp: client_reg_def clib_ok_def dest: th_ok_svc)
  have "svc_ok ((get_svc i s)\<lparr>svc_s2c := c\<rparr>)"
    using get_svc_ok [OF i(2,1)] assms(3) by (simp add: svc_ok_def)
  note put = put_svc_ok [OF i(2) this, of i]
  show q: "own_queue (put_svc i ((get_svc i s)\<lparr>svc_s2c := c\<rparr>) s) = c"
    using assms(2) i(1) by (simp add: own_queue_def get_put_svc)
  show "client_reg (put_svc i ((get_svc i s)\<lparr>svc_s2c := c\<rparr>) s)"
    using assms put q by (simp add: client_reg_def clib_ok_def)
qed

lemma read_req_now:
  assumes "client_reg s"
  obtains b s1 where "read_req sd 0 env s = Some (b, s1, env)" "client_reg s1"
    "client_acts s1 = client_acts s" "b = Inr True \<longleftrightarrow> has_req s1" "client_pending s1 \<le> client_pending s"
proof (cases "has_req s")
  case True
  then show thesis using assms that [of "Inr True" s] by (simp add: read_req_def)
next
  case False
  obtain i as where i: "cache_svc (th s) = Some i" "actions (th s) = Some as"
    using assms by (auto elim: client_regE)
  have own: "own_queue s = svc_s2c (get_svc i s)" using i by (simp add: own_queue_def)
  have "svc_ok (get_svc i s)"
    using assms i by (auto simp: client_reg_def clib_ok_def intro: get_svc_ok dest: th_ok_svc)
  then have c: "cache_ok (svc_s2c (get_svc i s))" by (simp add: svc_ok_def)
  obtain r c' where r0: "cache_read sd 0 env (svc_s2c (get_svc i s)) = Some (r, c', env)" "cache_ok c'"
      "case contents (svc_s2c (get_svc i s)) of [] \<Rightarrow> r = Inr None \<and> c' = svc_s2c (get_svc i s)
       | m # ms \<Rightarrow> r = Inr (Some m) \<and> contents c' = ms"
    by (rule cache_read_now [OF c])
  note r = r0 [folded own]
  have wf: "queue_wf c'" using r(3) assms
    by (auto simp: client_reg_def queue_wf_def split: list.splits)
  let ?s1 = "put_svc i ((get_svc i s)\<lparr>svc_s2c := c'\<rparr>) s"
  obtain b s2 where k: "keep_req r ?s1 = (b, s2)" by fastforce
  note put = put_own_queue [OF assms i(1) r(2) wf]
  have "\<not> has_req ?s1" "clib_ok ?s1" using False put(1) by (simp_all add: has_req_def client_reg_def)
  note ok = keep_req_ok [OF this(2,1) k]
  have s2: "own_queue s2 = c'" "client_acts s2 = client_acts s" "cache_svc (th s2) = Some i"
    using k put(2) i ok by (auto simp: keep_req_def own_queue_def client_acts_def
        split: sum.splits option.splits if_splits)
  have "case req (th s2) of None \<Rightarrow> True | Some m \<Rightarrow> wf_members m"
    using k put(1) r(3) assms
    by (auto simp: keep_req_def client_reg_def queue_wf_def split: sum.splits option.splits if_splits list.splits)
  then have "client_reg s2" using s2 ok wf by (simp add: client_reg_def)
  moreover have "client_pending s2 \<le> client_pending s"
    using r(3) s2 k False
    by (auto simp: client_pending_def keep_req_def has_req_def split: list.splits)
  moreover have "read_req sd 0 env s = Some (b, s2, env)"
    using False i r0(1) k by (simp add: read_req_def read_from_server_def)
  ultimately show thesis using that ok s2 by blast
qed

lemma read_reg:
  assumes "client_reg s"
  obtains r s' where "clib_read_action_request sd 0 env s = Some (r, s', env)" "client_reg s'"
    "client_acts s' = client_acts s"
    "\<And>body. r = Inr (Some body) \<Longrightarrow> body \<noteq> '''' \<Longrightarrow>
       client_pending s' < client_pending s \<and>
       (\<exists>d. body = dumps d \<and> wf_json d \<and>
          (json_index d REQ_ACTION_TYPE = Inr (JStr REQ_ACTION_TYPE_SHUTDOWN) \<or>
           (\<exists>n \<in> set (client_acts s). json_index d REQ_ACTION_NAME = Inr (JStr n))))"
proof -
  obtain b s1 where q: "read_req sd 0 env s = Some (b, s1, env)" "client_reg s1"
    "client_acts s1 = client_acts s" "b = Inr True \<longleftrightarrow> has_req s1" "client_pending s1 \<le> client_pending s"
    using assms by (rule read_req_now)
  have init: "is_initialized s" using assms by (simp add: client_reg_def is_initialized_def)
  show thesis
  proof (cases "has_req s1")
    case False
    then obtain r where "clib_read_action_request sd 0 env s = Some (r, s1, env)"
        "\<forall>body. r = Inr (Some body) \<longrightarrow> body = ''''"
      using q init by (cases b) (auto simp: clib_read_action_request_def)
    then show thesis using q by (intro that [of r s1]) auto
  next
    case True
    then obtain m where m: "req (th s1) = Some m" by (auto simp: has_req_def split: option.splits)
    obtain as where as: "actions (th s1) = Some as" using q(2) by (auto elim: client_regE)
    have "accepts m (Some as) = Inr True" "wf_members m"
      using q(2) m as by (simp_all add: client_reg_def clib_ok_def th_ok_def)
    then obtain d where d: "m = [(REQ_ACTION_REQUEST, d)]" "wf_json d"
        "json_index d REQ_ACTION_TYPE = Inr (JStr REQ_ACTION_TYPE_SHUTDOWN) \<or>
         (\<exists>n \<in> set as. json_index d REQ_ACTION_NAME = Inr (JStr n))"
      by (rule accepts_cases)
    let ?s = "s1\<lparr>th := (th s1)\<lparr>req := None\<rparr>\<rparr>"
    have "client_reg ?s" using q(2) clear_req_ok [of s1] by (simp add: client_reg_def own_queue_def)
    moreover have "client_pending ?s < client_pending s"
      using q(5) True by (simp add: client_pending_def own_queue_def has_req_def)
    moreover have "clib_read_action_request sd 0 env s = Some (Inr (Some (dumps d)), ?s, env)"
      using q init True m d(1) by (simp add: clib_read_action_request_def)
    moreover have "client_acts ?s = client_acts s" "client_acts s = as"
      using q(3) as by (simp_all add: client_acts_def)
    ultimately show thesis using d by (intro that [of "Inr (Some (dumps d))" ?s]) auto
  qed
qed

section \<open>Polling keeps the registration\<close>

lemma deliver_reg:
  assumes "client_reg s" "cache_svc (th s) = Some i" "list_all wf_members ms"
  shows "client_reg (deliver i ms s)"
proof -
  have "svc_ok (get_svc i s)"
    using assms by (auto simp: client_reg_def clib_ok_def intro: get_svc_ok dest: th_ok_svc)
  then have c: "cache_ok (svc_s2c (get_svc i s))" by (simp add: svc_ok_def)
  have "queue_wf (svc_s2c (get_svc i s))"
    using assms(1,2) by (simp add: client_reg_def own_queue_def)
  then have "queue_wf (write_all ms (svc_s2c (get_svc i s)))"
    using write_all_ok [OF c, of ms] assms(3) by (auto simp: queue_wf_def list_all_iff dest: in_set_takeD)
  then show ?thesis
    using put_own_queue [OF assms(1,2)] write_all_ok [OF c, of ms] by (simp add: deliver_def)
qed

lemma poll_fds_reg:
  assumes "poll_fds False (client_select i lst) timeout env s = Some (r, env', s')"
    "client_reg s" "cache_svc (th s) = Some i" "env_wf env"
  shows "client_reg s' \<and> th s' = th s \<and> env_wf env'"
  using assms
proof (induction env arbitrary: timeout s)
  case (Cons e es)
  obtain r1 s1 where r1: "client_select i lst s e = (r1, s1)" by fastforce
  have s1: "client_reg s1" "th s1 = th s"
    using r1 deliver_reg [OF Cons.prems(2,3), of "arrivals e"] Cons.prems(4)
    by (auto simp: client_select_def Let_def env_wf_def deliver_def)
  show ?case
  proof (cases "r1 \<noteq> [] \<or> s1 = s' \<and> r = [] \<and> env' = es")
    case True
    then show ?thesis using Cons.prems s1 r1 by (auto simp: Let_def env_wf_def split: if_splits)
  next
    case False
    then obtain t where "poll_fds False (client_select i lst) t es s1 = Some (r, env', s')"
      using Cons.prems(1) r1 by (auto simp: Let_def split: if_splits)
    then show ?thesis using Cons.IH [of t s1] s1 Cons.prems(3,4) by (simp add: env_wf_def)
  qed
qed simp

lemma poll_data_loop_reg:
  "poll_data_loop False i fd lst timeout env s = Some (r, env', s') \<Longrightarrow> client_reg s \<Longrightarrow>
   cache_svc (th s) = Some i \<Longrightarrow> env_wf env \<Longrightarrow>
   client_reg s' \<and> client_acts s' = client_acts s \<and> env_wf env'"
proof (induction "length env" arbitrary: env s rule: less_induct)
  case less
  obtain r1 env1 s1 where p: "poll_fds False (client_select i lst) timeout env s = Some (r1, env1, s1)"
    using less.prems(1) by (subst (asm) poll_data_loop.simps) (auto split: option.splits)
  note shorter = poll_consumes [OF p]
  have ok: "client_reg s1" "th s1 = th s" "env_wf env1"
    using poll_fds_reg [OF p less.prems(2-4)] by simp_all
  obtain b s2 where q: "read_req False 0 [] s1 = Some (b, s2, [])" "client_reg s2"
    "client_acts s2 = client_acts s1"
    using ok(1) by (rule read_req_now)
  have i2: "cache_svc (th s2) = Some i"
    using read_req_ok [OF _ q(1)] ok less.prems(3) by (simp add: client_reg_def)
  have acts: "client_acts s1 = client_acts s" using ok(2) by (simp add: client_acts_def)
  have step: "Some (r, env', s') =
      (if r1 \<noteq> [] then
         if fd \<in> set r1 then
           (case b of
              Inl e \<Rightarrow> Some (Inl e, env1, s2)
            | Inr _ \<Rightarrow>
                if has_req s2 then Some (Inr (Some (- 1)), env1, s2)
                else poll_data_loop False i fd lst timeout env1 s2)
         else Some (Inr (Some (hd r1)), env1, s1)
       else if timeout > 0 then Some (Inr (Some (- 2)), env1, s1)
       else poll_data_loop False i fd lst timeout env1 s1)"
    using less.prems(1) p q(1) by (subst (asm) poll_data_loop.simps) (simp cong: if_cong sum.case_cong)
  show ?case
  proof (cases "s' = s1 \<and> env' = env1 \<or> s' = s2 \<and> env' = env1")
    case True
    then show ?thesis using ok q acts by auto
  next
    case False
    then have "poll_data_loop False i fd lst timeout env1 s2 = Some (r, env', s') \<or>
        poll_data_loop False i fd lst timeout env1 s1 = Some (r, env', s')"
      using step by (auto split: if_splits sum.splits)
    then show ?thesis
      using less.hyps [OF shorter, of s2] less.hyps [OF shorter, of s1] ok q acts i2 less.prems(3) by auto
  qed
qed

section \<open>The contract holds\<close>

definition tw_live :: "test_world \<Rightarrow> bool" where
  "tw_live w \<longleftrightarrow> tw_reg w \<and> \<not> tw_shutdown w"

interpretation testlib: client_library test_api "\<lambda>w. tw_up w \<and> \<not> tw_shutdown w" tw_live tw_acts tw_pending
proof unfold_locales
  fix l l' :: test_world and nm
  assume "tw_up l \<and> \<not> tw_shutdown l" "api_register_client test_api nm l = (Inr (Some 0), l')"
  then show "tw_live l' \<and> tw_acts l' = []"
    using register_reg [of "tw_lib l" nm]
    by (auto simp: api_simps tw_up_def tw_reg_def tw_live_def tw_acts_def split: prod.splits)
next
  fix l l' :: test_world and a r
  assume "tw_live l" "api_register_action test_api a l = (r, l')"
  then show "tw_live l' \<and>
      (if r = Inr (Some 0) then a \<notin> set (tw_acts l) \<and> tw_acts l' = tw_acts l @ [a] else tw_acts l' = tw_acts l)"
    using register_action_reg [of "tw_lib l" a r]
    by (auto simp: api_simps tw_reg_def tw_live_def tw_acts_def split: prod.splits)
next
  fix l l' :: test_world and a i r
  assume "tw_live l" "api_touch_heartbeat test_api a i l = (r, l')"
  then show "tw_live l' \<and> tw_acts l' = tw_acts l"
    using heartbeat_reg [of "tw_lib l" a i r]
    by (auto simp: api_simps tw_reg_def tw_live_def tw_acts_def split: prod.splits)
next
  fix l l' :: test_world and t r
  assume "tw_live l" "api_write_action_response test_api t l = (r, l')"
  then show "tw_live l' \<and> tw_acts l' = tw_acts l"
    using respond_reg [of "tw_lib l" t r]
    by (auto simp: api_simps tw_reg_def tw_live_def tw_acts_def split: prod.splits)
next
  fix l :: test_world
  assume l: "tw_live l"
  have now: "\<exists>r s'. api_read_action_request test_api 0 l =
      Some (r, l\<lparr>tw_lib := s', tw_env := tw_env l\<rparr>) \<and> client_reg s' \<and> client_acts s' = client_acts (tw_lib l) \<and>
      (\<forall>body. r = Inr (Some body) \<longrightarrow> body \<noteq> '''' \<longrightarrow>
         client_pending s' < client_pending (tw_lib l) \<and>
         (\<exists>d. body = dumps d \<and> wf_json d \<and>
            (json_index d REQ_ACTION_TYPE = Inr (JStr REQ_ACTION_TYPE_SHUTDOWN) \<or>
             (\<exists>n \<in> set (client_acts (tw_lib l)). json_index d REQ_ACTION_NAME = Inr (JStr n)))))"
  proof -
    have "client_reg (tw_lib l)" using l by (simp add: tw_live_def tw_reg_def)
    then obtain r s' where "clib_read_action_request (tw_shutdown l) 0 (map arrivals (tw_env l)) (tw_lib l) =
        Some (r, s', map arrivals (tw_env l))" "client_reg s'" "client_acts s' = client_acts (tw_lib l)"
      "\<And>body. r = Inr (Some body) \<Longrightarrow> body \<noteq> '''' \<Longrightarrow>
         client_pending s' < client_pending (tw_lib l) \<and>
         (\<exists>d. body = dumps d \<and> wf_json d \<and>
            (json_index d REQ_ACTION_TYPE = Inr (JStr REQ_ACTION_TYPE_SHUTDOWN) \<or>
             (\<exists>n \<in> set (client_acts (tw_lib l)). json_index d REQ_ACTION_NAME = Inr (JStr n))))"
      by (rule read_reg [where sd = "tw_shutdown l" and env = "map arrivals (tw_env l)"]) blast
    then show ?thesis by (intro exI [of _ r] exI [of _ s']) (simp add: api_simps test_read_def)
  qed
  show "\<exists>v l'. api_read_action_request test_api 0 l = Some (v, l')" using now by blast
  show "tw_live l' \<and> tw_acts l' = tw_acts l" if "api_read_action_request test_api 0 l = Some (v, l')" for v l'
    using now that l by (auto simp: tw_live_def tw_reg_def tw_acts_def)
  show "tw_pending l' < tw_pending l \<and> (\<exists>d. t = dumps d \<and> wf_json d \<and>
      (json_index d REQ_ACTION_TYPE = Inr (JStr REQ_ACTION_TYPE_SHUTDOWN) \<or>
       (\<exists>n \<in> set (tw_acts l). json_index d REQ_ACTION_NAME = Inr (JStr n))))"
    if "api_read_action_request test_api 0 l = Some (Inr (Some t), l')" "t \<noteq> ''''" for t l'
    using now that by (auto simp: tw_acts_def tw_pending_def)
next
  fix l l' :: test_world and fds n tmo r
  assume l: "tw_live l" and p: "api_poll_for_data test_api fds n tmo l = Some (r, l')"
  then obtain i where i: "cache_svc (th (tw_lib l)) = Some i"
    by (auto simp: tw_live_def tw_reg_def elim: client_regE)
  with p l obtain env' s' where "l' = l\<lparr>tw_lib := s', tw_env := env'\<rparr>"
    "\<exists>fd lst. poll_data_loop False i fd lst tmo (tw_env l) (tw_lib l) = Some (r, env', s')"
    by (auto simp: api_simps test_poll_def clib_poll_for_data_def Let_def tw_live_def split: option.splits)
  then show "tw_live l' \<and> tw_acts l' = tw_acts l"
    using l i poll_data_loop_reg [of i _ _ tmo "tw_env l" "tw_lib l" r env' s']
    by (auto simp: tw_live_def tw_reg_def tw_acts_def)
qed

section \<open>Properties\<close>

lemma created_up: "client_up (create_cache_services pipes n new_clib)"
proof -
  have "queue_wf (svc_s2c (new_cache_service lim p q))" for lim p q
    by (simp add: new_cache_service_def queue_wf_def)
  then show ?thesis using created_ok [of pipes n]
    by (auto simp: client_up_def create_cache_services_def Let_def new_clib_def new_th_def list_all_iff)
qed

lemma test_pointers_bound:
  "n \<in> set ns \<Longrightarrow> map_of (fold (\<lambda>n ps. AList.update n api ps) ns ps) n = Some api"
proof (induction ns arbitrary: ps rule: rev_induct)
  case (snoc m ns)
  then show ?case by (cases "n = m") (simp_all add: update_conv')
qed simp


definition sample_world :: test_world where
  "sample_world = \<lparr>tw_cfg = sample_config, tw_lib = new_clib, tw_env = [], tw_shutdown = False\<rparr>"

definition sample_bind :: "test_world bind" where
  "sample_bind = \<lparr>clib_dll = No_Dll, TEST_RUN = True, ptrs = [], gvars_set = [], lib = sample_world\<rparr>"

definition sample_pipes :: "nat \<Rightarrow> int \<times> int" where
  "sample_pipes k = (int (2 * k) + 3, int (2 * k) + 4)"

definition no_cdll :: "test_world cdll" where
  "no_cdll = \<lparr>cdll_opens = False, cdll_symbols = [], cdll_strings = [], cdll_api = test_api\<rparr>"

definition loaded_bind :: "test_world bind" where
  "loaded_bind = snd (c_lib_init common_names no_cdll test_api (test_init sample_pipes) sample_bind)"

lemma sample_init: "c_lib_init common_names no_cdll test_api (test_init sample_pipes) sample_bind = (Inr True, loaded_bind)"
  by (simp add: loaded_bind_def c_lib_init_def sample_bind_def sample_world_def test_init_def clib_init_def
      sample_plugins_conf sample_plugins_def)


end
