(* ===== verification/PluginInterface.thy ===== *)
theory PluginInterface
  imports ActionMsg
begin

text \<open>
  What the plugin process relies on when it hands a request to a plugin. A plugin's
  \<^verbatim>\<open>request\<close> method runs in a thread of its own and is a sequence of steps: each step either
  calls back with a heartbeat and goes on, or ends the method with a value (\<^verbatim>\<open>None\<close> or a
  response) or an exception. An event is what the plugin sees of the world in one step.
\<close>

datatype 'p plugin_step =
    Beat json 'p
  | Done "action_response option res" 'p

text \<open>
  Running \<^verbatim>\<open>request\<close> over the events to come: the heartbeats, the outcome (\<open>None\<close> while the
  method has not ended), the plugin's state and the events it has not seen.
\<close>

fun run_plugin ::
  "('e \<Rightarrow> 'p \<Rightarrow> 'p plugin_step) \<Rightarrow> 'e list \<Rightarrow> 'p
   \<Rightarrow> json list \<times> action_response option res option \<times> 'p \<times> 'e list"
where
  "run_plugin step [] p = ([], None, p, [])"
| "run_plugin step (e # es) p =
     (case step e p of
        Done r p' \<Rightarrow> ([], Some r, p', es)
      | Beat i p' \<Rightarrow> (case run_plugin step es p' of (bs, out) \<Rightarrow> (i # bs, out)))"

text \<open>A response of the action \<open>nm\<close> to the request with the attributes \<open>a\<close>.\<close>

definition answers :: "string \<Rightarrow> action_attrs \<Rightarrow> action_response \<Rightarrow> bool" where
  "answers nm a r \<longleftrightarrow>
     (\<exists>ak adata rc rstr. wf_json ak \<and>
        r = new_action_response nm (attr_instance_id a) (attr_anomaly_instance_id a) ak adata rc rstr)"

lemma answersI [intro!]:
  "wf_json ak \<Longrightarrow>
   answers nm a (new_action_response nm (attr_instance_id a) (attr_anomaly_instance_id a) ak adata rc rstr)"
  unfolding answers_def by blast

lemma answers_parsed:
  assumes "answers nm a r" "attrs_wf a"
  obtains d where "loads (response_value r) = Inr d"
    "json_index d REQ_ACTION_NAME = Inr (JStr nm)"
    "json_index d REQ_INSTANCE_ID = Inr (attr_instance_id a)"
    "json_index d REQ_ANOMALY_INSTANCE_ID = Inr (attr_anomaly_instance_id a)"
    "json_index d REQ_ACTION_TYPE = Inr (JStr REQ_ACTION_TYPE_ACTION)"
proof -
  obtain ak adata rc rstr where r: "wf_json ak"
      "r = new_action_response nm (attr_instance_id a) (attr_anomaly_instance_id a) ak adata rc rstr"
    using assms(1) by (auto simp: answers_def)
  let ?d = "response_dict nm (attr_instance_id a) (attr_anomaly_instance_id a) ak adata rc rstr"
  have "loads (response_value r) = Inr ?d"
    using r assms(2) by (simp add: response_parsed attrs_wf_def)
  then show thesis by (rule that) (simp_all add: response_dict_def msg_defs)
qed

section \<open>The contract of a plugin\<close>

text \<open>
  Heartbeats carry the instance the request named and keep the plugin well-formed; a response answers the
  request; a plugin ends with \<^verbatim>\<open>None\<close> only when it was told to stop. A request's attributes come
  from parsed text.
\<close>

definition request_wf :: "action_request \<Rightarrow> bool" where
  "request_wf rq \<longleftrightarrow> (\<forall>a. attrs rq = Some a \<longrightarrow> attrs_wf a)"

lemma parsed_request_wf: "new_action_request t = Inr rq \<Longrightarrow> request_wf rq"
  using request_attrs_wf by (simp add: request_wf_def)

locale request_plugin =
  fixes step :: "action_request \<Rightarrow> 'e \<Rightarrow> 'p \<Rightarrow> 'p plugin_step"
    and nm :: "'p \<Rightarrow> string"
    and stopping :: "'e \<Rightarrow> 'p \<Rightarrow> bool"
    and ok :: "'p \<Rightarrow> bool"
  assumes beat_instance: "step rq e p = Beat i p' \<Longrightarrow> req_instance_id rq = Inr i \<and> nm p' = nm p"
    and beat_ok: "step rq e p = Beat i p' \<Longrightarrow> request_wf rq \<Longrightarrow> ok p \<Longrightarrow> ok p'"
    and done_answers:
      "step rq e p = Done (Inr (Some r)) p' \<Longrightarrow> ok p \<Longrightarrow> attrs rq = Some a \<Longrightarrow> attrs_wf a \<Longrightarrow> answers (nm p) a r"
    and done_attrs: "step rq e p = Done (Inr (Some r)) p' \<Longrightarrow> attrs rq \<noteq> None"
    and done_none: "step rq e p = Done (Inr None) p' \<Longrightarrow> stopping e p"
begin

lemma run_beats: "i \<in> set (fst (run_plugin (step rq) es p)) \<Longrightarrow> req_instance_id rq = Inr i"
proof (induction es arbitrary: p)
  case (Cons e es)
  show ?case
  proof (cases "step rq e p")
    case (Beat j q)
    then show ?thesis using Cons beat_instance [OF Beat]
      by (auto simp: case_prod_beta)
  next
    case (Done out q)
    then show ?thesis using Cons.prems by simp
  qed
qed simp

lemma run_response:
  "run_plugin (step rq) es p = (bs, Some (Inr (Some r)), p', rest) \<Longrightarrow> request_wf rq \<Longrightarrow> ok p \<Longrightarrow>
   \<exists>a. attrs rq = Some a \<and> answers (nm p) a r"
proof (induction es arbitrary: p bs)
  case (Cons e es)
  show ?case
  proof (cases "step rq e p")
    case (Beat i q)
    then obtain bs' where "run_plugin (step rq) es q = (bs', Some (Inr (Some r)), p', rest)"
      using Cons.prems(1) by (auto split: prod.splits)
    then show ?thesis
      using Cons.IH [of q bs'] Cons.prems(2,3) beat_instance [OF Beat] beat_ok [OF Beat] by simp
  next
    case (Done out q)
    then have "step rq e p = Done (Inr (Some r)) q" using Cons.prems(1) by simp
    then show ?thesis using done_answers [OF _ Cons.prems(3)] done_attrs Cons.prems(2)
      by (fastforce simp: request_wf_def)
  qed
qed simp

text \<open>The server reads in the response the instance and the anomaly it asked about.\<close>

lemma response_echoes:
  assumes "new_action_request t = Inr rq" "ok p"
    "run_plugin (step rq) es p = (bs, Some (Inr (Some r)), p', rest)"
  shows "\<exists>a d. attrs rq = Some a \<and> loads (response_value r) = Inr d \<and>
    json_index d REQ_ACTION_NAME = Inr (JStr (nm p)) \<and>
    json_index d REQ_INSTANCE_ID = Inr (attr_instance_id a) \<and>
    json_index d REQ_ANOMALY_INSTANCE_ID = Inr (attr_anomaly_instance_id a)"
proof -
  obtain a where a: "attrs rq = Some a" "answers (nm p) a r"
    using run_response [OF assms(3) parsed_request_wf [OF assms(1)] assms(2)] by blast
  then have "attrs_wf a" using request_attrs_wf [OF assms(1)] by auto
  with a show ?thesis by (elim answers_parsed) auto
qed

end

end
