(* ===== verification/LinkFlap.thy ===== *)
theory LinkFlap
  imports PluginInterface Config
begin

text \<open>
  The plugin that detects a flapping link (\<^verbatim>\<open>vendors/sonic/actions/link_flap.py\<close>). It keeps
  for every interface the times of its last \<^verbatim>\<open>flap_cnt\<close> "down" events and answers a request
  when the oldest and the newest of a full window are at most \<^verbatim>\<open>flap_int\<close> seconds apart. The
  event service and its handle are parameters.
\<close>

text \<open>
  One round of the loop: whether \<^verbatim>\<open>shutdown\<close> was called since the last round, what
  \<^verbatim>\<open>event_receive\<close> returned with which key and parameters, and the clock after it.
\<close>

record flap_event =
  ev_stop :: bool
  ev_ret :: int
  ev_key :: string
  ev_params :: "(string, string) dict"
  ev_time :: int

record 'h link_flap =
  lf_name :: string
  flap_int :: int
  flap_cnt :: nat
  flaps :: "(string, int list) dict"
  shutdown_flag :: bool
  hb_int :: json
  handle :: 'h

text \<open>\<^verbatim>\<open>v * 1000\<close> for a value of the configuration.\<close>

fun times_1000 :: "json \<Rightarrow> json res" where
  "times_1000 (JInt i) = Inr (JInt (i * 1000))"
| "times_1000 (JBool b) = Inr (JInt (if b then 1000 else 0))"
| "times_1000 (JStr s) = Inr (JStr (concat (replicate 1000 s)))"
| "times_1000 (JArr xs) = Inr (JArr (concat (replicate 1000 xs)))"
| "times_1000 _ = Inl TypeError"

definition new_link_flap :: "(json option \<Rightarrow> 'h res) \<Rightarrow> json \<Rightarrow> 'h link_flap res" where
  "new_link_flap events_init_subscriber config =
     bind_res (json_get config REQ_HEARTBEAT_INTERVAL (JInt 2)) (\<lambda>hb.
     bind_res (times_1000 hb) (\<lambda>t.
     bind_res (events_init_subscriber (Some t)) (\<lambda>h.
       Inr \<lparr>lf_name = ''link_flap'', flap_int = 15, flap_cnt = 2, flaps = [], shutdown_flag = False,
            hb_int = hb, handle = h\<rparr>)))"

definition lf_getName :: "'h link_flap \<Rightarrow> string" where
  "lf_getName p = lf_name p"

definition lf_is_valid :: "'h link_flap \<Rightarrow> bool" where
  "lf_is_valid p = True"

definition get_resp :: "string \<Rightarrow> int \<Rightarrow> 'h link_flap \<Rightarrow> string" where
  "get_resp ifname interval p =
     dumps (JObj [(''ifname'', JStr ifname), (''duration'', JInt interval),
                  (''cnt'', JInt (int (flap_cnt p)))])"

definition lf_shutdown :: "'h link_flap \<Rightarrow> 'h link_flap" where
  "lf_shutdown p = p\<lparr>shutdown_flag := True\<rparr>"

text \<open>\<^verbatim>\<open>while len(lst) > self.flap_cnt: lst.pop(0)\<close>\<close>

fun trim :: "nat \<Rightarrow> int list \<Rightarrow> int list" where
  "trim n [] = []"
| "trim n (t # ts) = (if length (t # ts) > n then trim n ts else t # ts)"

text \<open>Append the time to the interface's list, or start one, and drop the oldest times.\<close>

definition note_down :: "string \<Rightarrow> int \<Rightarrow> 'h link_flap \<Rightarrow> 'h link_flap" where
  "note_down ifname now p =
     (let lst = (case map_of (flaps p) ifname of None \<Rightarrow> [now] | Some ts \<Rightarrow> ts @ [now])
      in p\<lparr>flaps := AList.update ifname (trim (flap_cnt p) lst) (flaps p)\<rparr>)"

text \<open>The interval to report for an interface, if its window is full and short enough.\<close>

definition flap_interval :: "string \<Rightarrow> 'h link_flap \<Rightarrow> int option res" where
  "flap_interval ifname p =
     bind_res (dict_index (flaps p) ifname) (\<lambda>lst.
       if length lst = flap_cnt p then
         bind_res (list_index lst (- 1)) (\<lambda>newest.
         bind_res (list_index lst 0) (\<lambda>oldest.
           if newest - oldest \<le> flap_int p then Inr (Some (newest - oldest)) else Inr None))
       else Inr None)"

definition flap_response :: "action_request \<Rightarrow> string \<Rightarrow> int \<Rightarrow> 'h link_flap \<Rightarrow> action_response option res" where
  "flap_response rq ifname interval p =
     bind_res (req_instance_id rq) (\<lambda>inst.
     bind_res (req_anomaly_instance_id rq) (\<lambda>ai.
       Inr (Some (new_action_response (lf_name p) inst ai (JStr ifname) (get_resp ifname interval p) 0 ''''))))"

definition lf_beat :: "action_request \<Rightarrow> 'h link_flap \<Rightarrow> 'h link_flap plugin_step" where
  "lf_beat rq p = (case req_instance_id rq of Inl e \<Rightarrow> Done (Inl e) p | Inr i \<Rightarrow> Beat i p)"

definition lf_step :: "action_request \<Rightarrow> flap_event \<Rightarrow> 'h link_flap \<Rightarrow> 'h link_flap plugin_step" where
  "lf_step rq e p0 =
     (let p = (if ev_stop e then lf_shutdown p0 else p0) in
      if shutdown_flag p then Done (Inr None) p
      else if ev_ret e = 0 \<and> ev_key e = ''sonic-events-swss:if-state'' then
        (case dict_index (ev_params e) ''status'' of
           Inl er \<Rightarrow> Done (Inl er) p
         | Inr st \<Rightarrow>
             if st \<noteq> ''down'' then lf_beat rq p
             else
               (case dict_index (ev_params e) ''ifname'' of
                  Inl er \<Rightarrow> Done (Inl er) p
                | Inr ifname \<Rightarrow>
                    let p' = note_down ifname (ev_time e) p in
                    (case flap_interval ifname p' of
                       Inl er \<Rightarrow> Done (Inl er) p'
                     | Inr (Some interval) \<Rightarrow> Done (flap_response rq ifname interval p') p'
                     | Inr None \<Rightarrow> lf_beat rq p')))
      else lf_beat rq p)"

text \<open>\<^verbatim>\<open>request\<close> over the rounds to come.\<close>

definition lf_request ::
  "action_request \<Rightarrow> flap_event list \<Rightarrow> 'h link_flap
   \<Rightarrow> json list \<times> action_response option res option \<times> 'h link_flap \<times> flap_event list"
where
  "lf_request rq es p = run_plugin (lf_step rq) es p"

section \<open>The plugin keeps its contract\<close>

lemma note_down_fields [simp]:
  "lf_name (note_down i t p) = lf_name p" "flap_cnt (note_down i t p) = flap_cnt p"
  "flap_int (note_down i t p) = flap_int p" "shutdown_flag (note_down i t p) = shutdown_flag p"
  by (simp_all add: note_down_def Let_def)

lemma lf_shutdown_fields [simp]: "lf_name (lf_shutdown p) = lf_name p" "shutdown_flag (lf_shutdown p)"
  by (simp_all add: lf_shutdown_def)

lemma lf_beat_cases:
  "lf_beat rq p = Beat i p' \<longleftrightarrow> req_instance_id rq = Inr i \<and> p' = p"
  "lf_beat rq p = Done r p' \<longleftrightarrow> p' = p \<and> (\<exists>e. req_instance_id rq = Inl e \<and> r = Inl e)"
  by (auto simp: lf_beat_def split: sum.splits)

lemma flap_response_answers:
  assumes "flap_response rq ifname interval p = Inr r"
  shows "\<exists>a x. attrs rq = Some a \<and> r = Some x \<and> answers (lf_name p) a x"
proof -
  obtain a where a: "attrs rq = Some a"
    using assms by (auto simp: flap_response_def bind_res_Inr_iff req_attr_defs split: option.splits)
  then show ?thesis using assms
    by (auto simp: flap_response_def req_attr_defs)
qed

lemma lf_step_beat: "lf_step rq e p = Beat i p' \<Longrightarrow> req_instance_id rq = Inr i \<and> lf_name p' = lf_name p"
  by (auto simp: lf_step_def Let_def lf_beat_cases split: if_splits sum.splits option.splits)

lemma lf_step_done:
  assumes "lf_step rq e p = Done (Inr r) p'"
  shows "r = None \<and> (ev_stop e \<or> shutdown_flag p) \<or>
    (\<exists>a x. attrs rq = Some a \<and> r = Some x \<and> answers (lf_name p) a x)"
  using assms
  by (auto simp: lf_step_def Let_def lf_beat_cases split: if_splits sum.splits option.splits
      dest: flap_response_answers)

interpretation flap: request_plugin lf_step lf_name "\<lambda>e p. ev_stop e \<or> shutdown_flag p" "\<lambda>_. True"
  by unfold_locales (auto dest: lf_step_beat lf_step_done)

section \<open>The window is the time of the previous down event\<close>

text \<open>The interface an event reports down.\<close>

definition down_if :: "flap_event \<Rightarrow> string option" where
  "down_if e =
     (if ev_ret e = 0 \<and> ev_key e = ''sonic-events-swss:if-state'' \<and> map_of (ev_params e) ''status'' = Some ''down''
      then map_of (ev_params e) ''ifname'' else None)"

text \<open>An event that carries the parameters of its key, and no stop.\<close>

definition complete :: "flap_event \<Rightarrow> bool" where
  "complete e \<longleftrightarrow> \<not> ev_stop e \<and>
     (ev_ret e = 0 \<and> ev_key e = ''sonic-events-swss:if-state'' \<longrightarrow>
        (\<exists>st. map_of (ev_params e) ''status'' = Some st \<and>
           (st = ''down'' \<longrightarrow> map_of (ev_params e) ''ifname'' \<noteq> None)))"

text \<open>
  The specification: remember the time of the last down event of every interface, and report
  the first interface that goes down again within 15 seconds.
\<close>

fun flap_spec ::
  "(string \<Rightarrow> int option) \<Rightarrow> flap_event list \<Rightarrow> (string \<times> int) option \<times> (string \<Rightarrow> int option) \<times> flap_event list"
where
  "flap_spec lst [] = (None, lst, [])"
| "flap_spec lst (e # es) =
     (case down_if e of
        None \<Rightarrow> flap_spec lst es
      | Some i \<Rightarrow>
          (case lst i of
             Some t \<Rightarrow>
               if ev_time e - t \<le> 15 then (Some (i, ev_time e - t), lst(i \<mapsto> ev_time e), es)
               else flap_spec (lst(i \<mapsto> ev_time e)) es
           | None \<Rightarrow> flap_spec (lst(i \<mapsto> ev_time e)) es))"

definition slot :: "int list option \<Rightarrow> int option \<Rightarrow> bool" where
  "slot lst last_down \<longleftrightarrow>
     (case lst of
        None \<Rightarrow> last_down = None
      | Some ts \<Rightarrow> (\<exists>us t. ts = us @ [t] \<and> length us \<le> 1 \<and> last_down = Some t))"

definition window :: "(string \<Rightarrow> int option) \<Rightarrow> 'h link_flap \<Rightarrow> bool" where
  "window lst p \<longleftrightarrow> flap_cnt p = 2 \<and> flap_int p = 15 \<and> \<not> shutdown_flag p \<and>
     (\<forall>i. slot (map_of (flaps p) i) (lst i))"

lemma window_new: "new_link_flap sub config = Inr p \<Longrightarrow> window (\<lambda>_. None) p \<and> lf_name p = ''link_flap''"
  by (auto simp: new_link_flap_def bind_res_Inr_iff window_def slot_def)

lemma trim_window: "length us \<le> 1 \<Longrightarrow> trim 2 (us @ [t, u]) = [t, u]"
  by (cases us) auto

lemma window_down:
  assumes "window lst p"
  shows "window (lst(i \<mapsto> t)) (note_down i t p)"
    "flap_interval i (note_down i t p) =
     Inr (case lst i of None \<Rightarrow> None | Some s \<Rightarrow> if t - s \<le> 15 then Some (t - s) else None)"
proof -
  have p: "flap_cnt p = 2" "flap_int p = 15" using assms by (simp_all add: window_def)
  have i: "slot (map_of (flaps p) j) (lst j)" for j using assms by (simp add: window_def)
  have new: "map_of (flaps (note_down i t p)) i = Some (case lst i of None \<Rightarrow> [t] | Some s \<Rightarrow> [s, t])"
    using i [of i] p by (auto simp: slot_def note_down_def update_conv trim_window split: option.splits)
  moreover have "map_of (flaps (note_down i t p)) j = map_of (flaps p) j" if "j \<noteq> i" for j
    using that by (simp add: note_down_def update_conv Let_def)
  moreover have "slot (Some (case lst i of None \<Rightarrow> [t] | Some s \<Rightarrow> [s, t])) (Some t)"
    by (auto simp: slot_def split: option.splits)
  ultimately have "slot (map_of (flaps (note_down i t p)) j) ((lst(i \<mapsto> t)) j)" for j
    using i [of j] by (cases "j = i") simp_all
  then show "window (lst(i \<mapsto> t)) (note_down i t p)"
    using assms by (simp add: window_def)
  show "flap_interval i (note_down i t p) =
     Inr (case lst i of None \<Rightarrow> None | Some s \<Rightarrow> if t - s \<le> 15 then Some (t - s) else None)"
    using new p by (auto simp: flap_interval_def dict_index_def list_index_def split: option.splits)
qed

text \<open>The report of an interface in the plugin's response.\<close>

definition flap_report :: "action_attrs \<Rightarrow> string \<Rightarrow> int \<Rightarrow> action_response" where
  "flap_report a i d =
     new_action_response ''link_flap'' (attr_instance_id a) (attr_anomaly_instance_id a) (JStr i)
       (dumps (JObj [(''ifname'', JStr i), (''duration'', JInt d), (''cnt'', JInt 2)])) 0 ''''"

lemma lf_step_complete:
  assumes "complete e" "window lst p" "attrs rq = Some a" "lf_name p = ''link_flap''"
  shows "lf_step rq e p =
    (case down_if e of
       None \<Rightarrow> Beat (attr_instance_id a) p
     | Some i \<Rightarrow>
         let p' = note_down i (ev_time e) p in
         (case lst i of
            None \<Rightarrow> Beat (attr_instance_id a) p'
          | Some t \<Rightarrow>
              if ev_time e - t \<le> 15 then Done (Inr (Some (flap_report a i (ev_time e - t)))) p'
              else Beat (attr_instance_id a) p'))"
proof -
  have p: "\<not> shutdown_flag p" "\<not> ev_stop e" "flap_cnt p = 2"
    using assms by (simp_all add: window_def complete_def)
  have rq: "req_instance_id rq = Inr (attr_instance_id a)"
    "req_anomaly_instance_id rq = Inr (attr_anomaly_instance_id a)"
    using assms(3) by (simp_all add: req_attr_defs)
  show ?thesis
  proof (cases "down_if e")
    case None
    then show ?thesis using assms(1) p rq
      by (auto simp: lf_step_def down_if_def complete_def lf_beat_def dict_index_def split: if_splits)
  next
    case (Some i)
    then have "ev_ret e = 0" "ev_key e = ''sonic-events-swss:if-state''"
      "map_of (ev_params e) ''status'' = Some ''down''" "map_of (ev_params e) ''ifname'' = Some i"
      by (auto simp: down_if_def split: if_splits)
    then show ?thesis using Some p rq assms(4) window_down(2) [OF assms(2), of i "ev_time e"]
      by (simp add: lf_step_def lf_beat_def dict_index_def Let_def flap_response_def flap_report_def
          get_resp_def split: option.split)
  qed
qed

lemma lf_request_spec:
  assumes "list_all complete es" "window lst p" "attrs rq = Some a" "lf_name p = ''link_flap''"
    "flap_spec lst es = (found, lst', rest)"
  shows "\<exists>p'. lf_request rq es p =
      (replicate (length es - length rest - (if found = None then 0 else 1)) (attr_instance_id a),
       map_option (\<lambda>(i, d). Inr (Some (flap_report a i d))) found, p', rest) \<and>
    window lst' p' \<and> lf_name p' = ''link_flap'' \<and> length rest + (if found = None then 0 else 1) \<le> length es"
  using assms
proof (induction es arbitrary: lst p)
  case Nil
  then show ?case by (simp add: lf_request_def)
next
  case (Cons e es)
  have step: "complete e" "list_all complete es" using Cons.prems(1) by simp_all
  note s = lf_step_complete [OF step(1) Cons.prems(2-4)]
  have go: ?case if q: "lf_step rq e p = Beat (attr_instance_id a) q" "window lst1 q" "lf_name q = ''link_flap''"
    "flap_spec lst1 es = (found, lst', rest)" for q lst1
  proof -
    obtain p' where "lf_request rq es q =
      (replicate (length es - length rest - (if found = None then 0 else 1)) (attr_instance_id a),
       map_option (\<lambda>(i, d). Inr (Some (flap_report a i d))) found, p', rest)"
      "window lst' p'" "lf_name p' = ''link_flap''"
      "length rest + (if found = None then 0 else 1) \<le> length es"
      using Cons.IH [OF step(2) q(2) Cons.prems(3) q(3,4)] by blast
    moreover have "length (e # es) - length rest - k = Suc (length es - length rest - k)"
      if "length rest + k \<le> length es" for k using that by simp
    ultimately show ?thesis using q(1) by (auto simp: lf_request_def)
  qed
  show ?case
  proof (cases "down_if e")
    case None
    then show ?thesis using go [of p lst] s Cons.prems by simp
  next
    case (Some i)
    note w = window_down(1) [OF Cons.prems(2), of i "ev_time e"]
    show ?thesis
    proof (cases "\<exists>t. lst i = Some t \<and> ev_time e - t \<le> 15")
      case True
      then show ?thesis using s Some w Cons.prems(4,5) by (auto simp: lf_request_def Let_def)
    next
      case False
      then show ?thesis using go [of "note_down i (ev_time e) p" "lst(i \<mapsto> ev_time e)"] s Some w Cons.prems(4,5)
        by (auto simp: Let_def split: option.splits if_splits)
    qed
  qed
qed

section \<open>Properties\<close>

text \<open>C5. The plugin's sliding windows implement the specification: over events that carry their
  parameters it answers exactly at the first event where an interface goes down within 15 seconds of
  its previous down event, names this interface and the seconds between the two, and calls back
  once for every event before; what it remembers carries over to the next request.\<close>

theorem flap_detection:
  assumes "list_all complete es" "window lst p" "attrs rq = Some a" "lf_name p = ''link_flap''"
    "flap_spec lst es = (found, lst', rest)"
  shows "\<exists>p'. lf_request rq es p =
      (replicate (length es - length rest - (if found = None then 0 else 1)) (attr_instance_id a),
       map_option (\<lambda>(i, d). Inr (Some (flap_report a i d))) found, p', rest) \<and> window lst' p'"
  using lf_request_spec [OF assms] by blast

definition down_event :: "string \<Rightarrow> int \<Rightarrow> flap_event" where
  "down_event i t =
     \<lparr>ev_stop = False, ev_ret = 0, ev_key = ''sonic-events-swss:if-state'',
      ev_params = [(''status'', ''down''), (''ifname'', i)], ev_time = t\<rparr>"

definition sample_attrs :: action_attrs where
  "sample_attrs =
     \<lparr>attr_action_name = JStr ''link_flap'', attr_instance_id = JStr ''i1'', attr_anomaly_instance_id = JStr ''a1'',
      attr_anomaly_key = JStr '''', attr_context = JObj [], attr_timeout = JInt 0\<rparr>"

definition sample_request :: action_request where
  "sample_request = \<lparr>str_data = '''', req_type = JStr REQ_ACTION_TYPE_ACTION, attrs = Some sample_attrs\<rparr>"

lemma flap_detection_witness:
  "\<exists>p p'. new_link_flap (\<lambda>_. Inr ()) (JObj []) = Inr p \<and>
     lf_request sample_request [down_event ''e0'' 100, down_event ''e1'' 105, down_event ''e0'' 120, down_event ''e0'' 130] p =
       ([JStr ''i1'', JStr ''i1'', JStr ''i1''], Some (Inr (Some (flap_report sample_attrs ''e0'' 10))), p', [])"
proof -
  obtain p :: "unit link_flap" where p: "new_link_flap (\<lambda>_. Inr ()) (JObj []) = Inr p"
    by (simp add: new_link_flap_def)
  let ?es = "[down_event ''e0'' 100, down_event ''e1'' 105, down_event ''e0'' 120, down_event ''e0'' 130]"
  have "list_all complete ?es" by (simp add: complete_def down_event_def)
  moreover have "flap_spec (\<lambda>_. None) ?es = (Some (''e0'', 10), (\<lambda>_. None)(''e0'' \<mapsto> 130, ''e1'' \<mapsto> 105), [])"
    by (auto simp: down_if_def down_event_def fun_upd_twist)
  moreover have "attrs sample_request = Some sample_attrs" by (simp add: sample_request_def)
  ultimately show ?thesis
    using flap_detection [of ?es "\<lambda>_. None" p sample_request sample_attrs] window_new [OF p] p
    by (auto simp: sample_attrs_def)
qed

text \<open>Whatever the events, a response of the plugin to a request that was parsed from text is a
  dictionary that names the plugin's action and the instance and anomaly instance of the request.\<close>

lemma flap_response_echoes:
  assumes "new_action_request t = Inr rq" "lf_request rq es p = (beats, Some (Inr (Some r)), p', rest)"
  shows "\<exists>a d. attrs rq = Some a \<and> loads (response_value r) = Inr d \<and>
    json_index d REQ_ACTION_NAME = Inr (JStr (lf_name p)) \<and>
    json_index d REQ_INSTANCE_ID = Inr (attr_instance_id a) \<and>
    json_index d REQ_ANOMALY_INSTANCE_ID = Inr (attr_anomaly_instance_id a)"
  using flap.response_echoes [OF assms(1) TrueI] assms(2) unfolding lf_request_def by blast

lemma lf_none_stopped:
  "run_plugin (lf_step rq) es p = (beats, Some (Inr None), p', rest) \<Longrightarrow>
   shutdown_flag p \<or> (\<exists>e \<in> set es. ev_stop e)"
proof (induction es arbitrary: p beats)
  case (Cons e es)
  show ?case
  proof (cases "lf_step rq e p")
    case (Beat i q)
    have "shutdown_flag q \<longrightarrow> shutdown_flag p \<or> ev_stop e"
      using Beat by (auto simp: lf_step_def Let_def lf_beat_cases split: if_splits sum.splits option.splits)
    moreover obtain bs where "run_plugin (lf_step rq) es q = (bs, Some (Inr None), p', rest)"
      using Cons.prems Beat by (auto split: prod.splits)
    ultimately show ?thesis using Cons.IH [of q bs] by auto
  next
    case (Done o' q)
    then show ?thesis using Cons.prems lf_step_done [of rq e p None q] by auto
  qed
qed simp

text \<open>The plugin ends a request with no response only when it was told to shut down, and its
  heartbeats all carry the instance of the request.\<close>

lemma flap_ends_without_response:
  assumes "lf_request rq es p = (beats, out, p', rest)"
  shows "(\<forall>i \<in> set beats. req_instance_id rq = Inr i) \<and>
    (out = Some (Inr None) \<longrightarrow> shutdown_flag p \<or> (\<exists>e \<in> set es. ev_stop e))"
  using assms
proof (intro conjI impI)
  show "\<forall>i \<in> set beats. req_instance_id rq = Inr i"
    using assms flap.run_beats [of _ rq es p] by (simp add: lf_request_def)
  show "out = Some (Inr None) \<Longrightarrow> shutdown_flag p \<or> (\<exists>e \<in> set es. ev_stop e)"
    using assms lf_none_stopped unfolding lf_request_def by blast
qed

lemma sample_text_request:
  "\<exists>rq. new_action_request (dumps (request_dict (JStr ''link_flap'') (JStr ''i1'') (JStr ''a1'') (JStr '''') (JObj []) (JInt 0))) = Inr rq \<and>
     attrs rq = Some sample_attrs"
  using request_parsed [of "JStr ''link_flap''" "JStr ''i1''" "JStr ''a1''" "JStr ''''" "JObj []" "JInt 0"]
  by (simp add: sample_attrs_def)

end
