(* ===== verification/LinkMitigation.thy ===== *)
theory LinkMitigation
  imports Complex_Main LinkFlap
begin

text \<open>
  The safety check and the mitigation of a flapping link
  (\<^verbatim>\<open>vendors/sonic/actions/link_safety.py\<close>, \<^verbatim>\<open>vendors/sonic/actions/link_down.py\<close>). Both
  find the interface in the context of the request, under the name of the detecting action.
  The shell is a parameter: the output of a command, or the commands issued. Floating point
  is taken as rational; how Python prints a float and a container are parameters.
\<close>

text \<open>\<^verbatim>\<open>json.loads(v)\<close> of a value that may not be a text.\<close>

fun loads_value :: "json \<Rightarrow> json res" where
  "loads_value (JStr s) = loads s"
| "loads_value _ = Inl TypeError"

text \<open>The interface a context names: \<^verbatim>\<open>json.loads(ctx.get("link_flap", "{}")).get("ifname", "")\<close>.\<close>

definition context_ifname :: "json \<Rightarrow> json res" where
  "context_ifname ctx =
     bind_res (json_get ctx ''link_flap'' (JStr ''{}'')) (\<lambda>v.
     bind_res (loads_value v) (\<lambda>link_data.
       json_get link_data ''ifname'' (JStr '''')))"

text \<open>The response both plugins end with.\<close>

definition mitigation_response ::
  "string \<Rightarrow> action_request \<Rightarrow> int \<Rightarrow> string \<Rightarrow> action_response res"
where
  "mitigation_response nm rq ret ret_str =
     bind_res (req_instance_id rq) (\<lambda>inst.
     bind_res (req_anomaly_instance_id rq) (\<lambda>ai.
     bind_res (req_anomaly_key rq) (\<lambda>ak.
       Inr (new_action_response nm inst ai ak '''' ret ret_str))))"

section \<open>The safety check\<close>

record 'h link_safety =
  ls_name :: string
  ls_handle :: 'h
  min_up :: int
  ls_shutdown_flag :: bool

definition new_link_safety :: "(json option \<Rightarrow> 'h res) \<Rightarrow> json \<Rightarrow> 'h link_safety res" where
  "new_link_safety events_init_subscriber config =
     bind_res (events_init_subscriber None) (\<lambda>h.
       Inr \<lparr>ls_name = ''link_safety'', ls_handle = h, min_up = 80, ls_shutdown_flag = False\<rparr>)"

definition ls_getName :: "'h link_safety \<Rightarrow> string" where
  "ls_getName p = ls_name p"

definition ls_is_valid :: "'h link_safety \<Rightarrow> bool" where
  "ls_is_valid p = True"

definition ls_shutdown :: "'h link_safety \<Rightarrow> 'h link_safety" where
  "ls_shutdown p = p\<lparr>ls_shutdown_flag := True\<rparr>"

text \<open>The share of links that are up, in percent.\<close>

definition up_percent :: "(string \<Rightarrow> string res) \<Rightarrow> rat res" where
  "up_percent check_output =
     bind_res (check_output ''show int status | grep -v down | wc -l'') (\<lambda>up.
     bind_res (check_output ''show int status | grep down | wc -l'') (\<lambda>down.
     bind_res (py_int up) (\<lambda>u.
     bind_res (py_int down) (\<lambda>d.
       if u + d = 0 then Inl ZeroDivisionError
       else Inr (100 * of_int u / of_int (u + d))))))"

definition ls_request ::
  "(rat \<Rightarrow> string) \<Rightarrow> (string \<Rightarrow> string res) \<Rightarrow> action_request \<Rightarrow> 'h link_safety \<Rightarrow> action_response res"
where
  "ls_request show_float check_output rq p =
     bind_res (loads (request_repr rq)) (\<lambda>d.
     bind_res (json_get d REQ_CONTEXT (JObj [])) (\<lambda>ctx.
     bind_res (context_ifname ctx) (\<lambda>ifname.
       if truthy ifname then
         bind_res (up_percent check_output) (\<lambda>pc.
           mitigation_response (ls_name p) rq 0
             (if pc \<ge> of_int (min_up p)
              then ls_name p @ '': Has '' @ show_float pc @ ''% up. Min: '' @ show_int (min_up p) @ ''%''
              else ''''))
       else
         bind_res (req_context rq) (\<lambda>c.
           mitigation_response (ls_name p) rq (- 1) (ls_name p @ '': Missing ifname ctx='' @ dumps c)))))"

section \<open>Bringing the link down\<close>

record 'h link_down =
  ld_name :: string
  ld_handle :: 'h
  ld_shutdown_flag :: bool

definition new_link_down :: "(json option \<Rightarrow> 'h res) \<Rightarrow> json \<Rightarrow> 'h link_down res" where
  "new_link_down events_init_subscriber config =
     bind_res (events_init_subscriber None) (\<lambda>h.
       Inr \<lparr>ld_name = ''link_down'', ld_handle = h, ld_shutdown_flag = False\<rparr>)"

definition ld_getName :: "'h link_down \<Rightarrow> string" where
  "ld_getName p = ld_name p"

definition ld_is_valid :: "'h link_down \<Rightarrow> bool" where
  "ld_is_valid p = True"

definition ld_shutdown :: "'h link_down \<Rightarrow> 'h link_down" where
  "ld_shutdown p = p\<lparr>ld_shutdown_flag := True\<rparr>"

text \<open>The response, and the commands given to \<^verbatim>\<open>os.system\<close> before it.\<close>

definition ld_request ::
  "(json \<Rightarrow> string) \<Rightarrow> action_request \<Rightarrow> 'h link_down \<Rightarrow> action_response res \<times> string list"
where
  "ld_request repr rq p =
     (case bind_res (req_context rq) context_ifname of
        Inl e \<Rightarrow> (Inl e, [])
      | Inr ifname \<Rightarrow>
          if truthy ifname then
            (mitigation_response (ld_name p) rq 0 (''Brought down link '' @ format_value repr ifname),
             [''sudo config int shutdown '' @ format_value repr ifname])
          else
            (bind_res (req_context rq) (\<lambda>c.
               mitigation_response (ld_name p) rq (- 1) (''Missing ifname ctx='' @ dumps c)), []))"

section \<open>Both keep the contract of a plugin\<close>

definition ls_step ::
  "(rat \<Rightarrow> string) \<Rightarrow> action_request \<Rightarrow> (string \<Rightarrow> string res) \<Rightarrow> 'h link_safety \<Rightarrow> 'h link_safety plugin_step"
where
  "ls_step show_float rq check_output p = Done (map_sum id Some (ls_request show_float check_output rq p)) p"

definition ld_step ::
  "(json \<Rightarrow> string) \<Rightarrow> action_request \<Rightarrow> unit \<Rightarrow> 'h link_down \<times> string list
   \<Rightarrow> ('h link_down \<times> string list) plugin_step"
where
  "ld_step repr rq _ w =
     (case w of (p, cmds) \<Rightarrow>
        (case ld_request repr rq p of (r, new) \<Rightarrow> Done (map_sum id Some r) (p, cmds @ new)))"

lemma map_sum_Some:
  "map_sum id Some r = Inr None \<longleftrightarrow> False"
  "map_sum id Some r = Inr (Some x) \<longleftrightarrow> r = Inr x"
  by (cases r; simp)+

lemma mitigation_answers:
  "mitigation_response nm rq ret rs = Inr r \<Longrightarrow>
   \<exists>a. attrs rq = Some a \<and> (attrs_wf a \<longrightarrow> answers nm a r)"
  by (auto simp: mitigation_response_def req_attr_defs attrs_wf_def split: option.splits)

lemma ls_request_answers:
  assumes "ls_request sf sh rq p = Inr r"
  shows "\<exists>a. attrs rq = Some a \<and> (attrs_wf a \<longrightarrow> answers (ls_name p) a r)"
proof -
  obtain ret rs where "mitigation_response (ls_name p) rq ret rs = Inr r"
    using assms by (auto simp: ls_request_def bind_res_Inr_iff split: if_splits)
  then show ?thesis by (rule mitigation_answers)
qed

lemma ld_request_answers:
  assumes "ld_request repr rq p = (Inr r, cmds)"
  shows "\<exists>a. attrs rq = Some a \<and> (attrs_wf a \<longrightarrow> answers (ld_name p) a r)"
proof -
  obtain ret rs where "mitigation_response (ld_name p) rq ret rs = Inr r"
    using assms by (auto simp: ld_request_def bind_res_Inr_iff split: if_splits sum.splits)
  then show ?thesis by (rule mitigation_answers)
qed

interpretation safety: request_plugin "ls_step show_float" ls_name "\<lambda>e p. ls_shutdown_flag p" "\<lambda>_. True"
  by unfold_locales (auto simp: ls_step_def map_sum_Some dest: ls_request_answers)

interpretation down: request_plugin "ld_step repr" "\<lambda>w. ld_name (fst w)" "\<lambda>e w. ld_shutdown_flag (fst w)" "\<lambda>_. True"
  by unfold_locales (auto simp: ld_step_def map_sum_Some split: prod.splits dest: ld_request_answers)

section \<open>What the two plugins do\<close>

lemma context_ifname_found:
  assumes "map_of kvs ''link_flap'' = Some (JStr (dumps (JObj d)))" "wf_json (JObj d)"
    "map_of d ''ifname'' = Some v"
  shows "context_ifname (JObj kvs) = Inr v"
  using assms by (simp add: context_ifname_def dict_get_def loads_dumps del: dumps.simps)

lemma context_ifname_missing: "map_of kvs ''link_flap'' = None \<Longrightarrow> context_ifname (JObj kvs) = Inr (JStr '''')"
proof -
  have "loads ''{}'' = Inr (JObj [])" using loads_dumps [of "JObj []"] by simp
  then show "map_of kvs ''link_flap'' = None \<Longrightarrow> ?thesis" by (simp add: context_ifname_def dict_get_def)
qed

text \<open>The counts of links as \<^verbatim>\<open>wc -l\<close> prints them, each with its newline.\<close>

lemma up_percent_counts:
  assumes "check_output ''show int status | grep -v down | wc -l'' = Inr (count_line u)"
    "check_output ''show int status | grep down | wc -l'' = Inr (count_line d)"
  shows "up_percent check_output =
    (if u + d = 0 then Inl ZeroDivisionError else Inr (100 * of_int u / of_int (u + d)))"
  using assms by (simp add: up_percent_def py_int_count_line)

lemma percent_ge:
  assumes "0 \<le> u" "0 \<le> d" "u + d \<noteq> 0"
  shows "(100 * of_int u / of_int (u + d) :: rat) \<ge> 80 \<longleftrightarrow> 4 * d \<le> u"
proof -
  have "(0::rat) < of_int (u + d)" using assms by linarith
  then have "(100 * of_int u / of_int (u + d) :: rat) \<ge> 80 \<longleftrightarrow> 80 * of_int (u + d) \<le> (100 * of_int u :: rat)"
    by (simp add: le_divide_eq)
  also have "\<dots> \<longleftrightarrow> 80 * (u + d) \<le> 100 * u"
    by (metis of_int_le_iff of_int_mult of_int_numeral)
  also have "\<dots> \<longleftrightarrow> 4 * d \<le> u" by presburger
  finally show ?thesis .
qed

lemma ls_request_known:
  assumes "attrs rq = Some a" "loads (str_data rq) = Inr (JObj data)"
    "map_of data REQ_CONTEXT = Some ctx" "context_ifname ctx = Inr v" "truthy v"
    "up_percent check_output = Inr pc"
  shows "ls_request show_float check_output rq p =
    Inr (new_action_response (ls_name p) (attr_instance_id a) (attr_anomaly_instance_id a) (attr_anomaly_key a)
           '''' 0
           (if pc \<ge> of_int (min_up p)
            then ls_name p @ '': Has '' @ show_float pc @ ''% up. Min: '' @ show_int (min_up p) @ ''%'' else ''''))"
  using assms by (simp add: ls_request_def request_repr_def dict_get_def mitigation_response_def req_attr_defs)

lemma ld_request_known:
  assumes "attrs rq = Some a" "context_ifname (attr_context a) = Inr (JStr ifname)" "ifname \<noteq> ''''"
  shows "ld_request repr rq p =
    (Inr (new_action_response (ld_name p) (attr_instance_id a) (attr_anomaly_instance_id a) (attr_anomaly_key a)
            '''' 0 (''Brought down link '' @ ifname)),
     [''sudo config int shutdown '' @ ifname])"
  using assms by (simp add: ld_request_def req_attr_defs mitigation_response_def format_value_def)

section \<open>Properties\<close>

text \<open>C29. The safety check of an interface, when the shell prints the counts \<open>u\<close> up and \<open>d\<close> down, each with its newline, answers with
  result code 0 in every case: when at least four fifths of the links are up the result string says
  so, and when fewer are up it is empty, so a mitigation is not held back by the minimum; with no
  links at all the division raises.\<close>

theorem safety_check_result:
  assumes "attrs rq = Some a" "loads (str_data rq) = Inr (JObj dict)" "map_of dict REQ_CONTEXT = Some ctx"
    "context_ifname ctx = Inr ifname" "truthy ifname" "min_up p = 80" "0 \<le> u" "0 \<le> d"
    "shell ''show int status | grep -v down | wc -l'' = Inr (count_line u)"
    "shell ''show int status | grep down | wc -l'' = Inr (count_line d)"
  shows "ls_request show_float shell rq p =
    (if u + d = 0 then Inl ZeroDivisionError
     else Inr (new_action_response (ls_name p) (attr_instance_id a) (attr_anomaly_instance_id a) (attr_anomaly_key a)
                 '''' 0
                 (if 4 * d \<le> u
                  then ls_name p @ '': Has '' @ show_float (100 * of_int u / of_int (u + d)) @ ''% up. Min: 80%''
                  else '''')))"
proof (cases "u + d = 0")
  case True
  then show ?thesis using assms up_percent_counts [of shell u d]
    by (simp add: ls_request_def request_repr_def dict_get_def)
next
  case False
  have "show_int 80 = ''80''" by (simp add: show_int_def show_nat.simps digit_char_def char_of_eq_iff)
  then show ?thesis
    using False ls_request_known [OF assms(1-5), of shell "100 * of_int u / of_int (u + d)" show_float p]
      up_percent_counts [OF assms(9,10)] percent_ge [OF assms(7,8) False] assms(6) by simp
qed

definition flap_context :: "string \<Rightarrow> json" where
  "flap_context i = JObj [(''link_flap'', JStr (dumps (JObj [(''ifname'', JStr i)])))]"

lemma flap_context_ifname: "context_ifname (flap_context i) = Inr (JStr i)"
  unfolding flap_context_def
  using context_ifname_found [of "[(''link_flap'', JStr (dumps (JObj [(''ifname'', JStr i)])))]" "[(''ifname'', JStr i)]" "JStr i"]
  by (simp del: dumps.simps)

definition safety_shell :: "string \<Rightarrow> string res" where
  "safety_shell cmd =
     (if cmd = ''show int status | grep -v down | wc -l'' then Inr (count_line 1) else Inr (count_line 9))"

lemma safety_check_result_witness:
  "\<exists>rq. attrs rq = Some (sample_attrs\<lparr>attr_context := flap_context ''e0''\<rparr>) \<and>
     ls_request (\<lambda>_. ''10.0'') safety_shell rq \<lparr>ls_name = ''link_safety'', ls_handle = (), min_up = 80, ls_shutdown_flag = False\<rparr> =
     Inr (new_action_response ''link_safety'' (JStr ''i1'') (JStr ''a1'') (JStr '''') '''' 0 '''')"
proof -
  let ?d = "request_dict (JStr ''link_flap'') (JStr ''i1'') (JStr ''a1'') (JStr '''') (flap_context ''e0'') (JInt 0)"
  let ?a = "sample_attrs\<lparr>attr_context := flap_context ''e0''\<rparr>"
  let ?rq = "\<lparr>str_data = dumps ?d, req_type = JStr REQ_ACTION_TYPE_ACTION, attrs = Some ?a\<rparr>"
  obtain kvs where kvs: "?d = JObj kvs" "map_of kvs REQ_CONTEXT = Some (flap_context ''e0'')"
    by (simp add: request_dict_def msg_defs)
  have "wf_json ?d" by (simp add: request_dict_wf flap_context_def del: dumps.simps)
  then have l: "loads (str_data ?rq) = Inr (JObj kvs)" using kvs(1) loads_dumps [of ?d] by (simp del: dumps.simps)
  have "attrs ?rq = Some ?a" by simp
  from safety_check_result [OF this l kvs(2) flap_context_ifname,
      of "\<lparr>ls_name = ''link_safety'', ls_handle = (), min_up = 80, ls_shutdown_flag = False\<rparr>" 1 9 safety_shell "\<lambda>_. ''10.0''"]
  show ?thesis by (intro exI [of _ ?rq]) (simp add: safety_shell_def sample_attrs_def)
qed

text \<open>From detection to mitigation: the data a flap report carries, put into the context of a
  request under the detecting action's name, makes the mitigation issue exactly one command, which
  shuts down the interface that was reported, and answer with result code 0.\<close>

lemma flap_report_brings_link_down:
  assumes "attrs_wf fa" "ifname \<noteq> ''''" "lf_name fp = ''link_flap''" "window lst fp"
    "loads (response_value (flap_report fa ifname dur)) = Inr rsp" "json_index rsp REQ_ACTION_DATA = Inr data"
    "attrs rq = Some a" "attr_context a = JObj kvs" "map_of kvs (lf_name fp) = Some data"
  shows "ld_request repr rq p =
    (Inr (new_action_response (ld_name p) (attr_instance_id a) (attr_anomaly_instance_id a) (attr_anomaly_key a)
            '''' 0 (''Brought down link '' @ ifname)),
     [''sudo config int shutdown '' @ ifname])"
proof -
  let ?rep = "[(''ifname'', JStr ifname), (''duration'', JInt dur), (''cnt'', JInt 2)]"
  have "rsp = response_dict ''link_flap'' (attr_instance_id fa) (attr_anomaly_instance_id fa) (JStr ifname)
      (dumps (JObj ?rep)) 0 ''''"
    using assms(1,5) response_parsed [of "attr_instance_id fa" "attr_anomaly_instance_id fa" "JStr ifname"]
    by (simp add: flap_report_def attrs_wf_def del: dumps.simps)
  then have "data = JStr (dumps (JObj ?rep))"
    using assms(6) by (simp add: response_dict_def msg_defs del: dumps.simps)
  then have "context_ifname (attr_context a) = Inr (JStr ifname)"
    using context_ifname_found [of kvs ?rep "JStr ifname"] assms(3,8,9) by (simp del: dumps.simps)
  then show ?thesis by (rule ld_request_known [OF assms(7) _ assms(2)])
qed

text \<open>The mitigation without an interface in its context issues no command and answers \<open>-1\<close>.\<close>

lemma link_down_without_interface:
  assumes "attrs rq = Some a" "attr_context a = JObj kvs" "map_of kvs ''link_flap'' = None"
  shows "ld_request repr rq p =
    (Inr (new_action_response (ld_name p) (attr_instance_id a) (attr_anomaly_instance_id a) (attr_anomaly_key a)
            '''' (- 1) (''Missing ifname ctx='' @ dumps (attr_context a))), [])"
  using assms context_ifname_missing [OF assms(3)]
  by (simp add: ld_request_def req_attr_defs mitigation_response_def del: dumps.simps)

end
