(* ===== verification/Publish.thy ===== *)
theory Publish
  imports Config
begin

text \<open>
  Publishing events (\<^verbatim>\<open>vendors/sonic/support/helpers.py\<close>). The event service of the switch is
  a parameter: creating a publisher and publishing may raise. Whether the service is there
  (\<open>sonic\<close>) is found out once, when the module is loaded. A publisher handle is the service's
  or, without the service, a string that only says that the module was initialised. The
  effects of a call are the events given to the service and the log records.
\<close>

section \<open>The operations\<close>

datatype 'h publisher = Initialized | Handle 'h

datatype 'h pub_effect = Published 'h string "(string, string) dict" | Logged "string \<times> string"

definition RUNNING_IN_SONIC :: "(string \<rightharpoonup> string) \<Rightarrow> bool" where
  "RUNNING_IN_SONIC fs \<longleftrightarrow> fs ''/etc/sonic/init_cfg.json'' \<noteq> None"

definition publish_init ::
  "bool \<Rightarrow> (string \<Rightarrow> 'h res) \<Rightarrow> string \<Rightarrow> 'h publisher option \<Rightarrow> unit res \<times> 'h publisher option"
where
  "publish_init sonic events_init_publisher src handle =
     (if handle \<noteq> None then (Inr (), handle)
      else if sonic then
        (case events_init_publisher src of
           Inl e \<Rightarrow> (Inl e, handle)
         | Inr k \<Rightarrow> (Inr (), Some (Handle k)))
      else (Inr (), Some Initialized))"

text \<open>The text of one parameter: a dictionary is printed as JSON, anything else by \<^verbatim>\<open>str\<close>.\<close>

definition param_text :: "(json \<Rightarrow> string) \<Rightarrow> json \<Rightarrow> string" where
  "param_text repr v = (case v of JObj _ \<Rightarrow> dumps v | _ \<Rightarrow> format_value repr v)"

definition param_dict :: "(json \<Rightarrow> string) \<Rightarrow> (string, json) dict \<Rightarrow> (string, string) dict" where
  "param_dict repr d = fold (\<lambda>(k, v) ps. AList.update k (param_text repr v) ps) d []"

text \<open>
  The message of the missing handle calls a \<^verbatim>\<open>log_error\<close> that the module does not import.
  The event is logged through \<^verbatim>\<open>common.log_error\<close> and once more by \<^verbatim>\<open>syslog\<close>.
\<close>

definition publish_event ::
  "bool \<Rightarrow> (json \<Rightarrow> string) \<Rightarrow> ('h publisher \<Rightarrow> string \<Rightarrow> (string, string) dict \<Rightarrow> unit res) \<Rightarrow> int
   \<Rightarrow> string \<Rightarrow> (string, json) dict \<Rightarrow> 'h publisher option \<Rightarrow> unit res \<times> 'h publisher pub_effect list"
where
  "publish_event sonic repr service ct_log_level tag d handle =
     (case handle of
        None \<Rightarrow> (Inl (NameError ''log_error''), [])
      | Some h \<Rightarrow>
          (case (if sonic then service h tag (param_dict repr d) else Inr ()) of
             Inl e \<Rightarrow> (Inl e, [])
           | Inr _ \<Rightarrow>
               let published = (if sonic then [Published h tag (param_dict repr d)] else []);
                   log_str = ''LoM_PUBLISH:'' @ tag @ '':'' @ dumps (JObj d)
               in (case log_error ct_log_level log_str of
                     Inl e \<Rightarrow> (Inl e, published)
                   | Inr recs \<Rightarrow> (Inr (), published @ map Logged recs @ [Logged (''syslog'', log_str)]))))"

text \<open>\<^verbatim>\<open>events_deinit_publisher\<close> is not imported.\<close>

definition publish_deinit :: "'h publisher option \<Rightarrow> unit res \<times> 'h publisher option" where
  "publish_deinit handle =
     (if handle \<noteq> None then (Inl (NameError ''events_deinit_publisher''), handle) else (Inr (), handle))"

text \<open>The module run as a script: ten events, two seconds apart.\<close>

fun publish_all ::
  "((string \<times> (string, json) dict) \<Rightarrow> unit res \<times> 'e list) \<Rightarrow> (string \<times> (string, json) dict) list \<Rightarrow> unit res \<times> 'e list"
where
  "publish_all pub [] = (Inr (), [])"
| "publish_all pub (ev # evs) =
     (case pub ev of
        (Inl e, es) \<Rightarrow> (Inl e, es)
      | (Inr _, es) \<Rightarrow> (case publish_all pub evs of (r, fs) \<Rightarrow> (r, es @ fs)))"

definition publish_main ::
  "bool \<Rightarrow> (string \<Rightarrow> 'h res) \<Rightarrow> (json \<Rightarrow> string) \<Rightarrow> ('h publisher \<Rightarrow> string \<Rightarrow> (string, string) dict \<Rightarrow> unit res) \<Rightarrow> int
   \<Rightarrow> 'h publisher option \<Rightarrow> unit res \<times> 'h publisher pub_effect list"
where
  "publish_main sonic init repr service ct_log_level handle =
     (case publish_init sonic init ''test-publish'' handle of
        (Inl e, _) \<Rightarrow> (Inl e, [])
      | (Inr _, h) \<Rightarrow>
          publish_all (\<lambda>(tag, d). publish_event sonic repr service ct_log_level tag d h)
            (map (\<lambda>i. (''hello_'' @ show_nat i, [(''foo'', JStr ''bar''), (''run'', JInt (int i))])) [0..<10]))"

section \<open>Facts\<close>

lemma update_all_fresh:
  "distinct (keys (ps @ map (\<lambda>(k, v). (k, f v)) d)) \<Longrightarrow>
   fold (\<lambda>(k, v) ps. AList.update k (f v) ps) d ps = ps @ map (\<lambda>(k, v). (k, f v)) d"
proof (induction d arbitrary: ps)
  case (Cons p d)
  obtain k v where p: "p = (k, v)" by fastforce
  have "AList.update k (f v) ps = ps @ [(k, f v)]" using Cons.prems p by (intro update_fresh) auto
  then show ?case using Cons.IH [of "ps @ [(k, f v)]"] Cons.prems p by simp
qed simp

lemma param_dict_map: "distinct (keys d) \<Longrightarrow> param_dict repr d = map (\<lambda>(k, v). (k, param_text repr v)) d"
  using update_all_fresh [of "[]" "param_text repr" d] by (simp add: param_dict_def comp_def case_prod_beta)

lemma wf_members_get: "wf_members d \<Longrightarrow> map_of d k = Some v \<Longrightarrow> wf_json v"
  by (induction d) (auto split: if_splits)

lemma log_error_records: "3 \<le> lvl \<Longrightarrow> log_error lvl msg = Inr [(''syslog'', msg), (''Error'', msg)]"
  by (simp add: log_error_def log_write_def LOG_ERR_def list_index_def lvl_to_str_def)

section \<open>Properties\<close>

text \<open>C32. An event published through the service carries one parameter per attribute, under its
  name: a string as it is, a dictionary as a text that parses back to it. It is then logged: with
  errors enabled, the message goes to syslog twice.\<close>

theorem event_is_published:
  assumes "wf_json (JObj d)" "service h tag (param_dict repr d) = Inr ()" "3 \<le> lvl"
  shows "publish_event True repr service lvl tag d (Some h) =
      (Inr (),
       let msg = ''LoM_PUBLISH:'' @ tag @ '':'' @ dumps (JObj d)
       in [Published h tag (param_dict repr d), Logged (''syslog'', msg), Logged (''Error'', msg), Logged (''syslog'', msg)]) \<and>
    keys (param_dict repr d) = keys d \<and>
    (\<forall>k s. map_of d k = Some (JStr s) \<longrightarrow> map_of (param_dict repr d) k = Some s) \<and>
    (\<forall>k kvs. map_of d k = Some (JObj kvs) \<longrightarrow>
       (\<exists>t. map_of (param_dict repr d) k = Some t \<and> loads t = Inr (JObj kvs)))"
proof -
  have d: "distinct (keys d)" "wf_members d" using assms(1) by simp_all
  have get: "map_of (param_dict repr d) k = map_option (param_text repr) (map_of d k)" for k
    by (simp add: param_dict_map [OF d(1)] map_of_map)
  have "loads (dumps (JObj kvs)) = Inr (JObj kvs)" if "map_of d k = Some (JObj kvs)" for k kvs
    by (rule loads_dumps) (rule wf_members_get [OF d(2) that])
  moreover have "keys (param_dict repr d) = keys d" by (simp add: param_dict_map [OF d(1)] comp_def case_prod_beta)
  ultimately show ?thesis using assms(2)
    by (auto simp: publish_event_def log_error_records [OF assms(3)] Let_def get param_text_def format_value_def)
qed

lemma event_is_published_witness:
  "snd (publish_event True (\<lambda>_. '''') (\<lambda>_ _ _. Inr ()) 3 ''link_flap'' [(''ifname'', JStr ''Ethernet4'')] (Some (Handle (1::nat)))) =
     (let msg = ''LoM_PUBLISH:link_flap:'' @ dumps (JObj [(''ifname'', JStr ''Ethernet4'')])
      in [Published (Handle 1) ''link_flap'' [(''ifname'', ''Ethernet4'')], Logged (''syslog'', msg),
          Logged (''Error'', msg), Logged (''syslog'', msg)])"
  using event_is_published [of "[(''ifname'', JStr ''Ethernet4'')]" "\<lambda>_ _ _. Inr ()" "Handle (1::nat)" "''link_flap''" "\<lambda>_. ''''" 3]
  by (simp add: param_dict_def param_text_def format_value_def Let_def)

text \<open>Publishing before a successful initialisation raises, publishes nothing and logs nothing;
  after one, initialising again keeps the handle, and giving it back always raises and keeps it
  too.\<close>

lemma publisher_lifecycle:
  "publish_event sonic repr service lvl tag d None = (Inl (NameError ''log_error''), []) \<and>
   (case publish_init sonic init src None of
      (Inl _, handle) \<Rightarrow> handle = None
    | (Inr _, handle) \<Rightarrow>
        handle \<noteq> None \<and> publish_init sonic init src' handle = (Inr (), handle) \<and>
        publish_deinit handle = (Inl (NameError ''events_deinit_publisher''), handle))"
  by (cases "init src") (auto simp: publish_event_def publish_init_def publish_deinit_def)

end
