(* ===== verification/PluginHolder.thy ===== *)
theory PluginHolder
  imports PluginInterface ClibBind
begin

text \<open>
  One loaded plugin (\<^verbatim>\<open>plugin_proc.py\<close>, class \<^verbatim>\<open>LoMPluginHolder\<close>). The main thread and the
  request thread share the fields of the object and a pipe: the request thread stores a
  heartbeat or the response and then writes to the pipe; the main thread polls the pipe,
  drains it and looks at the fields. The first part has the methods as the main thread calls
  them, the second the interleaving of the two threads, one shared access per step.
\<close>

text \<open>
  Where the request thread is: in the plugin's \<^verbatim>\<open>request\<close>, in the callback about to store the
  time, the instance, to signal; after \<^verbatim>\<open>request\<close> about to store the response, the end time,
  to signal, to return. A thread that has exited is not alive.
\<close>

datatype thread_pc =
    T_run
  | T_touch json
  | T_instance json
  | T_beat_signal
  | T_response "action_response option"
  | T_end
  | T_signal
  | T_return
  | T_exit

record holder =
  plugin :: bool
  fdR :: "int option"
  fdW :: "int option"
  thr :: "thread_pc option"
  response :: "action_response option"
  last_request :: "action_request option"
  req_start :: int
  req_end :: int
  name :: string
  touch :: "int option"
  touchSent :: "int option"
  action_pause :: json
  instance_id :: "json option"
  pipe :: nat
  plugin_stopped :: bool

section \<open>The methods\<close>

definition plugin_module :: "string \<Rightarrow> string" where
  "plugin_module plugin_file =
     (if endswith plugin_file ''.py'' then basename (take (length plugin_file - 3) plugin_file)
      else basename plugin_file)"

definition empty_holder :: "json \<Rightarrow> holder" where
  "empty_holder pause =
     \<lparr>plugin = False, fdR = None, fdW = None, thr = None, response = None, last_request = None,
      req_start = 0, req_end = 0, name = '''', touch = None, touchSent = None, action_pause = pause,
      instance_id = None, pipe = 0, plugin_stopped = False\<rparr>"

text \<open>
  \<open>load\<close> stands for importing the module and creating its \<^verbatim>\<open>LoMPlugin\<close>: it raises or yields the
  plugin's name and whether it is valid.
\<close>

definition new_holder ::
  "(string \<Rightarrow> json \<Rightarrow> (string \<times> bool) res) \<Rightarrow> string \<Rightarrow> string \<Rightarrow> json \<Rightarrow> 's bind \<Rightarrow> holder res \<times> 's bind"
where
  "new_holder load nm plugin_file config b =
     bind_st (json_get config REQ_PAUSE JNull, b) (\<lambda>pause b.
       let h = empty_holder pause in
       (case load (plugin_module plugin_file) config of
          Inl e \<Rightarrow> (Inr h, b)
        | Inr (plugin_name, valid) \<Rightarrow>
            if nm \<noteq> plugin_name then (Inr h, b)
            else if \<not> valid then (Inr h, b)
            else
              (case register_action nm b of
                 (Inl e, b') \<Rightarrow> (Inr h, b')
               | (Inr ret, b') \<Rightarrow>
                   if \<not> ret_truth ret then (Inr h, b')
                   else (Inr (h\<lparr>name := nm, plugin := True\<rparr>), b'))))"

definition is_valid :: "holder \<Rightarrow> bool" where
  "is_valid h = plugin h"

definition holder_del :: "holder \<Rightarrow> holder" where
  "holder_del h = h\<lparr>plugin := False\<rparr>"

definition holder_failure :: "string \<Rightarrow> py_error" where
  "holder_failure message = GenericException (''LoMPluginHolderFailure: ('' @ message @ '')'')"

definition set_pipe :: "int \<Rightarrow> int \<Rightarrow> holder \<Rightarrow> unit res \<times> holder" where
  "set_pipe r w h =
     (if fdW h \<noteq> None then (Inl (holder_failure ''Internal: Duplicate set_pipe''), h)
      else (Inr (), h\<lparr>fdW := Some w, fdR := Some r\<rparr>))"

text \<open>Five bytes are written, and at most a hundred read; without a descriptor the call raises.\<close>

definition raise_signal :: "holder \<Rightarrow> unit res \<times> holder" where
  "raise_signal h = (if fdW h = None then (Inl TypeError, h) else (Inr (), h\<lparr>pipe := pipe h + 5\<rparr>))"

definition drain_signal :: "holder \<Rightarrow> unit res \<times> holder" where
  "drain_signal h = (if fdR h = None then (Inl TypeError, h) else (Inr (), h\<lparr>pipe := pipe h - 100\<rparr>))"

definition do_touch_heartbeat :: "int \<Rightarrow> json \<Rightarrow> holder \<Rightarrow> unit res \<times> holder" where
  "do_touch_heartbeat now inst h = raise_signal (h\<lparr>touch := Some now, instance_id := Some inst\<rparr>)"

definition send_heartbeat :: "holder \<Rightarrow> 's bind \<Rightarrow> unit res \<times> holder \<times> 's bind" where
  "send_heartbeat h b =
     (if touchSent h \<noteq> touch h then
        let h' = h\<lparr>touchSent := touch h\<rparr> in
        (case instance_id h' of
           None \<Rightarrow> (Inl (AttributeError ''instance_id''), h', b)
         | Some inst \<Rightarrow>
             (case touch_heartbeat (name h') inst b of
                (Inl e, b') \<Rightarrow> (Inl e, h', b')
              | (Inr _, b') \<Rightarrow> (Inr (), h', b')))
      else (Inr (), h, b))"

definition run_request :: "int \<Rightarrow> action_response option \<Rightarrow> holder \<Rightarrow> unit res \<times> holder" where
  "run_request now r h = raise_signal (h\<lparr>response := r, req_end := now\<rparr>)"

text \<open>The log message of a busy plugin names a variable that does not exist.\<close>

definition chk_thread_done :: "holder \<Rightarrow> bool res \<times> holder" where
  "chk_thread_done h =
     (case thr h of
        None \<Rightarrow> (Inr True, h)
      | Some pc \<Rightarrow>
          if pc \<noteq> T_exit then (Inl (NameError ''take''), h)
          else (Inr True, h\<lparr>thr := None\<rparr>))"

definition handle_response :: "holder \<Rightarrow> 's bind \<Rightarrow> unit res \<times> holder \<times> 's bind" where
  "handle_response h0 b =
     (case drain_signal h0 of
        (Inl e, h) \<Rightarrow> (Inl e, h, b)
      | (Inr _, h) \<Rightarrow>
          if req_end h = 0 then send_heartbeat h b
          else
            (case response h of
               None \<Rightarrow> (Inr (), h, b)
             | Some r \<Rightarrow>
                 (case write_action_response r b of
                    (Inl e, b') \<Rightarrow> (Inl e, h, b')
                  | (Inr _, b') \<Rightarrow> (Inr (), h\<lparr>response := None, req_end := 0\<rparr>, b'))))"

definition send_request :: "int \<Rightarrow> action_request \<Rightarrow> holder \<Rightarrow> unit res \<times> holder" where
  "send_request now rq h0 =
     bind_st (chk_thread_done h0) (\<lambda>done h.
       if \<not> done then (Inr (), h)
       else if response h \<noteq> None then (Inr (), h)
       else (Inr (), h\<lparr>req_start := now, last_request := Some rq, thr := Some T_run\<rparr>))"

definition holder_shutdown :: "holder \<Rightarrow> unit res \<times> holder" where
  "holder_shutdown h =
     (if \<not> plugin h then (Inl (AttributeError ''shutdown''), h) else (Inr (), h\<lparr>plugin_stopped := True\<rparr>))"

section \<open>Two threads\<close>

text \<open>One access of the request thread to the shared object at a time.\<close>

fun thread_step :: "int \<Rightarrow> thread_pc \<Rightarrow> holder \<Rightarrow> holder" where
  "thread_step now (T_touch i) h = h\<lparr>touch := Some now, thr := Some (T_instance i)\<rparr>"
| "thread_step now (T_instance i) h = h\<lparr>instance_id := Some i, thr := Some T_beat_signal\<rparr>"
| "thread_step now T_beat_signal h =
     (case raise_signal h of
        (Inl _, h') \<Rightarrow> h'\<lparr>thr := Some T_return\<rparr>
      | (Inr _, h') \<Rightarrow> h'\<lparr>thr := Some T_run\<rparr>)"
| "thread_step now (T_response r) h = h\<lparr>response := r, thr := Some T_end\<rparr>"
| "thread_step now T_end h = h\<lparr>req_end := now, thr := Some T_signal\<rparr>"
| "thread_step now T_signal h = (case raise_signal h of (_, h') \<Rightarrow> h'\<lparr>thr := Some T_return\<rparr>)"
| "thread_step now T_return h = h\<lparr>thr := Some T_exit\<rparr>"
| "thread_step now _ h = h"

text \<open>
  Where the main thread is: between two calls, or inside \<^verbatim>\<open>handle_response\<close> and
  \<^verbatim>\<open>send_heartbeat\<close>, or gone with an exception.
\<close>

datatype main_pc =
    M_idle
  | M_drain
  | M_check
  | M_beat
  | M_beat_mark
  | M_beat_send
  | M_response
  | M_write
  | M_clear
  | M_clear_end
  | M_crash py_error

text \<open>What the main thread hands to the library.\<close>

datatype lib_call = Heartbeat_call string json | Response_call action_response

fun main_step :: "main_pc \<Rightarrow> holder \<Rightarrow> main_pc \<times> holder \<times> lib_call list" where
  "main_step M_drain h =
     (case drain_signal h of (Inl e, h') \<Rightarrow> (M_crash e, h', []) | (Inr _, h') \<Rightarrow> (M_check, h', []))"
| "main_step M_check h = (if req_end h = 0 then (M_beat, h, []) else (M_response, h, []))"
| "main_step M_beat h = (if touchSent h \<noteq> touch h then (M_beat_mark, h, []) else (M_idle, h, []))"
| "main_step M_beat_mark h = (M_beat_send, h\<lparr>touchSent := touch h\<rparr>, [])"
| "main_step M_beat_send h =
     (case instance_id h of
        None \<Rightarrow> (M_crash (AttributeError ''instance_id''), h, [])
      | Some i \<Rightarrow> (M_idle, h, [Heartbeat_call (name h) i]))"
| "main_step M_response h = (if response h = None then (M_idle, h, []) else (M_write, h, []))"
| "main_step M_write h =
     (case response h of
        None \<Rightarrow> (M_crash (AttributeError ''value''), h, [])
      | Some r \<Rightarrow> (M_clear, h, [Response_call r]))"
| "main_step M_clear h = (M_clear_end, h\<lparr>response := None\<rparr>, [])"
| "main_step M_clear_end h = (M_idle, h\<lparr>req_end := 0\<rparr>, [])"
| "main_step pc h = (pc, h, [])"

text \<open>The responses the plugin has produced, beside the calls made so far.\<close>

record holder_sys =
  obj :: holder
  main :: main_pc
  calls :: "lib_call list"
  produced :: "action_response list"

definition in_handler :: "main_pc \<Rightarrow> bool" where
  "in_handler pc \<longleftrightarrow> pc \<noteq> M_idle \<and> (\<forall>e. pc \<noteq> M_crash e)"

text \<open>
  The steps. The main thread enters the handler when the pipe is readable, starts a request,
  or stops the plugin, after which it does not enter the handler again; the plugin calls back
  or ends, with \<^verbatim>\<open>None\<close> only when it was stopped.
\<close>

inductive holder_step :: "holder_sys \<Rightarrow> holder_sys \<Rightarrow> bool" where
  poll: "main s = M_idle \<Longrightarrow> 0 < pipe (obj s) \<Longrightarrow> \<not> plugin_stopped (obj s) \<Longrightarrow>
     holder_step s (s\<lparr>main := M_drain\<rparr>)"
| handler: "in_handler (main s) \<Longrightarrow> main_step (main s) (obj s) = (pc, h, cs) \<Longrightarrow>
     holder_step s (s\<lparr>main := pc, obj := h, calls := calls s @ cs\<rparr>)"
| request: "main s = M_idle \<Longrightarrow> send_request now rq (obj s) = (Inr (), h) \<Longrightarrow> holder_step s (s\<lparr>obj := h\<rparr>)"
| request_raises: "main s = M_idle \<Longrightarrow> send_request now rq (obj s) = (Inl e, h) \<Longrightarrow>
     holder_step s (s\<lparr>obj := h, main := M_crash e\<rparr>)"
| stop: "main s = M_idle \<Longrightarrow> holder_shutdown (obj s) = (Inr (), h) \<Longrightarrow> holder_step s (s\<lparr>obj := h\<rparr>)"
| beat: "thr (obj s) = Some T_run \<Longrightarrow>
     holder_step s (s\<lparr>obj := (obj s)\<lparr>thr := Some (T_touch i)\<rparr>\<rparr>)"
| ends: "thr (obj s) = Some T_run \<Longrightarrow> r = None \<longrightarrow> plugin_stopped (obj s) \<Longrightarrow>
     holder_step s (s\<lparr>obj := (obj s)\<lparr>thr := Some (T_response r)\<rparr>\<rparr>)"
| raises: "thr (obj s) = Some T_run \<Longrightarrow>
     holder_step s (s\<lparr>obj := (obj s)\<lparr>thr := Some T_return\<rparr>\<rparr>)"
| thread: "thr (obj s) = Some pc \<Longrightarrow> pc \<notin> {T_run, T_exit} \<Longrightarrow> now > 0 \<Longrightarrow>
     holder_step s
       (s\<lparr>obj := thread_step now pc (obj s),
          produced := produced s @ (case pc of T_response (Some r) \<Rightarrow> [r] | _ \<Rightarrow> [])\<rparr>)"

text \<open>A valid plugin after \<^verbatim>\<open>set_pipe\<close>.\<close>

definition holder_start :: "holder_sys \<Rightarrow> bool" where
  "holder_start s \<longleftrightarrow>
     (\<exists>nm pause r w. obj s = (empty_holder pause)\<lparr>name := nm, plugin := True, fdW := Some w, fdR := Some r\<rparr>) \<and>
     main s = M_idle \<and> calls s = [] \<and> produced s = []"

inductive holder_reach :: "holder_sys \<Rightarrow> bool" where
  start: "holder_start s \<Longrightarrow> holder_reach s"
| step: "holder_reach s \<Longrightarrow> holder_step s t \<Longrightarrow> holder_reach t"

section \<open>The handler goes forward\<close>

text \<open>
  The handler has no loop: its points are ordered by how far it has come, the two branches side by
  side.
\<close>

fun main_rank :: "main_pc \<Rightarrow> nat" where
  "main_rank M_drain = 0"
| "main_rank M_check = 1"
| "main_rank M_beat = 2"
| "main_rank M_response = 2"
| "main_rank M_beat_mark = 3"
| "main_rank M_write = 3"
| "main_rank M_beat_send = 4"
| "main_rank M_clear = 4"
| "main_rank M_clear_end = 5"
| "main_rank M_idle = 6"
| "main_rank (M_crash e) = 6"

instantiation main_pc :: preorder
begin

definition less_eq_main_pc :: "main_pc \<Rightarrow> main_pc \<Rightarrow> bool" where
  "pc \<le> pc' \<longleftrightarrow> main_rank pc \<le> main_rank pc'"

definition less_main_pc :: "main_pc \<Rightarrow> main_pc \<Rightarrow> bool" where
  "pc < pc' \<longleftrightarrow> main_rank pc < main_rank pc'"

instance
  by standard (auto simp: less_eq_main_pc_def less_main_pc_def)

end

lemma main_step_forward: "in_handler pc \<Longrightarrow> pc < fst (main_step pc h)"
  by (cases pc) (auto simp: in_handler_def less_main_pc_def split: sum.splits prod.splits option.splits)

lemma in_handler_rank: "in_handler pc \<Longrightarrow> main_rank pc < 6"
  by (cases pc) (auto simp: in_handler_def)

text \<open>A step of the main thread's own in the handler, and a step of the request thread.\<close>

definition main_turn :: "holder_sys \<Rightarrow> holder_sys \<Rightarrow> bool" where
  "main_turn s t \<longleftrightarrow> in_handler (main s) \<and>
     (case main_step (main s) (obj s) of (pc, h, cs) \<Rightarrow> t = s\<lparr>main := pc, obj := h, calls := calls s @ cs\<rparr>)"

definition thread_turn :: "holder_sys \<Rightarrow> holder_sys \<Rightarrow> bool" where
  "thread_turn s t \<longleftrightarrow> main t = main s \<and> calls t = calls s \<and> (\<exists>pc. thr (obj s) = Some pc \<and> pc \<noteq> T_exit)"

inductive_cases holder_stepE: "holder_step s t"

lemma step_in_handler:
  assumes "holder_step s t" "in_handler (main s)"
  shows "main_turn s t \<or> thread_turn s t"
  using assms(1) by (rule holder_stepE) (use assms(2) in \<open>auto simp: in_handler_def main_turn_def thread_turn_def\<close>)

lemma main_turn_forward: "main_turn s t \<Longrightarrow> main s < main t"
  using main_step_forward [of "main s" "obj s"] by (auto simp: main_turn_def split: prod.splits)

lemma main_turn_possible: "in_handler (main s) \<Longrightarrow> \<exists>t. main_turn s t \<and> holder_step s t"
proof -
  assume h: "in_handler (main s)"
  obtain pc h' cs where m: "main_step (main s) (obj s) = (pc, h', cs)" by (cases "main_step (main s) (obj s)") auto
  then show ?thesis using holder_step.handler [OF h m] h by (auto simp: main_turn_def)
qed

definition main_turns :: "holder_sys list \<Rightarrow> (holder_sys \<times> holder_sys) list" where
  "main_turns ss = filter (\<lambda>(s, t). main_turn s t) (zip ss (tl ss))"

lemma turns_bounded:
  assumes "successively holder_step ss" "\<forall>s \<in> set ss. in_handler (main s)" "ss \<noteq> []"
  shows "main_rank (main (hd ss)) + length (main_turns ss) \<le> 5"
  using assms
proof (induction ss)
  case (Cons x xs)
  show ?case
  proof (cases xs)
    case Nil
    then show ?thesis using Cons.prems(2) in_handler_rank [of "main x"] by (simp add: main_turns_def)
  next
    case (Cons y ys)
    then have "main_rank (main y) + length (main_turns xs) \<le> 5" using Cons.IH Cons.prems by simp
    moreover have "main_turn x y \<and> main x < main y \<or> \<not> main_turn x y \<and> main y = main x"
      using step_in_handler [of x y] main_turn_forward [of x y] Cons.prems Cons by (auto simp: thread_turn_def)
    ultimately show ?thesis using Cons by (auto simp: main_turns_def less_main_pc_def)
  qed
qed simp

section \<open>The invariant\<close>

definition response_calls :: "lib_call list \<Rightarrow> action_response list" where
  "response_calls cs = concat (map (\<lambda>c. case c of Response_call r \<Rightarrow> [r] | _ \<Rightarrow> []) cs)"

lemma response_calls_simps [simp]:
  "response_calls [] = []"
  "response_calls (cs @ ds) = response_calls cs @ response_calls ds"
  "response_calls [Response_call r] = [r]"
  "response_calls [Heartbeat_call nm i] = []"
  by (simp_all add: response_calls_def)

text \<open>The response that is stored and not yet handed over.\<close>

definition kept :: "main_pc \<Rightarrow> action_response option \<Rightarrow> action_response list" where
  "kept pc r = (if pc = M_clear then [] else case r of None \<Rightarrow> [] | Some x \<Rightarrow> [x])"

lemma kept_simps [simp]:
  "kept M_clear r = []" "kept pc None = []" "pc \<noteq> M_clear \<Longrightarrow> kept pc (Some x) = [x]"
  by (simp_all add: kept_def)

definition outstanding :: "holder_sys \<Rightarrow> action_response list" where
  "outstanding s = kept (main s) (response (obj s))"

definition before_response :: "thread_pc option \<Rightarrow> bool" where
  "before_response t \<longleftrightarrow>
     (case t of
        Some T_run \<Rightarrow> True | Some (T_touch _) \<Rightarrow> True | Some (T_instance _) \<Rightarrow> True
      | Some T_beat_signal \<Rightarrow> True | Some (T_response _) \<Rightarrow> True | _ \<Rightarrow> False)"

lemma before_response_simps [simp]:
  "\<not> before_response None" "before_response (Some T_run)" "before_response (Some (T_touch i))"
  "before_response (Some (T_instance i))" "before_response (Some T_beat_signal)"
  "before_response (Some (T_response r))" "\<not> before_response (Some T_end)"
  "\<not> before_response (Some T_signal)" "\<not> before_response (Some T_return)" "\<not> before_response (Some T_exit)"
  by (simp_all add: before_response_def)

definition taking :: "main_pc \<Rightarrow> bool" where
  "taking pc \<longleftrightarrow> pc \<in> {M_response, M_write, M_clear, M_clear_end}"

lemma taking_simps [simp]:
  "\<not> taking M_idle" "\<not> taking M_drain" "\<not> taking M_check" "\<not> taking M_beat" "\<not> taking M_beat_mark"
  "\<not> taking M_beat_send" "taking M_response" "taking M_write" "taking M_clear" "taking M_clear_end"
  "\<not> taking (M_crash e)"
  by (simp_all add: taking_def)

text \<open>Both ends of the pipe are set; the handler is entered only before a stop.\<close>

definition inv_pipe :: "holder_sys \<Rightarrow> bool" where
  "inv_pipe s \<longleftrightarrow> plugin (obj s) \<and> fdR (obj s) \<noteq> None \<and> fdW (obj s) \<noteq> None \<and>
     (in_handler (main s) \<longrightarrow> \<not> plugin_stopped (obj s))"

text \<open>Response and end time are set and cleared together, up to the steps in between.\<close>

definition slot_ok :: "main_pc \<Rightarrow> holder \<Rightarrow> bool" where
  "slot_ok pc h \<longleftrightarrow>
     ((before_response (thr h) \<longrightarrow> response h = None \<and> \<not> taking pc \<and> (\<not> plugin_stopped h \<longrightarrow> req_end h = 0)) \<and>
      (thr h = Some T_end \<longrightarrow> \<not> taking pc) \<and>
      (\<not> plugin_stopped h \<longrightarrow>
         (thr h = Some T_end \<longrightarrow> response h \<noteq> None \<and> req_end h = 0) \<and>
         (response h \<noteq> None \<longrightarrow> thr h = Some T_end \<or> req_end h \<noteq> 0) \<and>
         (req_end h \<noteq> 0 \<longrightarrow> response h \<noteq> None \<or> pc = M_clear_end)) \<and>
      (taking pc \<longrightarrow> req_end h \<noteq> 0) \<and>
      (pc \<in> {M_response, M_write, M_clear} \<longrightarrow> response h \<noteq> None) \<and>
      (pc = M_clear_end \<longrightarrow> response h = None) \<and>
      (thr h = Some (T_response None) \<longrightarrow> plugin_stopped h))"

definition inv_slot :: "holder_sys \<Rightarrow> bool" where
  "inv_slot s \<longleftrightarrow> slot_ok (main s) (obj s)"

definition inv_sent :: "holder_sys \<Rightarrow> bool" where
  "inv_sent s \<longleftrightarrow> produced s = response_calls (calls s) @ outstanding s"

lemma send_request_cases:
  assumes "send_request now rq h = (r, h')"
  shows "(\<exists>pc. thr h = Some pc \<and> pc \<noteq> T_exit \<and> r = Inl (NameError ''take'') \<and> h' = h) \<or>
    (thr h = None \<or> thr h = Some T_exit) \<and> response h \<noteq> None \<and> r = Inr () \<and> h' = h\<lparr>thr := None\<rparr> \<or>
    (thr h = None \<or> thr h = Some T_exit) \<and> response h = None \<and> r = Inr () \<and>
      h' = h\<lparr>thr := Some T_run, req_start := now, last_request := Some rq\<rparr>"
  using assms by (auto simp: send_request_def chk_thread_done_def split: option.splits if_splits)

lemma handler_cases:
  assumes "in_handler pc"
  obtains "pc = M_drain" | "pc = M_check" | "pc = M_beat" | "pc = M_beat_mark" | "pc = M_beat_send"
    | "pc = M_response" | "pc = M_write" | "pc = M_clear" | "pc = M_clear_end"
  using assms by (cases pc) (auto simp: in_handler_def)

lemma thread_cases:
  assumes "pc \<notin> {T_run, T_exit}"
  obtains i where "pc = T_touch i" | i where "pc = T_instance i" | "pc = T_beat_signal"
    | r where "pc = T_response r" | "pc = T_end" | "pc = T_signal" | "pc = T_return"
  using assms by (cases pc) auto

lemma inv_pipe_step: "holder_step s t \<Longrightarrow> inv_pipe s \<Longrightarrow> inv_pipe t"
proof (induction rule: holder_step.induct)
  case (handler s pc h cs)
  then show ?case
    by (elim handler_cases) (auto simp: inv_pipe_def drain_signal_def in_handler_def split: if_splits option.splits)
next
  case (request s now rq h)
  then show ?case using send_request_cases [of now rq "obj s"] by (auto simp: inv_pipe_def in_handler_def)
next
  case (request_raises s now rq e h)
  then show ?case using send_request_cases [of now rq "obj s"] by (auto simp: inv_pipe_def in_handler_def)
next
  case (thread s pc now)
  from thread(2) show ?case using thread(4)
    by (elim thread_cases) (auto simp: inv_pipe_def raise_signal_def)
qed (auto simp: inv_pipe_def in_handler_def holder_shutdown_def split: if_splits)

lemma slot_ok_free: "\<not> taking pc \<Longrightarrow> \<not> taking pc' \<Longrightarrow> slot_ok pc h \<Longrightarrow> slot_ok pc' h"
  by (cases pc; cases pc'; simp add: slot_ok_def)

lemma slot_ok_take:
  assumes "slot_ok M_check h" "\<not> plugin_stopped h" "req_end h \<noteq> 0"
  shows "slot_ok M_response h"
proof -
  have "response h \<noteq> None" "\<not> before_response (thr h)" "thr h \<noteq> Some T_end"
    using assms by (simp_all add: slot_ok_def)
  then show ?thesis using assms(2,3) by (auto simp: slot_ok_def)
qed

lemma main_step_slot:
  assumes "in_handler pc" "main_step pc h = (pc', h', cs)" "\<not> plugin_stopped h" "fdR h \<noteq> None" "slot_ok pc h"
  shows "slot_ok pc' h'"
  using assms(1)
proof (cases rule: handler_cases)
  case 1
  then show ?thesis using assms by (auto simp: drain_signal_def slot_ok_def)
next
  case 2
  then show ?thesis using assms slot_ok_free [of M_check M_beat h] slot_ok_take [of h]
    by (simp split: if_splits)
next
  case 3
  then show ?thesis using assms by (cases "touchSent h = touch h") (auto simp: slot_ok_def)
next
  case 4
  then show ?thesis using assms by (auto simp: slot_ok_def)
next
  case 5
  then show ?thesis using assms by (cases "instance_id h") (auto simp: slot_ok_def)
next
  case 6
  then show ?thesis using assms by (cases "response h") (auto simp: slot_ok_def)
next
  case 7
  then show ?thesis using assms by (cases "response h") (auto simp: slot_ok_def)
next
  case 8
  then show ?thesis using assms by (auto simp: slot_ok_def)
next
  case 9
  then show ?thesis using assms by (auto simp: slot_ok_def)
qed

lemma thread_step_slot:
  assumes "thr h = Some pc" "pc \<notin> {T_run, T_exit}" "0 < now" "fdW h \<noteq> None" "slot_ok m h"
  shows "slot_ok m (thread_step now pc h)"
  using assms(2)
proof (cases rule: thread_cases)
  case (4 r)
  then have "\<not> taking m" "r = None \<longrightarrow> plugin_stopped h" using assms by (auto simp: slot_ok_def)
  then show ?thesis using assms 4 by (cases m; cases r) (auto simp: slot_ok_def)
qed (use assms in \<open>auto simp: slot_ok_def raise_signal_def\<close>)

lemma send_request_slot:
  assumes "send_request now rq h = (r, h')" "slot_ok M_idle h"
  shows "is_ok r \<Longrightarrow> slot_ok M_idle h'" "r = Inl e \<Longrightarrow> slot_ok (M_crash e) h'"
proof -
  consider pc where "thr h = Some pc" "r = Inl (NameError ''take'')" "h' = h"
    | "thr h = None \<or> thr h = Some T_exit" "response h \<noteq> None" "r = Inr ()" "h' = h\<lparr>thr := None\<rparr>"
    | "thr h = None \<or> thr h = Some T_exit" "response h = None" "r = Inr ()"
      "h' = h\<lparr>thr := Some T_run, req_start := now, last_request := Some rq\<rparr>"
    using send_request_cases [OF assms(1)] by metis
  note cases = this
  show "is_ok r \<Longrightarrow> slot_ok M_idle h'"
    by (cases rule: cases; use assms(2) in \<open>auto simp: slot_ok_def\<close>)
  show "r = Inl e \<Longrightarrow> slot_ok (M_crash e) h'"
    by (cases rule: cases; use assms(2) in \<open>auto simp: slot_ok_def\<close>)
qed

lemma inv_slot_step: "holder_step s t \<Longrightarrow> inv_pipe s \<Longrightarrow> inv_slot s \<Longrightarrow> inv_slot t"
proof (induction rule: holder_step.induct)
  case (handler s pc h cs)
  have "slot_ok pc h"
    by (rule main_step_slot [OF handler(1,2)]) (use handler in \<open>simp_all add: inv_pipe_def inv_slot_def\<close>)
  then show ?case by (simp add: inv_slot_def)
next
  case (request s now rq h)
  then show ?case using send_request_slot(1) [OF request(2)] by (simp add: inv_slot_def)
next
  case (request_raises s now rq e h)
  then show ?case using send_request_slot(2) [OF request_raises(2)] by (simp add: inv_slot_def)
next
  case (thread s pc now)
  then show ?case using thread_step_slot [of "obj s" pc now "main s"] by (simp add: inv_slot_def inv_pipe_def)
next
  case (stop s h)
  then show ?case by (auto simp: inv_slot_def slot_ok_def holder_shutdown_def split: if_splits)
next
  case (poll s)
  then show ?case by (auto simp: inv_slot_def slot_ok_def)
next
  case (beat s i)
  then show ?case by (auto simp: inv_slot_def slot_ok_def)
next
  case (ends s r)
  then show ?case by (auto simp: inv_slot_def slot_ok_def)
next
  case (raises s)
  then show ?case by (auto simp: inv_slot_def slot_ok_def)
qed

text \<open>Every response produced has been handed over, in order, or is the one outstanding.\<close>

lemma main_step_sent:
  assumes "in_handler pc" "main_step pc h = (pc', h', cs)" "slot_ok pc h"
  shows "kept pc (response h) = response_calls cs @ kept pc' (response h')"
  using assms(1)
proof (cases rule: handler_cases)
  case 5
  then show ?thesis using assms by (cases "instance_id h"; cases "response h") auto
qed (use assms in \<open>cases "response h"; auto simp: slot_ok_def drain_signal_def split: if_splits\<close>)+

lemma thread_step_sent:
  assumes "thr h = Some pc" "pc \<notin> {T_run, T_exit}" "slot_ok m h"
  shows "kept m (response (thread_step now pc h)) = kept m (response h) @
    (case pc of T_response (Some r) \<Rightarrow> [r] | _ \<Rightarrow> [])"
  using assms(2)
proof (cases rule: thread_cases)
  case (4 r)
  then have "m \<noteq> M_clear" "response h = None" using assms by (auto simp: slot_ok_def)
  then show ?thesis using 4 by (cases r) auto
qed (use assms in \<open>auto simp: raise_signal_def\<close>)

lemma inv_sent_step: "holder_step s t \<Longrightarrow> inv_slot s \<Longrightarrow> inv_sent s \<Longrightarrow> inv_sent t"
proof (induction rule: holder_step.induct)
  case (handler s pc h cs)
  then show ?case using main_step_sent [OF handler(1,2)] by (simp add: inv_sent_def outstanding_def inv_slot_def)
next
  case (request s now rq h)
  then show ?case using send_request_cases [OF request(2)] by (auto simp: inv_sent_def outstanding_def kept_def)
next
  case (request_raises s now rq e h)
  then show ?case using send_request_cases [OF request_raises(2)] by (auto simp: inv_sent_def outstanding_def kept_def)
next
  case (thread s pc now)
  then show ?case using thread_step_sent [of "obj s" pc "main s" now]
    by (simp add: inv_sent_def outstanding_def inv_slot_def)
qed (auto simp: inv_sent_def outstanding_def holder_shutdown_def kept_def split: if_splits)

text \<open>A stored response never waits without a signal in the pipe, or about to be written.\<close>

definition inv_wake :: "holder_sys \<Rightarrow> bool" where
  "inv_wake s \<longleftrightarrow>
     (let h = obj s in
      \<not> plugin_stopped h \<and> response h \<noteq> None \<and> req_end h \<noteq> 0 \<and>
        main s \<in> {M_idle, M_beat, M_beat_mark, M_beat_send} \<longrightarrow>
      0 < pipe h \<or> thr h = Some T_signal)"

lemma main_step_wake:
  assumes "in_handler pc" "main_step pc h = (pc', h', cs)" "slot_ok pc h"
    "pc \<in> {M_beat, M_beat_mark, M_beat_send} \<Longrightarrow> response h \<noteq> None \<Longrightarrow> req_end h \<noteq> 0 \<Longrightarrow>
     0 < pipe h \<or> thr h = Some T_signal"
    "response h' \<noteq> None" "req_end h' \<noteq> 0" "pc' \<in> {M_idle, M_beat, M_beat_mark, M_beat_send}"
  shows "0 < pipe h' \<or> thr h' = Some T_signal"
  using assms(1)
proof (cases rule: handler_cases)
  case 5
  then show ?thesis using assms by (cases "instance_id h") auto
next
  case 7
  then show ?thesis using assms by (cases "response h") auto
qed (use assms in \<open>auto simp: drain_signal_def slot_ok_def split: if_splits\<close>)

lemma thread_step_wake:
  assumes "thr h = Some pc" "pc \<notin> {T_run, T_exit}" "slot_ok m h" "\<not> plugin_stopped h" "fdW h \<noteq> None"
    "response h \<noteq> None \<Longrightarrow> req_end h \<noteq> 0 \<Longrightarrow> 0 < pipe h \<or> thr h = Some T_signal"
    "response (thread_step now pc h) \<noteq> None" "req_end (thread_step now pc h) \<noteq> 0"
  shows "0 < pipe (thread_step now pc h) \<or> thr (thread_step now pc h) = Some T_signal"
  using assms(2)
proof (cases rule: thread_cases)
  case (4 r)
  then have "req_end h = 0" using assms by (auto simp: slot_ok_def)
  then show ?thesis using 4 assms by simp
qed (use assms in \<open>auto simp: raise_signal_def\<close>)

lemma inv_wake_step: "holder_step s t \<Longrightarrow> inv_pipe s \<Longrightarrow> inv_slot s \<Longrightarrow> inv_wake s \<Longrightarrow> inv_wake t"
proof (induction rule: holder_step.induct)
  case (handler s pc h cs)
  have "\<not> plugin_stopped (obj s)" using handler by (simp add: inv_pipe_def)
  then show ?case using main_step_wake [OF handler(1,2)] handler(4,5)
    by (auto simp: inv_wake_def inv_slot_def Let_def)
next
  case (request s now rq h)
  then show ?case using send_request_cases [OF request(2)]
    by (auto simp: inv_wake_def Let_def)
next
  case (thread s pc now)
  have "plugin_stopped (thread_step now pc (obj s)) = plugin_stopped (obj s)"
    using thread(2) by (cases pc) (auto simp: raise_signal_def)
  then show ?case using thread_step_wake [of "obj s" pc "main s" now] thread
    by (auto simp: inv_wake_def inv_slot_def inv_pipe_def Let_def)
next
  case (ends s r)
  then show ?case by (auto simp: inv_wake_def Let_def inv_slot_def slot_ok_def)
next
  case (beat s i)
  then show ?case by (auto simp: inv_wake_def Let_def inv_slot_def slot_ok_def)
next
  case (raises s)
  then show ?case by (auto simp: inv_wake_def Let_def inv_slot_def slot_ok_def)
qed (auto simp: inv_wake_def Let_def holder_shutdown_def split: if_splits)

text \<open>
  Before the first heartbeat every signal is that of a completed request: the handler then
  finds the end time set and does not read the instance, which is not set.
\<close>

definition inst_ok :: "main_pc \<Rightarrow> holder \<Rightarrow> bool" where
  "inst_ok pc h \<longleftrightarrow>
     (touch h = None \<or> (\<exists>i. thr h = Some (T_instance i))) \<and>
     pc \<notin> {M_beat, M_beat_mark, M_beat_send} \<and>
     thr h \<noteq> Some T_beat_signal \<and>
     pipe h \<le> 5 \<and>
     (0 < pipe h \<or> pc \<in> {M_drain, M_check} \<longrightarrow> req_end h \<noteq> 0) \<and>
     (pc \<notin> {M_idle, M_drain} \<longrightarrow> pipe h = 0) \<and>
     (before_response (thr h) \<or> thr h = Some T_end \<or> thr h = Some T_signal \<longrightarrow> pipe h = 0 \<and> pc = M_idle) \<and>
     (thr h = Some T_signal \<longrightarrow> req_end h \<noteq> 0)"

definition inv_inst :: "holder_sys \<Rightarrow> bool" where
  "inv_inst s \<longleftrightarrow>
     (\<not> plugin_stopped (obj s) \<and> instance_id (obj s) = None \<and> (\<forall>e. main s \<noteq> M_crash e) \<longrightarrow>
      inst_ok (main s) (obj s))"

lemma main_step_inst:
  assumes "in_handler pc" "main_step pc h = (pc', h', cs)" "slot_ok pc h" "inst_ok pc h"
    "\<forall>e. pc' \<noteq> M_crash e"
  shows "inst_ok pc' h'"
  using assms(1)
proof (cases rule: handler_cases)
  case 1
  then show ?thesis using assms by (auto simp: inst_ok_def drain_signal_def split: if_splits)
next
  case 2
  then show ?thesis using assms by (cases "req_end h = 0") (auto simp: inst_ok_def)
next
  case 7
  then show ?thesis using assms by (cases "response h") (auto simp: inst_ok_def)
qed (use assms in \<open>auto simp: inst_ok_def split: if_splits\<close>)

lemma thread_step_inst:
  assumes "thr h = Some pc" "pc \<notin> {T_run, T_exit}" "0 < now" "fdW h \<noteq> None" "slot_ok m h" "inst_ok m h"
    "instance_id (thread_step now pc h) = None"
  shows "inst_ok m (thread_step now pc h)"
  using assms(2)
proof (cases rule: thread_cases)
  case 6
  then show ?thesis using assms by (auto simp: inst_ok_def raise_signal_def)
qed (use assms in \<open>auto simp: inst_ok_def\<close>)

lemma thread_step_keeps:
  "plugin_stopped (thread_step now pc h) = plugin_stopped h"
  "instance_id (thread_step now pc h) = None \<Longrightarrow> instance_id h = None"
  "plugin (thread_step now pc h) = plugin h"
  by (induction now pc h rule: thread_step.induct) (auto simp: raise_signal_def split: if_splits)

lemma send_request_inst:
  assumes "send_request now rq h = (Inr (), h')" "slot_ok M_idle h" "\<not> plugin_stopped h" "inst_ok M_idle h"
  shows "inst_ok M_idle h'"
proof -
  consider "thr h = None \<or> thr h = Some T_exit" "h' = h\<lparr>thr := None\<rparr>"
    | "thr h = None \<or> thr h = Some T_exit" "response h = None"
      "h' = h\<lparr>thr := Some T_run, req_start := now, last_request := Some rq\<rparr>"
    using send_request_cases [OF assms(1)] by auto
  then show ?thesis
  proof cases
    case 1
    then show ?thesis using assms(4) by (auto simp: inst_ok_def)
  next
    case 2
    then have "req_end h = 0" using assms(2,3) by (auto simp: slot_ok_def)
    then have "pipe h = 0" using assms(4) by (auto simp: inst_ok_def)
    then show ?thesis using 2 assms(4) by (auto simp: inst_ok_def)
  qed
qed

lemma inv_inst_step: "holder_step s t \<Longrightarrow> inv_pipe s \<Longrightarrow> inv_slot s \<Longrightarrow> inv_inst s \<Longrightarrow> inv_inst t"
proof (induction rule: holder_step.induct)
  case (poll s)
  then show ?case by (auto simp: inv_inst_def inst_ok_def)
next
  case (handler s pc h cs)
  have "instance_id h = instance_id (obj s)" "plugin_stopped h = plugin_stopped (obj s)"
    using handler(1)
    by (cases rule: handler_cases; use handler(2) in \<open>auto simp: drain_signal_def split: if_splits option.splits\<close>)+
  moreover have "\<forall>e. main s \<noteq> M_crash e" using handler(1) by (simp add: in_handler_def)
  ultimately show ?case using main_step_inst [OF handler(1,2)] handler(4,5)
    by (auto simp: inv_inst_def inv_slot_def)
next
  case (request s now rq h)
  have "plugin_stopped h = plugin_stopped (obj s)" "instance_id h = instance_id (obj s)"
    using send_request_cases [OF request(2)] by auto
  then show ?case using send_request_inst [OF request(2)] request(1,4,5)
    by (simp add: inv_inst_def inv_slot_def)
next
  case (thread s pc now)
  have same: "plugin_stopped (thread_step now pc (obj s)) = plugin_stopped (obj s)"
    "instance_id (thread_step now pc (obj s)) = None \<Longrightarrow> instance_id (obj s) = None"
    by (simp_all add: thread_step_keeps)
  then show ?case using thread_step_inst [of "obj s" pc now "main s"] thread
    by (auto simp: inv_inst_def inv_slot_def inv_pipe_def)
next
  case (beat s i)
  then show ?case by (auto simp: inv_inst_def inst_ok_def)
next
  case (ends s r)
  then show ?case by (auto simp: inv_inst_def inst_ok_def)
next
  case (raises s)
  then show ?case by (auto simp: inv_inst_def inst_ok_def)
qed (auto simp: inv_inst_def holder_shutdown_def split: if_splits)

text \<open>The main thread is gone only because a request found the last thread still alive.\<close>

definition inv_crash :: "holder_sys \<Rightarrow> bool" where
  "inv_crash s \<longleftrightarrow> (\<forall>e. main s = M_crash e \<longrightarrow> e = NameError ''take'')"

lemma inv_crash_step:
  "holder_step s t \<Longrightarrow> inv_pipe s \<Longrightarrow> inv_slot s \<Longrightarrow> inv_inst s \<Longrightarrow> inv_crash s \<Longrightarrow> inv_crash t"
proof (induction rule: holder_step.induct)
  case (handler s pc h cs)
  from handler(1) show ?case
  proof (cases rule: handler_cases)
    case 1
    then show ?thesis using handler by (auto simp: inv_crash_def inv_pipe_def drain_signal_def split: if_splits)
  next
    case 5
    then have "instance_id (obj s) \<noteq> None" using handler by (auto simp: inv_inst_def inst_ok_def inv_pipe_def)
    then show ?thesis using handler 5 by (auto simp: inv_crash_def split: option.splits)
  next
    case 7
    then have "response (obj s) \<noteq> None" using handler by (auto simp: inv_slot_def slot_ok_def)
    then show ?thesis using handler 7 by (auto simp: inv_crash_def split: option.splits)
  qed (use handler in \<open>auto simp: inv_crash_def split: if_splits\<close>)
next
  case (request_raises s now rq e h)
  then show ?case using send_request_cases [OF request_raises(2)] by (auto simp: inv_crash_def)
qed (auto simp: inv_crash_def)

lemma holder_invariants:
  "holder_reach s \<Longrightarrow> inv_pipe s \<and> inv_slot s \<and> inv_sent s \<and> inv_wake s \<and> inv_inst s \<and> inv_crash s"
proof (induction rule: holder_reach.induct)
  case (start s)
  then show ?case
    by (auto simp: holder_start_def empty_holder_def inv_pipe_def inv_slot_def slot_ok_def inv_sent_def
        outstanding_def inv_wake_def inv_inst_def inst_ok_def inv_crash_def in_handler_def Let_def)
next
  case (step s t)
  then show ?case
    using inv_pipe_step inv_slot_step inv_sent_step inv_wake_step inv_inst_step inv_crash_step by blast
qed

lemmas holder_inv = holder_invariants [THEN conjunct1]
  holder_invariants [THEN conjunct2, THEN conjunct1]
  holder_invariants [THEN conjunct2, THEN conjunct2, THEN conjunct1]
  holder_invariants [THEN conjunct2, THEN conjunct2, THEN conjunct2, THEN conjunct1]
  holder_invariants [THEN conjunct2, THEN conjunct2, THEN conjunct2, THEN conjunct2, THEN conjunct1]
  holder_invariants [THEN conjunct2, THEN conjunct2, THEN conjunct2, THEN conjunct2, THEN conjunct2]

section \<open>The methods are runs of the main thread's steps\<close>

fun handler_run :: "nat \<Rightarrow> main_pc \<times> holder \<Rightarrow> (main_pc \<times> holder) \<times> lib_call list" where
  "handler_run 0 (pc, h) = ((pc, h), [])"
| "handler_run (Suc n) (pc, h) =
     (case main_step pc h of (pc', h', cs) \<Rightarrow> (case handler_run n (pc', h') of (r, ds) \<Rightarrow> (r, cs @ ds)))"

text \<open>The calls of a run, made on the library; what they return is not looked at.\<close>

fun make_calls :: "lib_call list \<Rightarrow> 's bind \<Rightarrow> unit res \<times> 's bind" where
  "make_calls [] b = (Inr (), b)"
| "make_calls (Heartbeat_call nm i # cs) b = bind_st (touch_heartbeat nm i b) (\<lambda>_ b. make_calls cs b)"
| "make_calls (Response_call r # cs) b = bind_st (write_action_response r b) (\<lambda>_ b. make_calls cs b)"

text \<open>
  Without steps of the request thread in between, seven steps from the entry of the handler
  are what \<^verbatim>\<open>handle_response\<close> does, if the library's call does not raise.
\<close>

lemma handle_response_run:
  assumes "fdR h \<noteq> None" "handle_response h b = (Inr (), h', b')"
  shows "\<exists>cs. handler_run 7 (M_drain, h) = ((M_idle, h'), cs) \<and> make_calls cs b = (Inr (), b')"
  using assms
  by (auto simp: handle_response_def drain_signal_def send_heartbeat_def numeral_eq_Suc Let_def bind_st_def
      split: if_splits option.splits prod.splits sum.splits)

section \<open>Properties\<close>

text \<open>C1. However the two threads interleave, the responses handed to the library are the responses
  the plugin produced, each once and in order, except for at most the last one, which is still
  stored: no response is lost, repeated or overtaken.\<close>

theorem responses_once_in_order:
  assumes "holder_reach s"
  shows "produced s = response_calls (calls s) @ outstanding s \<and> length (outstanding s) \<le> 1"
  using holder_inv(3) [OF assms] by (auto simp: inv_sent_def outstanding_def kept_def split: option.splits)

text \<open>C7. No wake-up is lost: when the main thread is idle, the plugin was not stopped and a completed
  response is stored, the pipe is readable, or the request thread is about to write to it.\<close>

theorem no_lost_wakeup:
  assumes "holder_reach s" "main s = M_idle" "\<not> plugin_stopped (obj s)" "response (obj s) \<noteq> None"
    "thr (obj s) \<noteq> Some T_end"
  shows "0 < pipe (obj s) \<or> thr (obj s) = Some T_signal"
  using holder_inv(2,4) [OF assms(1)] assms(2-) by (auto simp: inv_wake_def inv_slot_def slot_ok_def Let_def)

text \<open>C26. In the methods of a holder the main thread never reads the instance of a heartbeat before the request
  thread has set it, and never hands over a missing response: what the library's calls raise apart, the only exception
  these methods end the main thread with, however the two threads interleave, is the \<^verbatim>\<open>NameError\<close> of a
  request that arrives while the last request's thread is alive.\<close>

theorem main_thread_exceptions:
  assumes "holder_reach s" "main s = M_crash e"
  shows "e = NameError ''take''"
  using holder_inv(6) [OF assms(1)] assms(2) by (simp add: inv_crash_def)

text \<open>Steps from a start state, to exhibit runs.\<close>

definition first_holder :: holder where
  "first_holder = (empty_holder JNull)\<lparr>name := ''link_flap'', plugin := True, fdW := Some 4, fdR := Some 3\<rparr>"

definition first_sys :: holder_sys where
  "first_sys = \<lparr>obj = first_holder, main = M_idle, calls = [], produced = []\<rparr>"

lemma first_reach: "holder_reach first_sys"
proof (rule holder_reach.start)
  show "holder_start first_sys"
    unfolding holder_start_def first_sys_def first_holder_def by auto
qed

lemmas reach_handler = holder_reach.step [OF _ holder_step.handler]
lemmas reach_thread = holder_reach.step [OF _ holder_step.thread]

text \<open>After a request whose plugin answers with \<open>r\<close>: stored, signalled, the thread not yet gone.\<close>

definition answered :: "int \<Rightarrow> action_request \<Rightarrow> action_response \<Rightarrow> holder_sys" where
  "answered now rq r =
     first_sys\<lparr>obj := first_holder\<lparr>req_start := now, last_request := Some rq, thr := Some T_return,
                 response := Some r, req_end := now, pipe := 5\<rparr>,
               produced := [r]\<rparr>"

lemma answered_reach:
  assumes "0 < now"
  shows "holder_reach (answered now rq r)"
proof -
  let ?h1 = "first_holder\<lparr>req_start := now, last_request := Some rq, thr := Some T_run\<rparr>"
  have "send_request now rq first_holder = (Inr (), ?h1)"
    by (simp add: send_request_def chk_thread_done_def first_holder_def empty_holder_def)
  then have "holder_step first_sys (first_sys\<lparr>obj := ?h1\<rparr>)"
    by (intro holder_step.request [of first_sys now rq]) (simp_all add: first_sys_def)
  then have 1: "holder_reach (first_sys\<lparr>obj := ?h1\<rparr>)" by (rule holder_reach.step [OF first_reach])
  have 2: "holder_reach (first_sys\<lparr>obj := ?h1\<lparr>thr := Some (T_response (Some r))\<rparr>\<rparr>)"
    using holder_reach.step [OF 1 holder_step.ends [of _ "Some r"]] by simp
  have 3: "holder_reach (first_sys\<lparr>obj := ?h1\<lparr>thr := Some T_end, response := Some r\<rparr>, produced := [r]\<rparr>)"
    using reach_thread [OF 2, of "T_response (Some r)" now] assms by (simp add: first_sys_def first_holder_def empty_holder_def)
  have 4: "holder_reach (first_sys\<lparr>obj := ?h1\<lparr>thr := Some T_signal, response := Some r, req_end := now\<rparr>, produced := [r]\<rparr>)"
    using reach_thread [OF 3, of T_end now] assms by (simp add: first_sys_def first_holder_def empty_holder_def)
  show ?thesis
    using reach_thread [OF 4, of T_signal now] assms
    by (simp add: first_sys_def raise_signal_def first_holder_def empty_holder_def answered_def)
qed

text \<open>The main thread's handler after that: the response is handed over.\<close>

definition handed_over :: "int \<Rightarrow> action_request \<Rightarrow> action_response \<Rightarrow> holder_sys" where
  "handed_over now rq r =
     first_sys\<lparr>obj := first_holder\<lparr>req_start := now, last_request := Some rq, thr := Some T_return\<rparr>,
               calls := [Response_call r], produced := [r]\<rparr>"

lemma handed_over_reach:
  assumes "0 < now"
  shows "holder_reach (handed_over now rq r)"
proof -
  let ?s = "answered now rq r"
  have "holder_step ?s (?s\<lparr>main := M_drain\<rparr>)"
    by (rule holder_step.poll) (simp_all add: answered_def first_sys_def first_holder_def empty_holder_def)
  then have 1: "holder_reach (?s\<lparr>main := M_drain\<rparr>)" by (rule holder_reach.step [OF answered_reach [OF assms]])
  have 2: "holder_reach (?s\<lparr>main := M_check, obj := (obj ?s)\<lparr>pipe := 0\<rparr>\<rparr>)"
    using reach_handler [OF 1]
    by (simp add: in_handler_def drain_signal_def answered_def first_sys_def first_holder_def empty_holder_def)
  have 3: "holder_reach (?s\<lparr>main := M_response, obj := (obj ?s)\<lparr>pipe := 0\<rparr>\<rparr>)"
    using reach_handler [OF 2] assms by (simp add: in_handler_def answered_def first_sys_def)
  have 4: "holder_reach (?s\<lparr>main := M_write, obj := (obj ?s)\<lparr>pipe := 0\<rparr>\<rparr>)"
    using reach_handler [OF 3] by (simp add: in_handler_def answered_def first_sys_def)
  have 5: "holder_reach (?s\<lparr>main := M_clear, obj := (obj ?s)\<lparr>pipe := 0\<rparr>, calls := [Response_call r]\<rparr>)"
    using reach_handler [OF 4] by (simp add: in_handler_def answered_def first_sys_def)
  have 6: "holder_reach (?s\<lparr>main := M_clear_end, obj := (obj ?s)\<lparr>pipe := 0, response := None\<rparr>, calls := [Response_call r]\<rparr>)"
    using reach_handler [OF 5] by (simp add: in_handler_def answered_def first_sys_def)
  show ?thesis
    using reach_handler [OF 6]
    by (simp add: in_handler_def answered_def first_sys_def handed_over_def first_holder_def empty_holder_def)
qed

definition sample_rq :: action_request where
  "sample_rq = \<lparr>str_data = '''', req_type = JStr REQ_ACTION_TYPE_ACTION, attrs = None\<rparr>"

definition sample_rsp :: action_response where
  "sample_rsp = \<lparr>resp_data = ''{}''\<rparr>"

lemma responses_once_in_order_witness:
  "produced (answered 1 sample_rq sample_rsp) =
     response_calls (calls (answered 1 sample_rq sample_rsp)) @ outstanding (answered 1 sample_rq sample_rsp)"
  using responses_once_in_order [OF answered_reach] by simp

lemma no_lost_wakeup_witness: "0 < pipe (obj (answered 1 sample_rq sample_rsp))"
  using no_lost_wakeup [OF answered_reach, of 1 sample_rq sample_rsp]
  by (simp add: answered_def first_sys_def first_holder_def empty_holder_def)

text \<open>C27. The crash is reachable in the plainest run: the plugin has answered its first request, the main thread was
  woken and has handed the response over, the pipe is drained and the holder is free again, and the request thread has
  written its signal and has only its return left. A request that comes now, whatever it is, is not dropped as the code
  means to: the main thread ends with \<^verbatim>\<open>NameError\<close>. After that one step of the request thread the
  same request starts the plugin.\<close>

theorem next_request_can_crash:
  "\<exists>s. holder_reach s \<and> main s = M_idle \<and> thr (obj s) = Some T_return \<and> last_request (obj s) = Some rq \<and>
     response (obj s) = None \<and> req_end (obj s) = 0 \<and> pipe (obj s) = 0 \<and> produced s = [r] \<and> calls s = [Response_call r] \<and>
     (\<forall>now rq2. send_request now rq2 (obj s) = (Inl (NameError ''take''), obj s)) \<and>
     holder_step s (s\<lparr>main := M_crash (NameError ''take'')\<rparr>) \<and>
     holder_step s (s\<lparr>obj := (obj s)\<lparr>thr := Some T_exit\<rparr>\<rparr>) \<and>
     (\<forall>now rq2. \<exists>h. send_request now rq2 ((obj s)\<lparr>thr := Some T_exit\<rparr>) = (Inr (), h) \<and> thr h = Some T_run \<and> last_request h = Some rq2)"
proof -
  let ?s = "handed_over 1 rq r"
  have s: "main ?s = M_idle" "thr (obj ?s) = Some T_return" "last_request (obj ?s) = Some rq" "response (obj ?s) = None"
      "req_end (obj ?s) = 0" "pipe (obj ?s) = 0" "produced ?s = [r]" "calls ?s = [Response_call r]"
    by (simp_all add: handed_over_def first_sys_def first_holder_def empty_holder_def)
  have busy: "send_request now rq2 (obj ?s) = (Inl (NameError ''take''), obj ?s)" for now rq2
    using s(2) by (simp add: send_request_def chk_thread_done_def)
  have crash: "holder_step ?s (?s\<lparr>main := M_crash (NameError ''take'')\<rparr>)"
    using holder_step.request_raises [OF s(1) busy] by simp
  have return: "holder_step ?s (?s\<lparr>obj := (obj ?s)\<lparr>thr := Some T_exit\<rparr>\<rparr>)"
    using holder_step.thread [OF s(2), of 1] by simp
  have free: "\<exists>h. send_request now rq2 ((obj ?s)\<lparr>thr := Some T_exit\<rparr>) = (Inr (), h) \<and> thr h = Some T_run \<and> last_request h = Some rq2"
    for now rq2 using s(4) by (simp add: send_request_def chk_thread_done_def)
  have "holder_reach ?s" by (rule handed_over_reach) simp
  with s busy crash return free show ?thesis by (intro exI [of _ ?s]) blast
qed

lemma main_thread_exceptions_witness:
  "\<exists>s. holder_reach s \<and> main s = M_crash (NameError ''take'')"
proof -
  let ?s = "handed_over 1 sample_rq sample_rsp"
  let ?t = "?s\<lparr>obj := obj ?s, main := M_crash (NameError ''take'')\<rparr>"
  have "send_request 2 sample_rq (obj ?s) = (Inl (NameError ''take''), obj ?s)"
    by (simp add: send_request_def chk_thread_done_def handed_over_def)
  then have "holder_step ?s ?t"
    by (intro holder_step.request_raises) (simp_all add: handed_over_def first_sys_def)
  then have reach: "holder_reach ?t" by (rule holder_reach.step [OF handed_over_reach, rotated]) simp
  obtain e where "main ?t = M_crash e" by simp
  with main_thread_exceptions [OF reach this] reach show ?thesis by blast
qed

text \<open>C14. A stored response reaches the library: when the main thread is idle, the plugin was not stopped, the request
  thread has gone and a response is stored, the pipe is readable, so the poll starts the handler; and the
  handler makes exactly one call, which hands this response over, and leaves the holder ready for the next
  request, which starts the plugin again.\<close>

theorem stored_response_delivered:
  assumes "holder_reach s" "main s = M_idle" "\<not> plugin_stopped (obj s)" "response (obj s) = Some r"
    "thr (obj s) = None \<or> thr (obj s) = Some T_exit"
  shows "holder_step s (s\<lparr>main := M_drain\<rparr>) \<and>
    (\<exists>h. handler_run 6 (M_drain, obj s) = ((M_idle, h), [Response_call r]) \<and> response h = None \<and> req_end h = 0 \<and>
       (\<exists>h'. send_request now rq h = (Inr (), h') \<and> thr h' = Some T_run))"
proof -
  have pipe: "0 < pipe (obj s)" "req_end (obj s) \<noteq> 0" "fdR (obj s) \<noteq> None"
    using holder_inv(1,2,4) [OF assms(1)] assms(2-)
    by (auto simp: inv_wake_def inv_slot_def slot_ok_def inv_pipe_def Let_def)
  have step: "holder_step s (s\<lparr>main := M_drain\<rparr>)" by (rule holder_step.poll [OF assms(2) pipe(1) assms(3)])
  let ?h = "(obj s)\<lparr>pipe := pipe (obj s) - 100, response := None, req_end := 0\<rparr>"
  have run: "handler_run 6 (M_drain, obj s) = ((M_idle, ?h), [Response_call r])"
    using pipe assms(4) by (auto simp: drain_signal_def numeral_eq_Suc)
  have "\<exists>h'. send_request now rq ?h = (Inr (), h') \<and> thr h' = Some T_run"
    using assms(5) by (auto simp: send_request_def chk_thread_done_def)
  moreover have "response ?h = None" "req_end ?h = 0" by simp_all
  ultimately show ?thesis using step run by blast
qed

lemma stored_response_delivered_witness:
  "\<exists>h. handler_run 6 (M_drain, (obj (answered 1 sample_rq sample_rsp))\<lparr>thr := Some T_exit\<rparr>) =
     ((M_idle, h), [Response_call sample_rsp])"
proof -
  let ?s = "answered 1 sample_rq sample_rsp"
  let ?t = "?s\<lparr>obj := (obj ?s)\<lparr>thr := Some T_exit\<rparr>\<rparr>"
  have "holder_reach ?t"
    using reach_thread [OF answered_reach [of 1 sample_rq sample_rsp], of T_return 1] by (simp add: answered_def first_sys_def)
  moreover have "main ?t = M_idle" "\<not> plugin_stopped (obj ?t)" "response (obj ?t) = Some sample_rsp" "thr (obj ?t) = None \<or> thr (obj ?t) = Some T_exit"
    by (simp_all add: answered_def first_sys_def first_holder_def empty_holder_def)
  ultimately show ?thesis using stored_response_delivered [of ?t sample_rsp] by auto
qed

text \<open>C15. The handler ends however the request thread interleaves: in a run of steps during which the main
  thread stays in the handler, every step is the main thread's own or one of a request thread that is alive, at most five are
  the main thread's own, and it always has a next one of its own: the sixth at the latest leaves the handler.\<close>

theorem handler_ends:
  assumes "successively holder_step ss" "\<forall>s \<in> set ss. in_handler (main s)"
  shows "(\<forall>(s, t) \<in> set (zip ss (tl ss)). main_turn s t \<or> thread_turn s t) \<and> length (main_turns ss) \<le> 5 \<and>
    (\<forall>s \<in> set ss. \<exists>t. main_turn s t \<and> holder_step s t)"
proof (intro conjI)
  have step: "holder_step (ss ! i) (ss ! Suc i)" if "Suc i < length ss" for i
    using assms(1) that by (simp add: successively_conv_nth)
  have "main_turn (ss ! i) (ss ! Suc i) \<or> thread_turn (ss ! i) (ss ! Suc i)" if "Suc i < length ss" for i
    using step_in_handler [OF step [OF that]] assms(2) that by simp
  then show "\<forall>(s, t) \<in> set (zip ss (tl ss)). main_turn s t \<or> thread_turn s t" by (fastforce simp: set_zip nth_tl less_diff_conv)
  show "length (main_turns ss) \<le> 5"
    using turns_bounded [OF assms] by (cases "ss = []") (auto simp: main_turns_def)
  show "\<forall>s \<in> set ss. \<exists>t. main_turn s t \<and> holder_step s t" using assms(2) main_turn_possible by blast
qed

text \<open>A step of the handler, one of the request thread, and the handler again.\<close>

lemma handler_ends_witness:
  "\<exists>s t u. holder_step s t \<and> holder_step t u \<and> main s = M_drain \<and> main u = M_check \<and> length (main_turns [s, t, u]) \<le> 5 \<and>
     (\<exists>v. main_turn u v)"
proof -
  let ?s = "(answered 1 sample_rq sample_rsp)\<lparr>main := M_drain\<rparr>"
  let ?t = "?s\<lparr>obj := (obj ?s)\<lparr>thr := Some T_exit\<rparr>\<rparr>"
  let ?u = "?t\<lparr>main := M_check, obj := (obj ?t)\<lparr>pipe := 0\<rparr>\<rparr>"
  have 1: "holder_step ?s ?t"
    using holder_step.thread [of ?s T_return 1] by (simp add: answered_def first_sys_def)
  have "main_step M_drain (obj ?t) = (M_check, (obj ?t)\<lparr>pipe := 0\<rparr>, [])"
    by (simp add: drain_signal_def answered_def first_sys_def first_holder_def empty_holder_def)
  then have 2: "holder_step ?t ?u"
    using holder_step.handler [of ?t M_check "(obj ?t)\<lparr>pipe := 0\<rparr>" "[]"] by (simp add: in_handler_def)
  have "successively holder_step [?s, ?t, ?u]" "\<forall>s \<in> set [?s, ?t, ?u]. in_handler (main s)"
    using 1 2 by (simp_all add: in_handler_def)
  note ends = handler_ends [OF this]
  have "\<exists>v. main_turn ?u v" using ends [THEN conjunct2, THEN conjunct2] by auto
  with 1 2 ends [THEN conjunct2, THEN conjunct1] show ?thesis
    by (intro exI [of _ ?s] exI [of _ ?t] exI [of _ ?u]) simp
qed

end
