(* ===== verification/PluginProc.thy ===== *)
theory PluginProc
  imports PluginHolder TestLibrary
begin

text \<open>
  The plugin process (\<^verbatim>\<open>plugin_proc.py\<close>, the functions beside the holder class): signals,
  requests of the server, the loading of plugins, the poll loop, and \<^verbatim>\<open>main\<close>. The state is the
  module's globals with the two dictionaries of \<^verbatim>\<open>main_run\<close>. What happens around the main
  thread is a parameter: the clock, the signals delivered, the steps the request threads
  take on their holders between two operations, and what the server meanwhile writes into the library. A plugin's
  module is found over the module path at that moment. An outcome \<open>None\<close> is a run that has not
  returned.
\<close>

record 's proc =
  signal_raised :: bool
  sigusr1_raised :: bool
  sigterm_raised :: bool
  shutdown_request :: bool
  this_proc_name :: string
  sys_path :: "string list"
  pcfg :: config
  pbind :: "'s bind"
  active :: "(string, holder) dict"
  pipe_list :: "(int, string) dict"
  syslog_name :: string
  log_level :: int
  ticks :: nat

record 's surroundings =
  clock :: "nat \<Rightarrow> int"
  signals :: "nat \<Rightarrow> int list"
  others :: "nat \<Rightarrow> string \<Rightarrow> holder \<Rightarrow> holder"
  server :: "nat \<Rightarrow> 's \<Rightarrow> 's"
  cfg_change :: "nat \<Rightarrow> config \<Rightarrow> config"
  os_pipe :: "nat \<Rightarrow> int \<times> int"
  loader :: "string list \<Rightarrow> string \<Rightarrow> json \<Rightarrow> (string \<times> bool) res"
  names :: "string list"
  argv0 :: string
  ct_dir :: string

definition SIGHUP :: int where "SIGHUP = 1"
definition SIGUSR1 :: int where "SIGUSR1 = 10"
definition SIGTERM :: int where "SIGTERM = 15"
definition POLL_TIMEOUT :: int where "POLL_TIMEOUT = 2"

section \<open>Signals and time\<close>

definition signal_handler :: "int \<Rightarrow> 's proc \<Rightarrow> 's proc" where
  "signal_handler signum p0 =
     (let p = p0\<lparr>signal_raised := True\<rparr> in
      if signum = SIGUSR1 then p\<lparr>sigusr1_raised := True\<rparr>
      else if signum = SIGTERM then p\<lparr>sigterm_raised := True\<rparr>
      else p)"

text \<open>What the request threads, the server and the signals did until now.\<close>

definition pass :: "'s surroundings \<Rightarrow> 's proc \<Rightarrow> 's proc" where
  "pass env p =
     fold signal_handler (signals env (ticks p))
       (p\<lparr>active := map (\<lambda>(n, h). (n, others env (ticks p) n h)) (active p),
          pbind := (pbind p)\<lparr>lib := server env (ticks p) (lib (pbind p))\<rparr>, ticks := Suc (ticks p)\<rparr>)"

section \<open>Requests of the server\<close>

fun shutdown_holders :: "(string, holder) dict \<Rightarrow> unit res \<times> (string, holder) dict" where
  "shutdown_holders [] = (Inr (), [])"
| "shutdown_holders ((n, h) # hs) =
     (case holder_shutdown h of
        (Inl e, h') \<Rightarrow> (Inl e, (n, h') # hs)
      | (Inr _, h') \<Rightarrow> (case shutdown_holders hs of (r, hs') \<Rightarrow> (r, (n, h') # hs')))"

definition handle_shutdown :: "'s proc \<Rightarrow> unit res \<times> 's proc" where
  "handle_shutdown p =
     (case shutdown_holders (active p) of
        (Inl e, hs) \<Rightarrow> (Inl e, p\<lparr>active := hs\<rparr>)
      | (Inr _, hs) \<Rightarrow> (Inr (), p\<lparr>active := hs, shutdown_request := True\<rparr>))"

text \<open>\<^verbatim>\<open>active_plugin_holders\<close> under a key that may be any value; a list or a dictionary raises.\<close>

definition holder_for :: "json \<Rightarrow> 's proc \<Rightarrow> (string \<times> holder) option res" where
  "holder_for nm p =
     (if \<not> hashable nm then Inl TypeError
      else Inr (case nm of JStr n \<Rightarrow> map_option (Pair n) (map_of (active p) n) | _ \<Rightarrow> None))"

text \<open>One request; both log messages of an unserved request name a variable that does not exist.\<close>

definition serve_request :: "'s surroundings \<Rightarrow> action_request \<Rightarrow> 's proc \<Rightarrow> unit res \<times> 's proc" where
  "serve_request env rq p =
     (if is_shutdown rq then handle_shutdown p
      else
        bind_st (req_action_name rq, p) (\<lambda>nm p.
        bind_st (holder_for nm p, p) (\<lambda>found p.
          (case found of
             None \<Rightarrow> (Inl (NameError ''action_name''), p)
           | Some (n, h) \<Rightarrow>
               if is_valid h then
                 (case send_request (clock env (ticks p)) rq h of
                    (r, h') \<Rightarrow> (r, p\<lparr>active := AList.update n h' (active p)\<rparr>))
               else (Inl (NameError ''action_name''), p)))))"

partial_function (option) handle_server_request ::
  "'s surroundings \<Rightarrow> 's proc \<Rightarrow> (unit res \<times> 's proc) option"
where
  "handle_server_request env p =
     (case read_action_request 0 (pbind p) of
        None \<Rightarrow> None
      | Some (r, b) \<Rightarrow>
          let p1 = pass env (p\<lparr>pbind := b\<rparr>) in
          (case r of
             Inl e \<Rightarrow> Some (Inl e, p1)
           | Inr (ret, rq) \<Rightarrow>
               if \<not> ret then Some (Inr (), p1)
               else
                 (case rq of
                    None \<Rightarrow> Some (Inl (AttributeError ''is_shutdown''), p1)
                  | Some q \<Rightarrow>
                      (case serve_request env q p1 of
                         (Inl e, p2) \<Rightarrow> Some (Inl e, p2)
                       | (Inr _, p2) \<Rightarrow> handle_server_request env p2))))"

section \<open>The poll loop\<close>

definition handle_plugin_holder :: "string \<Rightarrow> 's proc \<Rightarrow> unit res \<times> 's proc" where
  "handle_plugin_holder n p =
     bind_st (dict_index (active p) n, p) (\<lambda>h p.
       (case handle_response h (pbind p) of
          (r, h', b) \<Rightarrow> (r, p\<lparr>active := AList.update n h' (active p), pbind := b\<rparr>)))"

partial_function (option) poll_loop :: "'s surroundings \<Rightarrow> 's proc \<Rightarrow> (unit res \<times> 's proc) option" where
  "poll_loop env p =
     (let p0 = pass env p in
      if signal_raised p0 then Some (Inr (), p0)
      else
        (case poll_for_data (names env) (keys (pipe_list p0)) POLL_TIMEOUT (pbind p0) of
           None \<Rightarrow> None
         | Some (r, b) \<Rightarrow>
             let p1 = pass env (p0\<lparr>pbind := b\<rparr>) in
             (case r of
                Inl e \<Rightarrow> Some (Inl e, p1)
              | Inr None \<Rightarrow> Some (Inl TypeError, p1)
              | Inr (Some ret) \<Rightarrow>
                  if ret = - 1 then
                    (case handle_server_request env p1 of
                       None \<Rightarrow> None
                     | Some (Inl e, p2) \<Rightarrow> Some (Inl e, p2)
                     | Some (Inr _, p2) \<Rightarrow>
                         if shutdown_request p2 then Some (Inr (), p2) else poll_loop env p2)
                  else if ret \<ge> 0 then
                    (case map_of (pipe_list p1) ret of
                       None \<Rightarrow> poll_loop env p1
                     | Some n \<Rightarrow>
                         (case handle_plugin_holder n p1 of
                            (Inl e, p2) \<Rightarrow> Some (Inl e, p2)
                          | (Inr _, p2) \<Rightarrow> poll_loop env p2))
                  else if ret \<noteq> - 2 then Some (Inr (), p1)
                  else poll_loop env p1)))"

section \<open>Loading the plugins\<close>

text \<open>The loop of \<^verbatim>\<open>main_run\<close> over the configured plugins; \<^term>\<open>Inr False\<close> is its \<^verbatim>\<open>return -1\<close>.\<close>

fun load_plugins ::
  "'s surroundings \<Rightarrow> json \<Rightarrow> (string \<times> json) list \<Rightarrow> 's proc \<Rightarrow> bool res \<times> 's proc"
where
  "load_plugins env actions_conf [] p = (Inr True, p)"
| "load_plugins env actions_conf ((nm, path) # items) p =
     bind_st (json_get actions_conf nm (JObj []), p) (\<lambda>conf p.
     bind_st (json_get conf ''disable'' (JBool False), p) (\<lambda>disabled p.
       if truthy disabled then load_plugins env actions_conf items p
       else
         (case path of
            JStr fl \<Rightarrow>
              (case new_holder (loader env (sys_path p)) nm fl conf (pbind p) of
                 (Inl e, b) \<Rightarrow> (Inl e, p\<lparr>pbind := b\<rparr>)
               | (Inr h, b) \<Rightarrow>
                   if \<not> is_valid h then (Inr False, p\<lparr>pbind := b\<rparr>)
                   else
                     (case os_pipe env (ticks p) of
                        (r, w) \<Rightarrow>
                          (case set_pipe r w h of
                             (Inl e, h') \<Rightarrow> (Inl e, p\<lparr>pbind := b\<rparr>)
                           | (Inr _, h') \<Rightarrow>
                               load_plugins env actions_conf items
                                 (p\<lparr>pbind := b, ticks := Suc (ticks p),
                                    active := AList.update nm h' (active p),
                                    pipe_list := AList.update r nm (pipe_list p)\<rparr>))))
          | _ \<Rightarrow> (Inl (AttributeError ''endswith''), p))))"

text \<open>Ten seconds between two looks at the configuration; it may change meanwhile.\<close>

partial_function (option) wait_for_config ::
  "'s surroundings \<Rightarrow> 's proc \<Rightarrow> (unit res \<times> 's proc) option"
where
  "wait_for_config env p =
     (case is_running_config_available (pcfg p) of
        (Inl e, c) \<Rightarrow> Some (Inl e, p\<lparr>pcfg := c\<rparr>)
      | (Inr ok, c) \<Rightarrow>
          if ok then Some (Inr (), p\<lparr>pcfg := c\<rparr>)
          else wait_for_config env (pass env (p\<lparr>pcfg := cfg_change env (ticks p) c\<rparr>)))"

text \<open>After the loop: deregister, and stop the plugins if a signal ended it.\<close>

definition leave :: "string \<Rightarrow> 's proc \<Rightarrow> int res \<times> 's proc" where
  "leave proc_name p =
     (case deregister_client proc_name (pbind p) of
        (Inl e, b) \<Rightarrow> (Inl e, p\<lparr>pbind := b\<rparr>)
      | (Inr _, b) \<Rightarrow>
          let p' = p\<lparr>pbind := b\<rparr> in
          if \<not> shutdown_request p' \<and> signal_raised p'
          then bind_st (handle_shutdown p') (\<lambda>_ p. (Inr 0, p))
          else (Inr 0, p'))"

definition main_run :: "'s surroundings \<Rightarrow> string \<Rightarrow> 's proc \<Rightarrow> (int res \<times> 's proc) option" where
  "main_run env proc_name p =
     (case wait_for_config env (p\<lparr>this_proc_name := proc_name, active := [], pipe_list := []\<rparr>) of
        None \<Rightarrow> None
      | Some (Inl e, p1) \<Rightarrow> Some (Inl e, p1)
      | Some (Inr _, p1) \<Rightarrow>
          (case get_proc_plugins_conf proc_name (pcfg p1) of
             (Inl e, c) \<Rightarrow> Some (Inl e, p1\<lparr>pcfg := c\<rparr>)
           | (Inr plugins, c) \<Rightarrow>
               (case get_actions_conf c of
                  (Inl e, c2) \<Rightarrow> Some (Inl e, p1\<lparr>pcfg := c2\<rparr>)
                | (Inr actions_conf, c2) \<Rightarrow>
                    (case register_client proc_name (pbind p1) of
                       (Inl e, b) \<Rightarrow> Some (Inl e, p1\<lparr>pcfg := c2, pbind := b\<rparr>)
                     | (Inr ret, b) \<Rightarrow>
                         let p2 = p1\<lparr>pcfg := c2, pbind := b\<rparr> in
                         if \<not> ret_truth ret then Some (Inr (- 1), p2)
                         else
                           (case (case plugins of
                                    JObj items \<Rightarrow> load_plugins env actions_conf items p2
                                  | _ \<Rightarrow> (Inl (AttributeError ''items''), p2)) of
                              (r, p3) \<Rightarrow>
                                if r = Inr False then Some (Inr (- 1), p3)
                                else if pipe_list p3 = [] then
                                  Some (case plugins of
                                          JObj _ \<Rightarrow> (Inr (- 1), p3)
                                        | _ \<Rightarrow> (Inl (AttributeError ''keys''), p3))
                                else
                                  (case poll_loop env p3 of
                                     None \<Rightarrow> None
                                   | Some (Inl e, p4) \<Rightarrow> Some (Inl e, p4)
                                   | Some (Inr _, p4) \<Rightarrow> Some (leave proc_name p4)))))))"

section \<open>The process\<close>

fun py_iter :: "json \<Rightarrow> json list res" where
  "py_iter (JArr xs) = Inr xs"
| "py_iter (JStr s) = Inr (map (\<lambda>c. JStr [c]) s)"
| "py_iter (JObj kvs) = Inr (map JStr (keys kvs))"
| "py_iter _ = Inl TypeError"

fun append_paths :: "string \<Rightarrow> json list \<Rightarrow> string list \<Rightarrow> unit res \<times> string list" where
  "append_paths dir [] ps = (Inr (), ps)"
| "append_paths dir (v # vs) ps =
     bind_st (join_value dir v, ps) (\<lambda>rp ps. append_paths dir vs (syspath_append rp ps))"

partial_function (option) run_until_stopped ::
  "'s surroundings \<Rightarrow> string \<Rightarrow> 's proc \<Rightarrow> (unit res \<times> 's proc) option"
where
  "run_until_stopped env proc_name p =
     (if shutdown_request p \<or> sigterm_raised p then Some (Inr (), p)
      else
        (case main_run env proc_name p of
           None \<Rightarrow> None
         | Some (Inl e, p') \<Rightarrow> Some (Inl e, p')
         | Some (Inr ret, p') \<Rightarrow>
             if ret \<noteq> 0 then Some (Inr (), p')
             else if sigusr1_raised p' then Some (Inr (), p')
             else run_until_stopped env proc_name p'))"

text \<open>\<open>init\<close> is \<^verbatim>\<open>clib_bind.c_lib_init\<close>.\<close>

definition plugin_proc_main ::
  "'s surroundings \<Rightarrow> ('s bind \<Rightarrow> bool res \<times> 's bind) \<Rightarrow> string \<Rightarrow> string \<Rightarrow> 's proc
   \<Rightarrow> (unit res \<times> 's proc) option"
where
  "plugin_proc_main env init proc_name rc_file p =
     (let p0 = (if rc_file \<noteq> '''' then p\<lparr>pcfg := set_global_rc_file rc_file (pcfg p)\<rparr> else p) in
      (case get_global_rc (pcfg p0) of
         (Inl e, c) \<Rightarrow> Some (Inl e, p0\<lparr>pcfg := c\<rparr>)
       | (Inr rc, c) \<Rightarrow>
           let p1 = p0\<lparr>pcfg := c\<rparr> in
           (case py_iter (dict_get rc ''plugin_paths'' (JArr [])) of
              Inl e \<Rightarrow> Some (Inl e, p1)
            | Inr vs \<Rightarrow>
                (case append_paths (ct_dir env) vs (sys_path p1) of
                   (Inl e, ps) \<Rightarrow> Some (Inl e, p1\<lparr>sys_path := ps\<rparr>)
                 | (Inr _, ps) \<Rightarrow>
                     let p2 = p1\<lparr>sys_path := ps, syslog_name := syslog_ident (argv0 env) proc_name\<rparr> in
                     (case init (pbind p2) of
                        (Inl e, b) \<Rightarrow> Some (Inl e, p2\<lparr>pbind := b\<rparr>)
                      | (Inr ok, b) \<Rightarrow>
                          let p3 = p2\<lparr>pbind := b\<rparr> in
                          if \<not> ok then Some (Inr (), p3)
                          else run_until_stopped env proc_name p3)))))"

text \<open>The module run as a script, after its arguments are parsed.\<close>

record arguments =
  arg_proc_name :: string
  arg_global_rc :: string
  arg_test :: bool
  arg_log_level :: int

definition set_log_level :: "int \<Rightarrow> 's proc \<Rightarrow> 's proc" where
  "set_log_level lvl p = p\<lparr>log_level := lvl\<rparr>"

definition run_script ::
  "'s surroundings \<Rightarrow> ('s bind \<Rightarrow> bool res \<times> 's bind) \<Rightarrow> arguments \<Rightarrow> 's proc \<Rightarrow> (unit res \<times> 's proc) option"
where
  "run_script env init args p =
     (let p1 = (if arg_test args then p\<lparr>pbind := set_test_mode (pbind p)\<rparr> else p);
          p2 = set_log_level (arg_log_level args) p1
      in plugin_proc_main env init (arg_proc_name args) (arg_global_rc args) p2)"

section \<open>What time and signals leave alone\<close>

text \<open>The steps of the request threads never take the plugin off its holder.\<close>

definition others_ok :: "'s surroundings \<Rightarrow> bool" where
  "others_ok env \<longleftrightarrow> (\<forall>t n h. plugin (others env t n h) = plugin h)"

lemma signals_keep [simp]:
  "pbind (fold signal_handler ss p) = pbind p"
  "active (fold signal_handler ss p) = active p"
  "pipe_list (fold signal_handler ss p) = pipe_list p"
  "shutdown_request (fold signal_handler ss p) = shutdown_request p"
  "pcfg (fold signal_handler ss p) = pcfg p"
  "ticks (fold signal_handler ss p) = ticks p"
  by (induction ss arbitrary: p) (simp_all add: signal_handler_def Let_def)

lemma signals_raised: "signal_raised (fold signal_handler ss p) \<longleftrightarrow> signal_raised p \<or> ss \<noteq> []"
  by (induction ss arbitrary: p) (simp_all add: signal_handler_def Let_def)

lemma pass_keeps [simp]:
  "pbind (pass env p) = (pbind p)\<lparr>lib := server env (ticks p) (lib (pbind p))\<rparr>" "pipe_list (pass env p) = pipe_list p"
  "ticks (pass env p) = Suc (ticks p)"
  "shutdown_request (pass env p) = shutdown_request p" "keys (active (pass env p)) = keys (active p)"
  by (simp_all add: pass_def case_prod_beta comp_def)

lemma pass_raised: "signal_raised (pass env p) \<longleftrightarrow> signal_raised p \<or> signals env (ticks p) \<noteq> []"
  by (simp add: pass_def signals_raised)

definition all_valid :: "(string, holder) dict \<Rightarrow> bool" where
  "all_valid hs \<longleftrightarrow> list_all (\<lambda>(n, h). plugin h) hs"

lemma all_valid_update: "all_valid hs \<Longrightarrow> plugin h \<Longrightarrow> all_valid (AList.update n h hs)"
  by (induction hs) (auto simp: all_valid_def)

lemma all_valid_get: "all_valid hs \<Longrightarrow> map_of hs n = Some h \<Longrightarrow> plugin h"
  by (auto simp: all_valid_def list_all_iff dest!: map_of_SomeD)

lemma pass_valid: "others_ok env \<Longrightarrow> all_valid (active (pass env p)) = all_valid (active p)"
  by (auto simp: pass_def all_valid_def others_ok_def list_all_iff)

lemma holder_ops_plugin:
  "send_request now rq h = (r, h') \<Longrightarrow> plugin h' = plugin h"
  "drain_signal h = (u, h') \<Longrightarrow> plugin h' = plugin h"
  by (auto simp: send_request_def chk_thread_done_def drain_signal_def split: option.splits if_splits)

lemma handle_response_plugin: "handle_response h b = (r, h', b') \<Longrightarrow> plugin h' = plugin h"
  by (auto simp: handle_response_def drain_signal_def send_heartbeat_def Let_def
      split: if_splits option.splits prod.splits sum.splits)

lemma shutdown_holders_ok: "all_valid hs \<Longrightarrow> \<exists>hs'. shutdown_holders hs = (Inr (), hs') \<and> keys hs' = keys hs \<and>
   all_valid hs' \<and> list_all (\<lambda>(n, h). plugin_stopped h) hs'"
  by (induction hs) (auto simp: holder_shutdown_def all_valid_def)

lemma handle_shutdown_ok:
  assumes "all_valid (active p)"
  shows "\<exists>hs. handle_shutdown p = (Inr (), p\<lparr>active := hs, shutdown_request := True\<rparr>) \<and>
    keys hs = keys (active p) \<and> all_valid hs \<and> list_all (\<lambda>(n, h). plugin_stopped h) hs"
  using shutdown_holders_ok [OF assms] by (auto simp: handle_shutdown_def)

section \<open>Serving\<close>

lemma keys_update_mem: "n \<in> set (keys d) \<Longrightarrow> set (keys (AList.update n v d)) = set (keys d)"
  by (auto simp: dom_update)

lemma set_keys_update: "set (keys (AList.update n v d)) = insert n (set (keys d))"
  by (simp add: dom_update)

lemma serve_request_outcomes:
  assumes "all_valid (active p)"
    "is_shutdown rq \<or> attrs rq = None \<or> (\<exists>n \<in> set (keys (active p)). req_action_name rq = Inr (JStr n))"
    "serve_request env rq p = (r, p')"
  shows "r \<in> {Inr (), Inl (AttributeError ''action_name''), Inl (NameError ''take'')}"
    "pbind p' = pbind p" "all_valid (active p')" "set (keys (active p')) = set (keys (active p))"
proof -
  have "r \<in> {Inr (), Inl (AttributeError ''action_name''), Inl (NameError ''take'')} \<and>
    pbind p' = pbind p \<and> all_valid (active p') \<and> set (keys (active p')) = set (keys (active p))"
  proof (cases "is_shutdown rq")
    case True
    obtain hs where "handle_shutdown p = (Inr (), p\<lparr>active := hs, shutdown_request := True\<rparr>)"
      "keys hs = keys (active p)" "all_valid hs"
      using handle_shutdown_ok [OF assms(1)] by blast
    then show ?thesis using assms(3) True by (auto simp: serve_request_def simp del: set_map)
  next
    case no_stop: False
    show ?thesis
    proof (cases "attrs rq")
      case None
      then show ?thesis using no_stop assms(1,3) by (auto simp: serve_request_def req_attr_defs)
    next
      case (Some a)
      then obtain n where n: "n \<in> set (keys (active p))" "req_action_name rq = Inr (JStr n)"
        using no_stop assms(2) by auto
      then obtain h where h: "map_of (active p) n = Some h"
        using map_of_eq_None_iff [of "active p" n] by auto
      obtain r' h' where s: "send_request (clock env (ticks p)) rq h = (r', h')" by fastforce
      have valid: "plugin h" "plugin h'"
        using all_valid_get [OF assms(1) h] holder_ops_plugin(1) [OF s] by simp_all
      have "r = r'" "p' = p\<lparr>active := AList.update n h' (active p)\<rparr>"
        using assms(3) no_stop n h s valid by (simp_all add: serve_request_def holder_for_def is_valid_def)
      moreover have "r' \<in> {Inr (), Inl (NameError ''take'')}" using send_request_cases [OF s] by auto
      ultimately show ?thesis using assms(1) valid n(1) all_valid_update [of "active p" h' n]
        by (auto simp: keys_update_mem simp del: set_map)
    qed
  qed
  then show "r \<in> {Inr (), Inl (AttributeError ''action_name''), Inl (NameError ''take'')}"
    "pbind p' = pbind p" "all_valid (active p')" "set (keys (active p')) = set (keys (active p))" by simp_all
qed

lemma serve_request_pbind: "serve_request env rq p = (r, p') \<Longrightarrow> pbind p' = pbind p"
  by (auto simp: serve_request_def handle_shutdown_def bind_st_def holder_for_def
      split: if_splits sum.splits prod.splits option.splits)

lemma serve_request_ticks: "serve_request env rq p = (r, p') \<Longrightarrow> ticks p' = ticks p"
  by (auto simp: serve_request_def handle_shutdown_def bind_st_def holder_for_def
      split: if_splits sum.splits prod.splits option.splits)

context client_library
begin

lemma read_request_ex:
  assumes "bound b" "reg (lib b)"
  shows "\<exists>r b'. read_action_request 0 b = Some (r, b') \<and> bound b' \<and> reg (lib b') \<and>
    acts (lib b') = acts (lib b) \<and> (\<forall>ok rq. r = Inr (ok, rq) \<longrightarrow> (ok \<longleftrightarrow> rq \<noteq> None)) \<and>
    (\<forall>rq. r = Inr (True, Some rq) \<longrightarrow> pending (lib b') < pending (lib b) \<and>
       (is_shutdown rq \<or> attrs rq = None \<or> (\<exists>n \<in> set (acts (lib b)). req_action_name rq = Inr (JStr n))))"
proof (rule read_request_bound [OF assms])
  fix r b'
  assume b: "read_action_request 0 b = Some (r, b')" "bound b'" "reg (lib b')" "acts (lib b') = acts (lib b)"
    and ok: "\<And>ok rq. r = Inr (ok, rq) \<Longrightarrow> (ok \<longleftrightarrow> rq \<noteq> None)"
    and rq: "\<And>rq. r = Inr (True, Some rq) \<Longrightarrow> pending (lib b') < pending (lib b) \<and>
       (is_shutdown rq \<or> attrs rq = None \<or> (\<exists>n \<in> set (acts (lib b)). req_action_name rq = Inr (JStr n)))"
  show ?thesis
    by (rule exI [of _ r], rule exI [of _ b'], intro conjI allI impI) ((rule b)+, erule ok, erule rq [THEN conjunct1], erule rq [THEN conjunct2])
qed

text \<open>The process is registered, every registered action has its holder, and every holder its plugin.\<close>

definition proc_ok :: "'s proc \<Rightarrow> bool" where
  "proc_ok p \<longleftrightarrow> bound (pbind p) \<and> reg (lib (pbind p)) \<and>
     set (acts (lib (pbind p))) \<subseteq> set (keys (active p)) \<and> all_valid (active p)"

text \<open>What the server writes keeps the registration.\<close>

definition env_ok :: "'s surroundings \<Rightarrow> bool" where
  "env_ok env \<longleftrightarrow> others_ok env \<and> (\<forall>t l. reg l \<longrightarrow> reg (server env t l) \<and> acts (server env t l) = acts l)"

lemma env_okD: "env_ok env \<Longrightarrow> others_ok env" "env_ok env \<Longrightarrow> reg l \<Longrightarrow> reg (server env t l)"
  "env_ok env \<Longrightarrow> reg l \<Longrightarrow> acts (server env t l) = acts l"
  by (simp_all add: env_ok_def)

lemma proc_ok_pass: "env_ok env \<Longrightarrow> proc_ok p \<Longrightarrow> proc_ok (pass env p)"
  by (auto simp: proc_ok_def pass_valid env_okD simp del: set_map)

text \<open>
  The loop that serves requests ends when the server stops writing at some time: until then time goes on, and from then
  on every turn leaves fewer messages.
\<close>

lemma server_requests_return:
  assumes "env_ok env" "\<forall>t \<ge> T. \<forall>l. pending (server env t l) \<le> pending l"
  shows "bound (pbind p) \<Longrightarrow> reg (lib (pbind p)) \<Longrightarrow>
   \<exists>r p'. handle_server_request env p = Some (r, p') \<and> bound (pbind p') \<and> reg (lib (pbind p')) \<and>
     acts (lib (pbind p')) = acts (lib (pbind p)) \<and>
     (T \<le> ticks p \<longrightarrow> ticks p' \<le> Suc (ticks p + pending (lib (pbind p))))"
proof (induction "(T - ticks p, pending (lib (pbind p)))" arbitrary: p rule: wf_induct_rule [OF wf_lex_prod [OF wf_less_than wf_less_than]])
  case 1
  obtain r b where b: "read_action_request 0 (pbind p) = Some (r, b)"
    "bound b" "reg (lib b)" "acts (lib b) = acts (lib (pbind p))"
    "\<And>ok rq. r = Inr (ok, rq) \<Longrightarrow> (ok \<longleftrightarrow> rq \<noteq> None)"
    "\<And>rq. r = Inr (True, Some rq) \<Longrightarrow> pending (lib b) < pending (lib (pbind p)) \<and>
       (is_shutdown rq \<or> attrs rq = None \<or> (\<exists>n \<in> set (acts (lib (pbind p))). req_action_name rq = Inr (JStr n)))"
    using read_request_ex [OF "1.prems"] by blast
  let ?p1 = "pass env (p\<lparr>pbind := b\<rparr>)"
  have p1: "bound (pbind ?p1)" "reg (lib (pbind ?p1))" "acts (lib (pbind ?p1)) = acts (lib (pbind p))" "ticks ?p1 = Suc (ticks p)"
    using b(2-4) env_okD [OF assms(1)] by simp_all
  show ?case
  proof (cases "\<exists>q. r = Inr (True, Some q)")
    case False
    then have "(\<exists>e. r = Inl e) \<or> r = Inr (False, None)" using b(5) by (cases r) auto
    then have "\<exists>r. handle_server_request env p = Some (r, ?p1)"
      using b(1) by (subst handle_server_request.simps) (auto simp: Let_def)
    then show ?thesis using p1 by auto
  next
    case True
    then obtain q where q: "r = Inr (True, Some q)" by blast
    obtain u p2 where u: "serve_request env q ?p1 = (u, p2)" by fastforce
    have p2: "pbind p2 = pbind ?p1" "ticks p2 = Suc (ticks p)"
      using serve_request_pbind [OF u] serve_request_ticks [OF u] p1(4) by simp_all
    show ?thesis
    proof (cases u)
      case (Inl e)
      then have "handle_server_request env p = Some (Inl e, p2)"
        using b(1) q u by (subst handle_server_request.simps) (simp add: Let_def)
      then show ?thesis using p1 p2 by auto
    next
      case (Inr x)
      then have step: "handle_server_request env p = handle_server_request env p2"
        using b(1) q u by (subst handle_server_request.simps) (simp add: Let_def)
      have fewer: "T \<le> ticks p \<Longrightarrow> pending (lib (pbind p2)) < pending (lib (pbind p))"
        using assms(2) b(6) [OF q] p2(1) by (auto intro: order.strict_trans1)
      have "((T - ticks p2, pending (lib (pbind p2))), T - ticks p, pending (lib (pbind p))) \<in> less_than <*lex*> less_than"
        using fewer p2(2) by (cases "T \<le> ticks p") auto
      from "1.hyps" [OF this] p1 p2 obtain r' p' where
        "handle_server_request env p2 = Some (r', p')" "bound (pbind p')" "reg (lib (pbind p'))"
        "acts (lib (pbind p')) = acts (lib (pbind p2))"
        "T \<le> ticks p2 \<longrightarrow> ticks p' \<le> Suc (ticks p2 + pending (lib (pbind p2)))" by auto
      then show ?thesis using step p1(3) p2 fewer by (intro exI [of _ r'] exI [of _ p']) auto
    qed
  qed
qed

text \<open>A request that is read is for a holder that can take it, or a shutdown, or of no known type.\<close>

lemma served_request:
  assumes "proc_ok p" "env_ok env" "read_action_request 0 (pbind p) = Some (Inr (True, Some q), b)"
    "serve_request env q (pass env (p\<lparr>pbind := b\<rparr>)) = (r, p')"
  shows "r \<in> {Inr (), Inl (AttributeError ''action_name''), Inl (NameError ''take'')} \<and> proc_ok p'"
proof -
  have ok: "bound (pbind p)" "reg (lib (pbind p))" "set (acts (lib (pbind p))) \<subseteq> set (keys (active p))"
    "all_valid (active p)" using assms(1) by (simp_all add: proc_ok_def)
  obtain r0 b0 where b: "read_action_request 0 (pbind p) = Some (r0, b0)"
    "bound b0" "reg (lib b0)" "acts (lib b0) = acts (lib (pbind p))"
    "\<And>rq. r0 = Inr (True, Some rq) \<Longrightarrow> pending (lib b0) < pending (lib (pbind p)) \<and>
       (is_shutdown rq \<or> attrs rq = None \<or> (\<exists>n \<in> set (acts (lib (pbind p))). req_action_name rq = Inr (JStr n)))"
    using read_request_ex [OF ok(1,2)] by blast
  let ?p1 = "pass env (p\<lparr>pbind := b\<rparr>)"
  have "is_shutdown q \<or> attrs q = None \<or> (\<exists>n \<in> set (acts (lib (pbind p))). req_action_name q = Inr (JStr n))"
    using b(1,5) assms(3) by simp
  then have q: "is_shutdown q \<or> attrs q = None \<or> (\<exists>n \<in> set (keys (active ?p1)). req_action_name q = Inr (JStr n))"
    using ok(3) by (auto simp del: set_map)
  have v: "all_valid (active ?p1)" using ok(4) pass_valid [OF env_okD(1) [OF assms(2)], of "p\<lparr>pbind := b\<rparr>"] by simp
  show ?thesis using serve_request_outcomes [OF v q assms(4)] b ok assms(3) env_okD [OF assms(2)]
    by (auto simp: proc_ok_def simp del: set_map)
qed

lemma server_requests_ok_aux:
  "handle_server_request env p = Some y \<Longrightarrow> env_ok env \<longrightarrow> proc_ok p \<longrightarrow> proc_ok (snd y)"
proof (erule handle_server_request.raw_induct [rotated], intro impI)
  fix rec :: "'s surroundings \<Rightarrow> 's proc \<Rightarrow> (unit res \<times> 's proc) option" and env p y
  assume IH: "\<And>env p y. rec env p = Some y \<Longrightarrow> env_ok env \<longrightarrow> proc_ok p \<longrightarrow> proc_ok (snd y)"
    and body: "(case read_action_request 0 (pbind p) of
        None \<Rightarrow> None
      | Some (r, b) \<Rightarrow>
          let p1 = pass env (p\<lparr>pbind := b\<rparr>) in
          (case r of
             Inl e \<Rightarrow> Some (Inl e, p1)
           | Inr (ret, rq) \<Rightarrow>
               if \<not> ret then Some (Inr (), p1)
               else
                 (case rq of
                    None \<Rightarrow> Some (Inl (AttributeError ''is_shutdown''), p1)
                  | Some q \<Rightarrow>
                      (case serve_request env q p1 of
                         (Inl e, p2) \<Rightarrow> Some (Inl e, p2)
                       | (Inr _, p2) \<Rightarrow> rec env p2)))) = Some y"
    and env: "env_ok env" and ok: "proc_ok p"
  obtain r0 b where b: "read_action_request 0 (pbind p) = Some (r0, b)"
    "bound b" "reg (lib b)" "acts (lib b) = acts (lib (pbind p))"
    "\<And>ok rq. r0 = Inr (ok, rq) \<Longrightarrow> (ok \<longleftrightarrow> rq \<noteq> None)"
    using read_request_ex [of "pbind p"] ok unfolding proc_ok_def by blast
  let ?p1 = "pass env (p\<lparr>pbind := b\<rparr>)"
  have "proc_ok (p\<lparr>pbind := b\<rparr>)" using ok b(2-4) by (simp add: proc_ok_def del: set_map)
  then have p1: "proc_ok ?p1" by (rule proc_ok_pass [OF env])
  show "proc_ok (snd y)"
  proof (cases "\<exists>q. r0 = Inr (True, Some q)")
    case False
    then have "(\<exists>e. r0 = Inl e) \<or> r0 = Inr (False, None)" using b(5) by (cases r0) auto
    then show ?thesis using b(1) p1 body by (auto simp: Let_def)
  next
    case True
    then obtain q where q: "r0 = Inr (True, Some q)" by blast
    obtain u p2 where u: "serve_request env q ?p1 = (u, p2)" by fastforce
    have "proc_ok p2" using served_request [OF ok env b(1) [unfolded q] u] by simp
    then show ?thesis using IH [of env p2 y] env body b(1) q u by (cases u) (auto simp: Let_def)
  qed
qed

lemmas server_requests_ok = server_requests_ok_aux [rule_format]

end

section \<open>The poll loop and \<^verbatim>\<open>main_run\<close>\<close>

text \<open>A library whose poll over descriptors yields nothing below \<open>-2\<close>.\<close>

definition fds_ok :: "'s proc \<Rightarrow> bool" where
  "fds_ok p \<longleftrightarrow> (\<forall>fd \<in> set (keys (pipe_list p)). 0 \<le> fd)"

lemma fds_ok_pass [simp]: "fds_ok (pass env p) = fds_ok p"
  by (simp add: fds_ok_def)

lemma serve_request_pipes: "serve_request env rq p = (r, p') \<Longrightarrow> pipe_list p' = pipe_list p"
  by (auto simp: serve_request_def handle_shutdown_def bind_st_def holder_for_def
      split: if_splits sum.splits prod.splits option.splits)

lemma serve_request_snd [simp]: "pipe_list (snd (serve_request env rq p)) = pipe_list p"
  by (cases "serve_request env rq p") (simp add: serve_request_pipes)

lemma server_requests_pipes:
  "handle_server_request env p = Some y \<Longrightarrow> pipe_list (snd y) = pipe_list p"
proof (erule handle_server_request.raw_induct [rotated])
  fix rec :: "'s surroundings \<Rightarrow> 's proc \<Rightarrow> (unit res \<times> 's proc) option" and env p y
  assume IH: "\<And>env p y. rec env p = Some y \<Longrightarrow> pipe_list (snd y) = pipe_list p"
    and body: "(case read_action_request 0 (pbind p) of
        None \<Rightarrow> None
      | Some (r, b) \<Rightarrow>
          let p1 = pass env (p\<lparr>pbind := b\<rparr>) in
          (case r of
             Inl e \<Rightarrow> Some (Inl e, p1)
           | Inr (ret, rq) \<Rightarrow>
               if \<not> ret then Some (Inr (), p1)
               else
                 (case rq of
                    None \<Rightarrow> Some (Inl (AttributeError ''is_shutdown''), p1)
                  | Some q \<Rightarrow>
                      (case serve_request env q p1 of
                         (Inl e, p2) \<Rightarrow> Some (Inl e, p2)
                       | (Inr _, p2) \<Rightarrow> rec env p2)))) = Some y"
  then show "pipe_list (snd y) = pipe_list p"
    by (auto simp: Let_def dest: serve_request_pipes sym [THEN serve_request_pipes] split: option.splits prod.splits sum.splits if_splits)
qed

locale polling_library = client_library +
  assumes poll_result:
    "reg l \<Longrightarrow> \<forall>fd \<in> set fds. 0 \<le> fd \<Longrightarrow>
     api_poll_for_data api fds n tmo l = Some (Inr (Some v), l') \<Longrightarrow> - 2 \<le> v"
begin

lemma poll_for_data_result:
  assumes "bound b" "reg (lib b)" "\<forall>fd \<in> set fds. 0 \<le> fd" "poll_for_data nms fds t b = Some (Inr (Some v), b')"
  shows "- 2 \<le> v"
  using assms bound_ptr [OF assms(1), of "''poll_for_data''"] poll_result [of "lib b" fds "int (length fds)" t]
  by (auto simp: poll_for_data_def test_pointers_def split: option.splits sum.splits if_splits)

lemma proc_ok_bind:
  "proc_ok p \<Longrightarrow> bound b \<Longrightarrow> reg (lib b) \<Longrightarrow> acts (lib b) = acts (lib (pbind p)) \<Longrightarrow> proc_ok (p\<lparr>pbind := b\<rparr>)"
  by (simp add: proc_ok_def)

lemma handle_response_bound:
  assumes "bound b" "reg (lib b)" "handle_response h b = (r, h', b')"
  shows "bound b' \<and> reg (lib b') \<and> acts (lib b') = acts (lib b)"
  using assms touch_heartbeat_bound [OF assms(1,2)] write_action_response_bound [OF assms(1,2)]
  by (auto simp: handle_response_def drain_signal_def send_heartbeat_def Let_def
      split: if_splits option.splits prod.splits sum.splits)

lemma handle_plugin_pipes: "handle_plugin_holder n p = (r, p') \<Longrightarrow> pipe_list p' = pipe_list p"
  by (auto simp: handle_plugin_holder_def bind_st_def split: sum.splits prod.splits)

lemma handle_plugin_ok:
  assumes "proc_ok p" "handle_plugin_holder n p = (r, p')"
  shows "proc_ok p'"
proof (cases "map_of (active p) n")
  case None
  then show ?thesis using assms by (simp add: handle_plugin_holder_def dict_index_def)
next
  case (Some h)
  obtain u h' b where u: "handle_response h (pbind p) = (u, h', b)" by (cases "handle_response h (pbind p)") auto
  have ok: "bound (pbind p)" "reg (lib (pbind p))" "set (acts (lib (pbind p))) \<subseteq> set (keys (active p))"
    "all_valid (active p)" using assms(1) by (simp_all add: proc_ok_def)
  have "n \<in> set (keys (active p))" using Some by (force dest: map_of_SomeD)
  moreover have "plugin h'" using handle_response_plugin [OF u] all_valid_get [OF ok(4) Some] by simp
  moreover have "p' = p\<lparr>active := AList.update n h' (active p), pbind := b\<rparr>"
    using assms(2) Some u by (simp add: handle_plugin_holder_def dict_index_def)
  ultimately show ?thesis
    using ok handle_response_bound [OF ok(1,2) u] all_valid_update [OF ok(4), of h' n]
      keys_update_mem [of n "active p" h'] by (simp add: proc_ok_def del: set_map)
qed

lemma poll_loop_ends_aux:
  "poll_loop env p = Some y \<Longrightarrow> env_ok env \<longrightarrow> fds_ok p \<longrightarrow> proc_ok p \<longrightarrow>
   proc_ok (snd y) \<and> (fst y = Inr () \<longrightarrow> signal_raised (snd y) \<or> shutdown_request (snd y))"
proof (erule poll_loop.raw_induct [rotated], intro impI)
  fix loop :: "'a surroundings \<Rightarrow> 'a proc \<Rightarrow> (unit res \<times> 'a proc) option" and env p y
  assume IH: "\<And>env p y. loop env p = Some y \<Longrightarrow> env_ok env \<longrightarrow> fds_ok p \<longrightarrow> proc_ok p \<longrightarrow>
      proc_ok (snd y) \<and> (fst y = Inr () \<longrightarrow> signal_raised (snd y) \<or> shutdown_request (snd y))"
    and loop: "(let p0 = pass env p in
      if signal_raised p0 then Some (Inr (), p0)
      else
        (case poll_for_data (names env) (keys (pipe_list p0)) POLL_TIMEOUT (pbind p0) of
           None \<Rightarrow> None
         | Some (r, b) \<Rightarrow>
             let p1 = pass env (p0\<lparr>pbind := b\<rparr>) in
             (case r of
                Inl e \<Rightarrow> Some (Inl e, p1)
              | Inr None \<Rightarrow> Some (Inl TypeError, p1)
              | Inr (Some ret) \<Rightarrow>
                  if ret = - 1 then
                    (case handle_server_request env p1 of
                       None \<Rightarrow> None
                     | Some (Inl e, p2) \<Rightarrow> Some (Inl e, p2)
                     | Some (Inr _, p2) \<Rightarrow>
                         if shutdown_request p2 then Some (Inr (), p2) else loop env p2)
                  else if ret \<ge> 0 then
                    (case map_of (pipe_list p1) ret of
                       None \<Rightarrow> loop env p1
                     | Some n \<Rightarrow>
                         (case handle_plugin_holder n p1 of
                            (Inl e, p2) \<Rightarrow> Some (Inl e, p2)
                          | (Inr _, p2) \<Rightarrow> loop env p2))
                  else if ret \<noteq> - 2 then Some (Inr (), p1)
                  else loop env p1))) = Some y"
    and env: "env_ok env" and fds: "fds_ok p" and ok: "proc_ok p"
  let ?p0 = "pass env p"
  have p0: "proc_ok ?p0" by (rule proc_ok_pass [OF env ok])
  then have bound: "bound (pbind ?p0)" "reg (lib (pbind ?p0))" by (simp_all add: proc_ok_def)
  show "proc_ok (snd y) \<and> (fst y = Inr () \<longrightarrow> signal_raised (snd y) \<or> shutdown_request (snd y))"
  proof (cases "signal_raised ?p0")
    case True
    then have "y = (Inr (), ?p0)" using loop by simp
    then show ?thesis using True p0 by simp
  next
    case False
    then obtain r b where b: "poll_for_data (names env) (keys (pipe_list ?p0)) POLL_TIMEOUT (pbind ?p0) = Some (r, b)"
      using loop by (auto simp: Let_def split: option.splits)
    let ?p1 = "pass env (?p0\<lparr>pbind := b\<rparr>)"
    have p1: "proc_ok ?p1"
      using poll_for_data_bound [OF bound b] by (intro proc_ok_pass [OF env] proc_ok_bind [OF p0]) simp_all
    have fds1: "fds_ok ?p1" using fds by (simp add: fds_ok_def)
    show ?thesis
    proof (cases "\<exists>ret. r = Inr (Some ret)")
      case no: False
      then have "y = (Inl (case r of Inl e \<Rightarrow> e | Inr _ \<Rightarrow> TypeError), ?p1)"
        using loop False b by (auto simp: Let_def split: sum.splits option.splits)
      then show ?thesis using p1 by simp
    next
      case True
      then obtain ret where ret: "r = Inr (Some ret)" by blast
      have ge: "- 2 \<le> ret" using poll_for_data_result [OF bound _ b [unfolded ret]] fds by (simp add: fds_ok_def)
      have body: "Some y =
         (if ret = - 1 then
            (case handle_server_request env ?p1 of
               None \<Rightarrow> None
             | Some (Inl e, p2) \<Rightarrow> Some (Inl e, p2)
             | Some (Inr _, p2) \<Rightarrow> if shutdown_request p2 then Some (Inr (), p2) else loop env p2)
          else if ret \<ge> 0 then
            (case map_of (pipe_list ?p1) ret of
               None \<Rightarrow> loop env ?p1
             | Some n \<Rightarrow>
                 (case handle_plugin_holder n ?p1 of
                    (Inl e, p2) \<Rightarrow> Some (Inl e, p2)
                  | (Inr _, p2) \<Rightarrow> loop env p2))
          else loop env ?p1)"
        using loop False b ret ge by (auto simp: Let_def)
      have next_round: "loop env q = Some y \<Longrightarrow> fds_ok q \<Longrightarrow> proc_ok q \<Longrightarrow> ?thesis" for q
        using IH [of env q y] env by simp
      consider "ret = - 1" | "0 \<le> ret" | "ret = - 2" using ge by linarith
      then show ?thesis
      proof cases
        case 1
        then obtain u p2 where p2: "handle_server_request env ?p1 = Some (u, p2)"
          using body by (cases "handle_server_request env ?p1") auto
        have "proc_ok p2" using server_requests_ok [OF p2 env p1] by simp
        moreover have "fds_ok p2" using server_requests_pipes [OF p2] fds1 by (simp add: fds_ok_def)
        ultimately have go: "loop env p2 = Some y \<Longrightarrow> ?thesis" and p2_ok: "proc_ok p2" using next_round by simp_all
        then show ?thesis using body p2 1 go by (auto split: sum.splits if_splits)
      next
        case 2
        then have m: "ret \<noteq> - 1" by simp
        show ?thesis
        proof (cases "map_of (pipe_list ?p1) ret")
          case None
          then show ?thesis using body 2 m p1 fds1 next_round by simp
        next
          case (Some n)
          obtain u p2 where p2: "handle_plugin_holder n ?p1 = (u, p2)" by fastforce
          have "proc_ok p2" using handle_plugin_ok [OF p1 p2] .
          moreover have "fds_ok p2" using handle_plugin_pipes [OF p2] fds1 by (simp add: fds_ok_def)
          ultimately show ?thesis using body p2 2 m Some next_round [of p2] by (auto split: sum.splits)
        qed
      next
        case 3
        then show ?thesis using body p1 fds1 next_round by simp
      qed
    qed
  qed
qed

lemmas poll_loop_ends = poll_loop_ends_aux [rule_format]

end

context polling_library
begin

lemma new_holder_bound:
  assumes "bound b" "reg (lib b)" "new_holder load nm f conf b = (r, b')"
  shows "bound b' \<and> reg (lib b') \<and>
    (case r of
       Inl e \<Rightarrow> acts (lib b') = acts (lib b)
     | Inr h \<Rightarrow> fdW h = None \<and>
         (if plugin h then set (acts (lib b')) \<subseteq> insert nm (set (acts (lib b))) else acts (lib b') = acts (lib b)))"
proof -
  obtain ra b1 where ra: "register_action nm b = (ra, b1)" by fastforce
  note act = register_action_bound [OF assms(1,2) ra]
  have tuple: "ra \<noteq> Inr PyTuple" using ra assms(1) bound_valid [OF assms(1)]
    by (auto simp: register_action_def bind_st_def split: prod.splits sum.splits if_splits)
  have "\<not> ret_truth v \<Longrightarrow> acts (lib b1) = acts (lib b)" if "ra = Inr v" for v
    using act that by (cases "v = PyBool True") auto
  moreover have "acts (lib b1) = acts (lib b)" if "ra = Inl e" for e using act that by auto
  ultimately show ?thesis
    using assms act tuple ra
    by (cases "json_get conf REQ_PAUSE JNull"; cases "load (plugin_module f) conf"; cases ra)
      (auto simp: new_holder_def Let_def empty_holder_def split: if_splits prod.splits)
qed

lemma load_plugins_ok:
  assumes "\<forall>t. 0 \<le> fst (os_pipe env t)"
  shows "load_plugins env actions_conf items p = (r, p') \<Longrightarrow> proc_ok p \<Longrightarrow> fds_ok p \<Longrightarrow> r \<noteq> Inr False \<Longrightarrow>
    proc_ok p' \<and> fds_ok p'"
proof (induction items arbitrary: p)
  case (Cons item items)
  obtain nm path where item: "item = (nm, path)" by (cases item)
  have ok: "bound (pbind p)" "reg (lib (pbind p))" "set (acts (lib (pbind p))) \<subseteq> set (keys (active p))"
    "all_valid (active p)" using Cons.prems(2) by (simp_all add: proc_ok_def)
  show ?case
  proof (cases "json_get actions_conf nm (JObj [])")
    case (Inl e)
    then show ?thesis using Cons.prems item by simp
  next
    case conf: (Inr conf)
    show ?thesis
    proof (cases "json_get conf ''disable'' (JBool False)")
      case (Inl e)
      then show ?thesis using Cons.prems item conf by simp
    next
      case dis: (Inr d)
      show ?thesis
      proof (cases "truthy d \<or> (\<forall>fl. path \<noteq> JStr fl)")
        case True
        then show ?thesis using Cons.prems Cons.IH item conf dis by (cases path; cases "truthy d") auto
      next
        case False
        then obtain fl where fl: "path = JStr fl" "\<not> truthy d" by auto
        obtain rh b where rh: "new_holder (loader env (sys_path p)) nm fl conf (pbind p) = (rh, b)" by fastforce
        note nh = new_holder_bound [OF ok(1,2) rh]
        show ?thesis
        proof (cases rh)
          case (Inl e)
          then show ?thesis using Cons.prems item conf dis fl rh nh ok by (auto simp: proc_ok_def fds_ok_def)
        next
          case (Inr h)
          obtain rd wr where fds: "os_pipe env (ticks p) = (rd, wr)" by fastforce
          have h: "plugin h" "fdW h = None"
            using Cons.prems(1,4) item conf dis fl rh nh Inr by (auto simp: is_valid_def split: if_splits)
          let ?h = "h\<lparr>fdW := Some wr, fdR := Some rd\<rparr>"
          let ?q = "p\<lparr>pbind := b, ticks := Suc (ticks p), active := AList.update nm ?h (active p),
            pipe_list := AList.update rd nm (pipe_list p)\<rparr>"
          have "load_plugins env actions_conf items ?q = (r, p')"
            using Cons.prems(1) item conf dis fl rh Inr h fds by (simp add: is_valid_def set_pipe_def)
          moreover have "proc_ok ?q"
            using ok nh Inr h all_valid_update [of "active p" ?h nm]
            by (auto simp: proc_ok_def set_keys_update simp del: set_map)
          moreover have "0 \<le> rd" using assms fds by (metis fst_conv)
          then have "fds_ok ?q" using Cons.prems(3) by (auto simp: fds_ok_def dom_update)
          ultimately show ?thesis using Cons.IH [of ?q] Cons.prems(4) by blast
        qed
      qed
    qed
  qed
qed simp

text \<open>
  A run that returns 0 leaves the shutdown flag set, whatever signal or request ended it: the
  caller's loop does not run again.
\<close>

lemma leave_shutdown:
  assumes "all_valid (active p)" "signal_raised p \<or> shutdown_request p" "leave nm p = (Inr 0, p')"
  shows "shutdown_request p'"
proof -
  obtain r b where d: "deregister_client nm (pbind p) = (Inr r, b)"
    using assms(3) by (cases "deregister_client nm (pbind p)"; cases "fst (deregister_client nm (pbind p))")
      (auto simp: leave_def)
  show ?thesis
  proof (cases "shutdown_request p")
    case True
    then show ?thesis using d assms(3) by (auto simp: leave_def)
  next
    case False
    then show ?thesis using d assms handle_shutdown_ok [of "p\<lparr>pbind := b\<rparr>"] by (auto simp: leave_def)
  qed
qed

lemma wait_for_config_keeps:
  "wait_for_config env p = Some y \<Longrightarrow> (\<forall>t l. up l \<longrightarrow> up (server env t l)) \<longrightarrow> bound (pbind p) \<longrightarrow> up (lib (pbind p)) \<longrightarrow>
   bound (pbind (snd y)) \<and> up (lib (pbind (snd y))) \<and> keys (active (snd y)) = keys (active p) \<and> pipe_list (snd y) = pipe_list p"
proof (erule wait_for_config.raw_induct [rotated], intro impI)
  fix rec :: "'a surroundings \<Rightarrow> 'a proc \<Rightarrow> (unit res \<times> 'a proc) option" and env p y
  assume IH: "\<And>env p y. rec env p = Some y \<Longrightarrow> (\<forall>t l. up l \<longrightarrow> up (server env t l)) \<longrightarrow> bound (pbind p) \<longrightarrow> up (lib (pbind p)) \<longrightarrow>
      bound (pbind (snd y)) \<and> up (lib (pbind (snd y))) \<and> keys (active (snd y)) = keys (active p) \<and> pipe_list (snd y) = pipe_list p"
    and body: "(case is_running_config_available (pcfg p) of
        (Inl e, c) \<Rightarrow> Some (Inl e, p\<lparr>pcfg := c\<rparr>)
      | (Inr ok, c) \<Rightarrow>
          if ok then Some (Inr (), p\<lparr>pcfg := c\<rparr>)
          else rec env (pass env (p\<lparr>pcfg := cfg_change env (ticks p) c\<rparr>))) = Some y"
    and env: "\<forall>t l. up l \<longrightarrow> up (server env t l)" and p: "bound (pbind p)" "up (lib (pbind p))"
  obtain r c where r: "is_running_config_available (pcfg p) = (r, c)" by fastforce
  show "bound (pbind (snd y)) \<and> up (lib (pbind (snd y))) \<and> keys (active (snd y)) = keys (active p) \<and> pipe_list (snd y) = pipe_list p"
  proof (cases "r = Inr False")
    case True
    then show ?thesis using IH [of env "pass env (p\<lparr>pcfg := cfg_change env (ticks p) c\<rparr>)" y] body r env p by simp
  next
    case False
    then show ?thesis using body r p by (auto split: sum.splits if_splits)
  qed
qed

lemma main_run_shutdown:
  assumes "bound (pbind p)" "up (lib (pbind p))" "env_ok env" "\<forall>t. 0 \<le> fst (os_pipe env t)"
    "main_run env nm p = Some (Inr 0, p')" "\<forall>t l. up l \<longrightarrow> up (server env t l)"
  shows "shutdown_request p'"
proof -
  obtain y1 where y1: "wait_for_config env (p\<lparr>this_proc_name := nm, active := [], pipe_list := []\<rparr>) = Some y1"
    using assms(5) by (auto simp: main_run_def split: option.splits)
  obtain p1 where p1: "y1 = (Inr (), p1)"
    using assms(5) y1 by (cases y1; cases "fst y1") (auto simp: main_run_def)
  have keep: "bound (pbind p1)" "up (lib (pbind p1))" "active p1 = []" "pipe_list p1 = []"
    using wait_for_config_keeps [OF y1] p1 assms(1,2,6) by simp_all
  obtain plugins c where plugins: "get_proc_plugins_conf nm (pcfg p1) = (Inr plugins, c)"
    using assms(5) y1 p1 by (cases "get_proc_plugins_conf nm (pcfg p1)"; cases "fst (get_proc_plugins_conf nm (pcfg p1))")
      (auto simp: main_run_def)
  obtain ac c2 where ac: "get_actions_conf c = (Inr ac, c2)"
    using assms(5) y1 p1 plugins by (cases "get_actions_conf c"; cases "fst (get_actions_conf c)") (auto simp: main_run_def)
  obtain ret b where ret: "register_client nm (pbind p1) = (Inr ret, b)"
    using assms(5) y1 p1 plugins ac
    by (cases "register_client nm (pbind p1)"; cases "fst (register_client nm (pbind p1))") (auto simp: main_run_def)
  let ?p2 = "p1\<lparr>pcfg := c2, pbind := b\<rparr>"
  have truth: "ret_truth ret" using assms(5) y1 p1 plugins ac ret by (auto simp: main_run_def Let_def split: if_splits)
  have p2: "proc_ok ?p2" "fds_ok ?p2"
    using register_client_bound [OF keep(1,2) ret truth] keep by (simp_all add: proc_ok_def fds_ok_def all_valid_def)
  obtain r p3 where p3: "(case plugins of JObj items \<Rightarrow> load_plugins env ac items ?p2
      | _ \<Rightarrow> (Inl (AttributeError ''items''), ?p2)) = (r, p3)" by fastforce
  have go: "Some (Inr 0, p') =
      (if r = Inr False then Some (Inr (- 1), p3)
       else if pipe_list p3 = [] then
         Some (case plugins of JObj _ \<Rightarrow> (Inr (- 1), p3) | _ \<Rightarrow> (Inl (AttributeError ''keys''), p3))
       else
         (case poll_loop env p3 of
            None \<Rightarrow> None
          | Some (Inl e, p4) \<Rightarrow> Some (Inl e, p4)
          | Some (Inr _, p4) \<Rightarrow> Some (leave nm p4)))"
    using assms(5) y1 p1 plugins ac ret truth p3 by (simp add: main_run_def Let_def)
  have r: "r \<noteq> Inr False" "pipe_list p3 \<noteq> []" using go by (auto split: if_splits json.splits)
  have p3_ok: "proc_ok p3 \<and> fds_ok p3"
  proof (cases "\<exists>items. plugins = JObj items")
    case True
    then show ?thesis using p3 r p2 load_plugins_ok [OF assms(4)] by auto
  next
    case False
    then show ?thesis using p3 p2 by (cases plugins) auto
  qed
  obtain p4 where p4: "poll_loop env p3 = Some (Inr (), p4)" "leave nm p4 = (Inr 0, p')"
    using go r by (auto split: option.splits prod.splits sum.splits)
  then show ?thesis using poll_loop_ends [OF p4(1) assms(3)] p3_ok leave_shutdown [of p4 nm p']
    by (simp add: proc_ok_def)
qed

end

text \<open>The library of test mode: what it polls is one of the descriptors, \<open>-1\<close> or \<open>-2\<close>.\<close>

interpretation testproc: polling_library test_api "\<lambda>w. tw_up w \<and> \<not> tw_shutdown w" tw_live tw_acts tw_pending
proof unfold_locales
  fix l l' :: test_world and fds n tmo v
  assume l: "tw_live l" and fds: "\<forall>fd \<in> set fds. (0::int) \<le> fd"
    and p: "api_poll_for_data test_api fds n tmo l = Some (Inr (Some v), l')"
  obtain i where i: "cache_svc (th (tw_lib l)) = Some i"
    using l by (auto simp: tw_live_def tw_reg_def elim: client_regE)
  let ?fd = "get_signal_rd_fd False (get_svc i (tw_lib l))"
  obtain env' s' where "poll_data_loop False i ?fd (?fd # fds) tmo (tw_env l) (tw_lib l) = Some (Inr (Some v), env', s')"
    using p l i by (auto simp: api_simps test_poll_def clib_poll_for_data_def Let_def tw_live_def split: option.splits)
  moreover have "clib_ok (tw_lib l)" using l by (simp add: tw_live_def tw_reg_def client_reg_def)
  ultimately have "v = - 1 \<or> v = - 2 \<or> v \<in> set fds" using i by (auto dest!: poll_data_loop_ok)
  then show "- 2 \<le> v" using fds by auto
qed

section \<open>Properties\<close>

text \<open>A process in test mode whose client is registered, to apply the properties to.\<close>

definition live_bind :: "test_world bind" where
  "live_bind = snd (register_client ''proc_0'' loaded_bind)"

lemma loaded_bind_eq:
  "loaded_bind =
     \<lparr>clib_dll = Test_Dll, TEST_RUN = True, ptrs = fold (\<lambda>n ps. AList.update n test_api ps) test_pointers [],
      gvars_set = [],
      lib = \<lparr>tw_cfg = sample_config\<lparr>rc_data := tl sample_rc\<rparr>,
             tw_lib = create_cache_services sample_pipes 1 new_clib, tw_env = [], tw_shutdown = False\<rparr>\<rparr>"
  by (simp add: loaded_bind_def c_lib_init_def sample_bind_def sample_world_def test_init_def clib_init_def
      sample_plugins_conf sample_plugins_def)

lemma loaded_bind_facts: "testlib.bound loaded_bind" "tw_up (lib loaded_bind)" "\<not> tw_shutdown (lib loaded_bind)"
  by (simp_all add: loaded_bind_eq testlib.bound_def validate_dll_def list_all_iff test_pointers_bound tw_up_def
      created_up env_wf_def)

lemma live_register: "register_client ''proc_0'' loaded_bind = (Inr (PyBool True), live_bind)"
proof -
  have lib: "tw_lib (lib loaded_bind) = create_cache_services sample_pipes 1 new_clib"
    by (simp add: loaded_bind_eq)
  have "map_of (ptrs loaded_bind) ''register_client'' = Some test_api"
    using testlib.bound_ptr [OF loaded_bind_facts(1)] by (simp add: test_pointers_def)
  moreover have "fst (clib_register_client ''proc_0'' (tw_lib (lib loaded_bind))) = Inr (Some 0)"
    unfolding lib by (simp add: clib_register_client_def split_proc_0 py_int_0 is_initialized_def
        list_index_def create_cache_services_def Let_def new_clib_def new_th_def)
  ultimately have "fst (register_client ''proc_0'' loaded_bind) = Inr (PyBool True)"
    using loaded_bind_facts(1) by (auto simp: register_client_def call_ptr_def api_simps bind_st_def split: prod.splits)
  then show ?thesis by (simp add: live_bind_def prod_eq_iff)
qed

lemma live_bind_facts: "testlib.bound live_bind" "tw_live (lib live_bind)" "tw_acts (lib live_bind) = []"
  using testlib.register_client_bound [OF loaded_bind_facts(1) _ live_register] loaded_bind_facts by simp_all

definition quiet_env :: "test_world surroundings" where
  "quiet_env =
     \<lparr>clock = int, signals = (\<lambda>_. []), others = (\<lambda>_ _ h. h), server = (\<lambda>_ l. l), cfg_change = (\<lambda>_ c. c),
      os_pipe = (\<lambda>k. (int (2 * k) + 10, int (2 * k) + 11)), loader = (\<lambda>_ nm _. Inr (nm, True)),
      names = common_names, argv0 = ''plugin_proc.py'', ct_dir = ''/p''\<rparr>"

definition live_proc :: "test_world proc" where
  "live_proc =
     \<lparr>signal_raised = False, sigusr1_raised = False, sigterm_raised = False, shutdown_request = False,
      this_proc_name = '''', sys_path = [], pcfg = sample_config, pbind = live_bind, active = [], pipe_list = [],
      syslog_name = '''', log_level = 3, ticks = 0\<rparr>"

lemma live_lib: "tw_lib (lib live_bind) = sample_clib"
proof -
  have lib: "tw_lib (lib loaded_bind) = create_cache_services sample_pipes 1 new_clib" by (simp add: loaded_bind_eq)
  have "map_of (ptrs loaded_bind) ''register_client'' = Some test_api"
    using testlib.bound_ptr [OF loaded_bind_facts(1)] by (simp add: test_pointers_def)
  then have "tw_lib (lib live_bind) = snd (clib_register_client ''proc_0'' (create_cache_services sample_pipes 1 new_clib))"
    using loaded_bind_facts(1) unfolding lib [symmetric]
    by (auto simp: live_bind_def register_client_def call_ptr_def api_simps bind_st_def split: prod.splits sum.splits)
  moreover have "(\<lambda>k. (int (2 * k) + 3, int (2 * k) + 4)) = sample_pipes" by (simp add: fun_eq_iff sample_pipes_def)
  ultimately show ?thesis by (simp add: sample_clib_def)
qed

lemma live_bind_idle: "client_pending (tw_lib (lib live_bind)) = 0"
  using sample_clib_eval by (simp add: live_lib client_pending_def own_queue_def idle_def)

lemma live_acts: "actions (th (tw_lib (lib live_bind))) = Some []" "is_initialized (tw_lib (lib live_bind))"
  using live_bind_facts(2,3)
  by (auto simp: tw_live_def tw_reg_def tw_acts_def client_acts_def is_initialized_def elim!: client_regE)

text \<open>The same process after a shutdown request has arrived.\<close>

definition stop_message :: message where
  "stop_message = [(REQ_ACTION_REQUEST, JObj [(''request_type'', JStr REQ_ACTION_TYPE_SHUTDOWN)])]"

definition stop_bind :: "test_world bind" where
  "stop_bind = live_bind\<lparr>lib := (lib live_bind)\<lparr>tw_lib := deliver (the (cache_svc (th (tw_lib (lib live_bind))))) [stop_message]
     (tw_lib (lib live_bind))\<rparr>\<rparr>"

definition loaded_holder :: holder where
  "loaded_holder = (empty_holder JNull)\<lparr>name := ''link_flap'', plugin := True, fdW := Some 11, fdR := Some 10\<rparr>"

text \<open>After the client has registered an action.\<close>

definition act_bind :: "test_world bind" where
  "act_bind = snd (register_action ''link_flap'' live_bind)"

lemma act_register:
  "register_action ''link_flap'' live_bind = (Inr (PyBool True), act_bind)"
  "tw_lib (lib act_bind) = snd (clib_register_action ''link_flap'' sample_clib)"
proof -
  obtain r b where r: "register_action ''link_flap'' live_bind = (r, b)" by fastforce
  have ptr: "map_of (ptrs live_bind) ''register_action'' = Some test_api"
    using testlib.bound_ptr [OF live_bind_facts(1)] by (simp add: test_pointers_def)
  have "fst (clib_register_action ''link_flap'' (tw_lib (lib live_bind))) = Inr (Some 0)"
    using live_acts by (simp add: clib_register_action_def)
  with ptr have "r = Inr (PyBool True) \<and> tw_lib (lib b) = snd (clib_register_action ''link_flap'' sample_clib)"
    using r live_bind_facts(1)
    by (auto simp: register_action_def call_ptr_def api_simps bind_st_def live_lib split: prod.splits)
  then show "register_action ''link_flap'' live_bind = (Inr (PyBool True), act_bind)"
    "tw_lib (lib act_bind) = snd (clib_register_action ''link_flap'' sample_clib)"
    using r by (simp_all add: act_bind_def)
qed

lemma act_bind_facts: "testlib.bound act_bind" "tw_live (lib act_bind)" "tw_acts (lib act_bind) = [''link_flap'']"
  using testlib.register_action_bound [OF live_bind_facts(1,2) act_register(1)] live_bind_facts(3) by simp_all

lemma live_load:
  assumes "loader env = (\<lambda>_ nm _. Inr (nm, True))" "os_pipe env 0 = (10, 11)" "ticks p = 0" "pbind p = live_bind"
    "active p = []" "pipe_list p = []"
  shows "\<exists>b. load_plugins env (JObj []) [(''link_flap'', JStr ''link_flap.py'')] p =
      (Inr True, p\<lparr>pbind := b, ticks := 1, active := [(''link_flap'', loaded_holder)], pipe_list := [(10, ''link_flap'')]\<rparr>) \<and>
    testlib.bound b \<and> tw_live (lib b) \<and> tw_acts (lib b) = [''link_flap'']"
proof -
  have "plugin_module ''link_flap.py'' = ''link_flap''"
    by (simp add: plugin_module_def endswith_def basename_def)
  then have "new_holder (\<lambda>nm _. Inr (nm, True)) ''link_flap'' ''link_flap.py'' (JObj []) live_bind =
      (Inr ((empty_holder JNull)\<lparr>name := ''link_flap'', plugin := True\<rparr>), act_bind)"
    using act_register(1) by (simp add: new_holder_def)
  then have "load_plugins env (JObj []) [(''link_flap'', JStr ''link_flap.py'')] p =
      (Inr True, p\<lparr>pbind := act_bind, ticks := 1, active := [(''link_flap'', loaded_holder)], pipe_list := [(10, ''link_flap'')]\<rparr>)"
    using assms by (simp add: is_valid_def set_pipe_def loaded_holder_def empty_holder_def)
  then show ?thesis using act_bind_facts by blast
qed

text \<open>What the server may do to the library at any time: the registration stays, whatever it writes.\<close>

definition server_keeps :: "test_world surroundings \<Rightarrow> bool" where
  "server_keeps env \<longleftrightarrow>
     (\<forall>t l. (tw_up l \<and> \<not> tw_shutdown l \<longrightarrow> tw_up (server env t l) \<and> \<not> tw_shutdown (server env t l)) \<and>
        (tw_live l \<longrightarrow> tw_live (server env t l) \<and> tw_acts (server env t l) = tw_acts l))"

text \<open>A server that writes messages of its own into the queue of a registered thread keeps it.\<close>

definition server_writes :: "message list \<Rightarrow> test_world \<Rightarrow> test_world" where
  "server_writes ms w =
     (case cache_svc (th (tw_lib w)) of None \<Rightarrow> w | Some i \<Rightarrow> w\<lparr>tw_lib := deliver i ms (tw_lib w)\<rparr>)"

lemma server_writes_keeps:
  assumes "list_all wf_members ms"
  shows "tw_up w \<and> \<not> tw_shutdown w \<Longrightarrow> tw_up (server_writes ms w) \<and> \<not> tw_shutdown (server_writes ms w)"
    "tw_live w \<Longrightarrow> tw_live (server_writes ms w) \<and> tw_acts (server_writes ms w) = tw_acts w"
proof -
  show "tw_up w \<and> \<not> tw_shutdown w \<Longrightarrow> tw_up (server_writes ms w) \<and> \<not> tw_shutdown (server_writes ms w)"
    by (simp add: server_writes_def tw_up_def client_up_def)
  assume w: "tw_live w"
  then obtain i where i: "cache_svc (th (tw_lib w)) = Some i" by (auto simp: tw_live_def tw_reg_def elim: client_regE)
  then show "tw_live (server_writes ms w) \<and> tw_acts (server_writes ms w) = tw_acts w"
    using w deliver_reg [OF _ i assms]
    by (auto simp: server_writes_def tw_live_def tw_reg_def tw_acts_def client_acts_def deliver_def)
qed

text \<open>C17. In test mode the loop that serves the server's requests ends, also while the server goes on writing, if there is a
  time after which it leaves no more messages than there were: every turn takes a message from the thread's queue, so
  from that time on there is at most one turn for each message that waits, and one that finds nothing. The process
  stays registered with the actions it had.\<close>

theorem server_requests_end:
  assumes "testlib.bound (pbind p)" "tw_live (lib (pbind p))" "others_ok env" "server_keeps env"
    "\<forall>t \<ge> T. \<forall>l. tw_pending (server env t l) \<le> tw_pending l"
  shows "\<exists>r p'. handle_server_request env p = Some (r, p') \<and> tw_live (lib (pbind p')) \<and>
    tw_acts (lib (pbind p')) = tw_acts (lib (pbind p)) \<and>
    (T \<le> ticks p \<longrightarrow> ticks p' \<le> Suc (ticks p + tw_pending (lib (pbind p))))"
proof -
  have "testlib.env_ok env" using assms(3,4) by (simp add: testlib.env_ok_def server_keeps_def)
  from testlib.server_requests_return [OF this assms(5,1,2)] show ?thesis by blast
qed

text \<open>A request waits, and the server writes another one while it is served.\<close>

definition writing_env :: "test_world surroundings" where
  "writing_env = quiet_env\<lparr>server := (\<lambda>t. if t = 0 then server_writes [stop_message] else (\<lambda>l. l))\<rparr>"

lemma writing_env_keeps: "server_keeps writing_env"
  using server_writes_keeps [of "[stop_message]"]
  by (auto simp: server_keeps_def writing_env_def quiet_env_def stop_message_def)

lemma stop_bind_facts: "testlib.bound stop_bind" "tw_live (lib stop_bind)" "tw_pending (lib stop_bind) = 1"
proof -
  let ?s = "tw_lib (lib live_bind)"
  have live: "client_reg ?s" "\<not> tw_shutdown (lib live_bind)" "env_wf (tw_env (lib live_bind))"
    using live_bind_facts(2) by (simp_all add: tw_live_def tw_reg_def)
  then obtain i where i: "cache_svc (th ?s) = Some i" "i < num_svc ?s" "services_ok ?s" "own_queue ?s = svc_s2c (get_svc i ?s)"
    by (auto elim: client_regE)
  let ?t = "deliver i [stop_message] ?s"
  have stop: "stop_bind = live_bind\<lparr>lib := (lib live_bind)\<lparr>tw_lib := ?t\<rparr>\<rparr>" using i by (simp add: stop_bind_def)
  show "testlib.bound stop_bind" using live_bind_facts(1) by (simp add: stop)
  have "client_reg ?t" using deliver_reg [OF live(1) i(1), of "[stop_message]"] by (simp add: stop_message_def)
  then show "tw_live (lib stop_bind)" using live by (simp add: stop tw_live_def tw_reg_def)
  have empty: "contents (svc_s2c (get_svc i ?s)) = []" "\<not> has_req ?s"
    using live_bind_idle i(4) by (simp_all add: client_pending_def split: if_splits)
  have c: "cache_ok (svc_s2c (get_svc i ?s))" using get_svc_ok [OF i(3,2)] by (simp add: svc_ok_def)
  then have "0 < capacity (svc_s2c (get_svc i ?s))" by (simp add: capacity_def cache_ok_def)
  then show "tw_pending (lib stop_bind) = 1"
    using write_all_ok [OF c, of "[stop_message]"] i(1,2) empty
    by (simp add: stop tw_pending_def client_pending_def own_queue_def deliver_def get_put_svc has_req_def)
qed

lemma server_requests_end_witness:
  "\<exists>r p'. handle_server_request writing_env (live_proc\<lparr>pbind := stop_bind, ticks := 0\<rparr>) = Some (r, p') \<and> tw_live (lib (pbind p')) \<and>
     (\<exists>r2 p2. handle_server_request writing_env (live_proc\<lparr>pbind := stop_bind, ticks := 1\<rparr>) = Some (r2, p2) \<and> ticks p2 \<le> 3)"
proof -
  have later: "\<forall>t \<ge> 1. \<forall>l. tw_pending (server writing_env t l) \<le> tw_pending l" by (simp add: writing_env_def)
  have others: "others_ok writing_env" by (simp add: others_ok_def writing_env_def quiet_env_def)
  note ends = server_requests_end [OF _ _ others writing_env_keeps later]
  obtain r p' where 1: "handle_server_request writing_env (live_proc\<lparr>pbind := stop_bind, ticks := 0\<rparr>) = Some (r, p')" "tw_live (lib (pbind p'))"
    using ends [of "live_proc\<lparr>pbind := stop_bind, ticks := 0\<rparr>"] stop_bind_facts by auto
  obtain r2 p2 where 2: "handle_server_request writing_env (live_proc\<lparr>pbind := stop_bind, ticks := 1\<rparr>) = Some (r2, p2)" "ticks p2 \<le> 3"
    using ends [of "live_proc\<lparr>pbind := stop_bind, ticks := 1\<rparr>"] stop_bind_facts by auto
  show ?thesis using 1 2 by blast
qed

text \<open>C24. In test mode a read of a request with timeout 0 returns, and a request it yields is a
  shutdown, or names an action the thread registered, or is of another type and has no
  attributes.\<close>

theorem requests_are_for_registered_actions:
  assumes "testlib.bound b" "tw_live (lib b)"
  shows "\<exists>r b'. read_action_request 0 b = Some (r, b') \<and> tw_live (lib b') \<and>
    (\<forall>rq. r = Inr (True, Some rq) \<longrightarrow> tw_pending (lib b') < tw_pending (lib b) \<and>
       (is_shutdown rq \<or> attrs rq = None \<or> (\<exists>n \<in> set (tw_acts (lib b)). req_action_name rq = Inr (JStr n))))"
  using testlib.read_request_ex [OF assms] by blast

lemma requests_are_for_registered_actions_witness:
  "\<exists>r b'. read_action_request 0 live_bind = Some (r, b') \<and> tw_live (lib b')"
  using requests_are_for_registered_actions [OF live_bind_facts(1,2)] by blast

lemma stop_request_read:
  assumes "testlib.bound stop_bind" "tw_live (lib stop_bind)"
  shows "\<exists>rq b. read_action_request 0 stop_bind = Some (Inr (True, Some rq), b) \<and> is_shutdown rq"
proof -
  let ?s = "tw_lib (lib live_bind)" and ?t = "tw_lib (lib stop_bind)"
  have reg: "client_reg ?s" using live_bind_facts(2) by (simp add: tw_live_def tw_reg_def)
  obtain i where i: "cache_svc (th ?s) = Some i" "i < num_svc ?s" "services_ok ?s" "own_queue ?s = svc_s2c (get_svc i ?s)"
    using reg by (auto elim: client_regE)
  have empty: "contents (svc_s2c (get_svc i ?s)) = []" "\<not> has_req ?s"
    using live_bind_idle i by (simp_all add: client_pending_def split: if_splits)
  have c: "cache_ok (svc_s2c (get_svc i ?s))" using get_svc_ok [OF i(3,2)] by (simp add: svc_ok_def)
  then have cap: "0 < capacity (svc_s2c (get_svc i ?s))" by (simp add: capacity_def cache_ok_def)
  have t: "?t = deliver i [stop_message] ?s" using i(1) by (simp add: stop_bind_def)
  have th: "th ?t = th ?s" by (simp add: t deliver_def)
  have q: "contents (svc_s2c (get_svc i ?t)) = [stop_message]"
    using write_all_ok [OF c, of "[stop_message]"] cap i(2) empty(1) by (simp add: t deliver_def get_put_svc)
  have ok: "clib_ok ?t" "\<not> tw_shutdown (lib stop_bind)"
    using assms(2) by (simp_all add: tw_live_def tw_reg_def client_reg_def)
  have "accepts stop_message (actions (th ?t)) = Inr True" by (simp add: accepts_def stop_message_def)
  from read_oldest [OF ok(1) _ _ q this, of "map arrivals (tw_env (lib stop_bind))"] obtain s' where
    "clib_read_action_request False 0 (map arrivals (tw_env (lib stop_bind))) ?t =
      Some (Inr (Some (dumps (JObj [(''request_type'', JStr REQ_ACTION_TYPE_SHUTDOWN)]))), s', map arrivals (tw_env (lib stop_bind)))"
    using i(1) empty(2) th by (auto simp: stop_message_def has_req_def)
  moreover have "\<exists>rq. new_action_request (dumps (JObj [(''request_type'', JStr REQ_ACTION_TYPE_SHUTDOWN)])) = Inr rq \<and> is_shutdown rq"
    using loads_dumps [of "JObj [(''request_type'', JStr REQ_ACTION_TYPE_SHUTDOWN)]"]
    by (simp add: new_action_request_def is_shutdown_def REQ_ACTION_TYPE_def REQ_ACTION_TYPE_ACTION_def
        REQ_ACTION_TYPE_SHUTDOWN_def del: dumps.simps)
  moreover have "map_of (ptrs stop_bind) ''read_action_request'' = Some test_api"
    using testlib.bound_ptr [OF assms(1)] by (simp add: test_pointers_def)
  ultimately show ?thesis
    using assms(1) ok(2) by (auto simp: read_action_request_def test_api_def test_read_def)
qed

lemma update_same: "map_of d n = Some v \<Longrightarrow> AList.update n v d = d"
  by (induction d) auto

text \<open>C19. When every registered action has its holder, serving a request that was read has exactly these outcomes. A
  shutdown stops every plugin and sets the process's flag. A request of no known type raises
  \<^verbatim>\<open>AttributeError\<close>. Any other is for the holder of a registered action: while that one's thread is
  alive, it raises the \<^verbatim>\<open>NameError\<close> of a busy plugin; while a response is stored, it is dropped; and else it
  starts the plugin with this request. The two log messages that name an undefined \<^verbatim>\<open>action_name\<close> are
  never reached.\<close>

theorem served_request_outcomes:
  assumes "testlib.bound (pbind p)" "tw_live (lib (pbind p))"
    "set (tw_acts (lib (pbind p))) \<subseteq> set (keys (active p))" "all_valid (active p)" "others_ok env"
    "read_action_request 0 (pbind p) = Some (Inr (True, Some rq), b)" "p1 = pass env (p\<lparr>pbind := b\<rparr>)"
  shows "if is_shutdown rq then
      \<exists>hs. serve_request env rq p1 = (Inr (), p1\<lparr>active := hs, shutdown_request := True\<rparr>) \<and>
        keys hs = keys (active p) \<and> list_all (\<lambda>(n, h). plugin_stopped h) hs
    else if attrs rq = None then serve_request env rq p1 = (Inl (AttributeError ''action_name''), p1)
    else \<exists>n h. n \<in> set (tw_acts (lib (pbind p))) \<and> req_action_name rq = Inr (JStr n) \<and> map_of (active p1) n = Some h \<and>
      serve_request env rq p1 =
        (if thr h \<notin> {None, Some T_exit} then (Inl (NameError ''take''), p1)
         else if response h \<noteq> None then (Inr (), p1\<lparr>active := AList.update n (h\<lparr>thr := None\<rparr>) (active p1)\<rparr>)
         else (Inr (), p1\<lparr>active := AList.update n
                (h\<lparr>req_start := clock env (ticks p1), last_request := Some rq, thr := Some T_run\<rparr>) (active p1)\<rparr>))"
proof -
  have v: "all_valid (active p1)" using assms(4,7) pass_valid [OF assms(5), of "p\<lparr>pbind := b\<rparr>"] by simp
  have ks: "keys (active p1) = keys (active p)" using assms(7) by simp
  have q: "is_shutdown rq \<or> attrs rq = None \<or> (\<exists>n \<in> set (tw_acts (lib (pbind p))). req_action_name rq = Inr (JStr n))"
    using testlib.read_request_ex [OF assms(1,2)] assms(6) by auto
  show ?thesis
  proof (cases "is_shutdown rq \<or> attrs rq = None")
    case True
    obtain hs where "handle_shutdown p1 = (Inr (), p1\<lparr>active := hs, shutdown_request := True\<rparr>)"
        "keys hs = keys (active p1)" "list_all (\<lambda>(n, h). plugin_stopped h) hs"
      using handle_shutdown_ok [OF v] by blast
    then show ?thesis using True ks by (auto simp: serve_request_def req_attr_defs)
  next
    case False
    then obtain n where n: "n \<in> set (tw_acts (lib (pbind p)))" "req_action_name rq = Inr (JStr n)" using q by auto
    then have "n \<in> set (keys (active p1))" using assms(3) unfolding ks by blast
    then obtain h where h: "map_of (active p1) n = Some h" using map_of_eq_None_iff [of "active p1" n] by auto
    have "plugin h" by (rule all_valid_get [OF v h])
    then have "serve_request env rq p1 =
        (case send_request (clock env (ticks p1)) rq h of (r, h') \<Rightarrow> (r, p1\<lparr>active := AList.update n h' (active p1)\<rparr>))"
      using False n(2) h by (simp add: serve_request_def holder_for_def is_valid_def)
    moreover have same: "h\<lparr>thr := None\<rparr> = h" if "thr h = None" using that by (cases h) simp
    ultimately show ?thesis using False n h update_same [OF h]
      by (intro if_not_P [THEN iffD2]) (auto simp: send_request_def chk_thread_done_def same intro!: exI [of _ n] exI [of _ h])
  qed
qed

lemma served_request_outcomes_witness:
  "\<exists>rq b hs. read_action_request 0 stop_bind = Some (Inr (True, Some rq), b) \<and>
     serve_request quiet_env rq (pass quiet_env (live_proc\<lparr>pbind := b\<rparr>)) =
       (Inr (), (pass quiet_env (live_proc\<lparr>pbind := b\<rparr>))\<lparr>active := hs, shutdown_request := True\<rparr>)"
proof -
  obtain rq b where read: "read_action_request 0 stop_bind = Some (Inr (True, Some rq), b)" and stop: "is_shutdown rq"
    using stop_request_read [OF stop_bind_facts(1,2)] by blast
  have acts: "tw_acts (lib stop_bind) = []"
    using live_acts by (simp add: stop_bind_def tw_acts_def client_acts_def deliver_def)
  have p: "testlib.bound (pbind (live_proc\<lparr>pbind := stop_bind\<rparr>))" "tw_live (lib (pbind (live_proc\<lparr>pbind := stop_bind\<rparr>)))"
      "set (tw_acts (lib (pbind (live_proc\<lparr>pbind := stop_bind\<rparr>)))) \<subseteq> set (keys (active (live_proc\<lparr>pbind := stop_bind\<rparr>)))"
      "all_valid (active (live_proc\<lparr>pbind := stop_bind\<rparr>))" "others_ok quiet_env"
      "read_action_request 0 (pbind (live_proc\<lparr>pbind := stop_bind\<rparr>)) = Some (Inr (True, Some rq), b)"
    using stop_bind_facts acts read by (simp_all add: live_proc_def all_valid_def others_ok_def quiet_env_def)
  show ?thesis using served_request_outcomes [OF p refl] stop read by auto
qed

text \<open>After the plugins are loaded in test mode, every action the client registered has a holder
  with its plugin, unless loading gave up.\<close>

lemma loaded_actions_have_holders:
  assumes "load_plugins env actions_conf items p = (r, p')" "r \<noteq> Inr False"
    "testlib.bound (pbind p)" "tw_live (lib (pbind p))" "tw_acts (lib (pbind p)) = []" "active p = []" "pipe_list p = []"
    "\<forall>t. 0 \<le> fst (os_pipe env t)"
  shows "\<forall>a \<in> set (tw_acts (lib (pbind p'))). \<exists>h. map_of (active p') a = Some h \<and> is_valid h"
proof -
  have "testlib.proc_ok p" "fds_ok p" using assms by (simp_all add: testlib.proc_ok_def fds_ok_def all_valid_def)
  then have ok: "testlib.proc_ok p'" using testproc.load_plugins_ok [OF assms(8,1)] assms(2) by blast
  show ?thesis
  proof
    fix a
    assume "a \<in> set (tw_acts (lib (pbind p')))"
    then have "a \<in> set (keys (active p'))" using ok by (auto simp: testlib.proc_ok_def simp del: set_map)
    then obtain h where "map_of (active p') a = Some h"
      using map_of_eq_None_iff [of "active p'" a] by auto
    then show "\<exists>h. map_of (active p') a = Some h \<and> is_valid h"
      using ok all_valid_get by (auto simp: testlib.proc_ok_def is_valid_def)
  qed
qed

text \<open>C18. A run of the process in test mode that returns 0 always leaves the shutdown flag set, whatever well-formed
  messages the server writes meanwhile, also when a signal such as \<^verbatim>\<open>SIGHUP\<close> ended it, so the outer loop ends with it: the reload that a comment
  announces for \<^verbatim>\<open>SIGHUP\<close> does not happen.\<close>

theorem no_reload_after_signal:
  assumes "testlib.bound (pbind p)" "tw_up (lib (pbind p))" "\<not> tw_shutdown (lib (pbind p))" "others_ok env" "server_keeps env"
    "\<forall>t. 0 \<le> fst (os_pipe env t)" "\<not> shutdown_request p" "\<not> sigterm_raised p"
    "main_run env nm p = Some (Inr 0, p')"
  shows "shutdown_request p' \<and> run_until_stopped env nm p = Some (Inr (), p')"
proof -
  have s: "shutdown_request p'"
    using testproc.main_run_shutdown [OF assms(1) _ _ assms(6,9)] assms(2-5) by (simp add: testlib.env_ok_def server_keeps_def)
  then have again: "run_until_stopped env nm p' = Some (Inr (), p')" by (subst run_until_stopped.simps) simp
  have "run_until_stopped env nm p = Some (Inr (), p')"
    using assms(7-9) again by (subst run_until_stopped.simps) simp
  with s show ?thesis ..
qed

text \<open>A run that \<^verbatim>\<open>SIGHUP\<close> ends at its first poll.\<close>

definition hup_env :: "test_world surroundings" where
  "hup_env = quiet_env\<lparr>signals := (\<lambda>_. [SIGHUP])\<rparr>"

lemma hup_run: "\<exists>p'. main_run hup_env ''proc_0'' (live_proc\<lparr>pbind := loaded_bind\<rparr>) = Some (Inr 0, p')"
proof -
  let ?c = "sample_config\<lparr>rc_data := tl sample_rc\<rparr>"
  let ?p0 = "live_proc\<lparr>pbind := loaded_bind, this_proc_name := ''proc_0'', active := [], pipe_list := []\<rparr>"
  have avail: "is_running_config_available sample_config = (Inr True, ?c)"
    using sample_conf_file by (simp add: is_running_config_available_def conf_files)
  then have 1: "wait_for_config hup_env ?p0 = Some (Inr (), ?p0\<lparr>pcfg := ?c\<rparr>)"
    by (subst wait_for_config.simps) (simp add: live_proc_def)
  have 2: "get_proc_plugins_conf ''proc_0'' ?c = (Inr (JObj [(''link_flap'', JStr ''link_flap.py'')]), ?c)"
    using sample_data by (simp add: get_proc_plugins_conf_def data_for_def conf_files sample_conf_file sample_plugins_def
        dict_get_def)
  have 3: "get_actions_conf ?c = (Inr (JObj []), ?c)"
    using sample_data by (simp add: get_actions_conf_def conf_files sample_conf_file)
  let ?p2 = "?p0\<lparr>pcfg := ?c, pbind := live_bind\<rparr>"
  obtain b where l: "load_plugins hup_env (JObj []) [(''link_flap'', JStr ''link_flap.py'')] ?p2 =
      (Inr True, ?p2\<lparr>pbind := b, ticks := 1, active := [(''link_flap'', loaded_holder)], pipe_list := [(10, ''link_flap'')]\<rparr>)"
    "testlib.bound b" "tw_live (lib b)"
    using live_load [of hup_env ?p2] by (auto simp: hup_env_def quiet_env_def live_proc_def)
  let ?p3 = "?p2\<lparr>pbind := b, ticks := 1, active := [(''link_flap'', loaded_holder)], pipe_list := [(10, ''link_flap'')]\<rparr>"
  let ?p4 = "pass hup_env ?p3"
  have r4: "signal_raised ?p4" by (simp add: pass_raised hup_env_def)
  then have 4: "poll_loop hup_env ?p3 = Some (Inr (), ?p4)" by (subst poll_loop.simps) (simp add: Let_def)
  have "map_of (ptrs b) ''deregister_client'' = Some test_api"
    using testlib.bound_ptr [OF l(2)] by (simp add: test_pointers_def)
  then obtain b' where d: "deregister_client ''proc_0'' b = (Inr PyNone, b')"
    using l(2) by (cases "clib_deregister_client ''proc_0'' (tw_lib (lib b))")
      (auto simp: deregister_client_def call_ptr_def api_simps clib_deregister_client_def split: if_splits)
  have v: "all_valid (active (?p4\<lparr>pbind := b'\<rparr>))"
    using pass_valid [of hup_env ?p3]
    by (simp add: others_ok_def hup_env_def quiet_env_def all_valid_def loaded_holder_def)
  have "\<exists>p'. leave ''proc_0'' ?p4 = (Inr 0, p')"
    using d r4 handle_shutdown_ok [OF v] by (auto simp: leave_def live_proc_def hup_env_def quiet_env_def)
  then show ?thesis using 1 2 3 4 l(1) live_register by (auto simp: main_run_def live_proc_def)
qed

lemma no_reload_after_signal_witness:
  "\<exists>p'. run_until_stopped hup_env ''proc_0'' (live_proc\<lparr>pbind := loaded_bind\<rparr>) = Some (Inr (), p') \<and> shutdown_request p'"
proof -
  obtain p' where run: "main_run hup_env ''proc_0'' (live_proc\<lparr>pbind := loaded_bind\<rparr>) = Some (Inr 0, p')"
    using hup_run by blast
  show ?thesis
    using no_reload_after_signal [OF _ _ _ _ _ _ _ _ run] loaded_bind_facts
    by (auto simp: live_proc_def others_ok_def server_keeps_def hup_env_def quiet_env_def)
qed

text \<open>Stopping sets every plugin's flag and the process's.\<close>

lemma shutdown_reaches_every_plugin:
  assumes "all_valid (active p)"
  shows "\<exists>hs. handle_shutdown p = (Inr (), p\<lparr>active := hs, shutdown_request := True\<rparr>) \<and>
    keys hs = keys (active p) \<and> list_all (\<lambda>(n, h). plugin_stopped h) hs"
  using handle_shutdown_ok [OF assms] by blast

text \<open>C37. Outside test mode the process never registers: the C library does not load, so the script
  returns, or raises over its configuration, with the library untouched and no plugin
  loaded.\<close>

theorem production_process_never_registers:
  assumes "clib_dll (pbind p) = No_Dll" "\<not> TEST_RUN (pbind p)" "\<not> arg_test args"
  shows "\<exists>r p'. run_script env (c_lib_init common_names d tapi tinit) args p = Some (r, p') \<and>
    clib_dll (pbind p') = No_Dll \<and> lib (pbind p') = lib (pbind p) \<and> active p' = active p"
proof -
  obtain e ps where "bind_all common_names d bindings (ptrs (pbind p)) = (Inl e, ps)"
    using bind_all_needs_names [of common_names d "ptrs (pbind p)"] by (auto simp: common_names_def)
  then obtain b where b: "c_lib_init common_names d tapi tinit (pbind p) = (Inr False, b)"
      "clib_dll b = No_Dll" "lib b = lib (pbind p)"
    using assms(1,2) by (cases "cdll_opens d") (simp_all add: c_lib_init_def)
  then show ?thesis using assms
    by (auto simp: run_script_def set_log_level_def plugin_proc_main_def Let_def split: prod.splits sum.splits)
qed

definition production_arguments :: arguments where
  "production_arguments = \<lparr>arg_proc_name = ''proc_0'', arg_global_rc = ''rc'', arg_test = False, arg_log_level = 3\<rparr>"

lemma production_process_never_registers_witness:
  "\<exists>r p'. run_script quiet_env (c_lib_init common_names no_cdll test_api (test_init sample_pipes)) production_arguments
      (live_proc\<lparr>pbind := sample_bind\<lparr>TEST_RUN := False\<rparr>\<rparr>) = Some (r, p') \<and> clib_dll (pbind p') = No_Dll"
  using production_process_never_registers [of "live_proc\<lparr>pbind := sample_bind\<lparr>TEST_RUN := False\<rparr>\<rparr>"
      production_arguments quiet_env no_cdll test_api "test_init sample_pipes"]
  by (auto simp: live_proc_def sample_bind_def production_arguments_def)

end
