(* ===== verification/Delivery.thy ===== *)
theory Delivery
  imports PluginProc
begin

text \<open>
  From the server to a plugin and back in test mode: the server's broadcast
  (\<^verbatim>\<open>test_client.server_write_request\<close>), the process that serves it
  (\<^verbatim>\<open>plugin_proc.handle_server_request\<close>), the process that hands over a stored response
  (\<^verbatim>\<open>plugin_proc.handle_plugin_holder\<close>) and the server's read
  (\<^verbatim>\<open>test_client.server_read_request\<close>), over the definitions of the other theories.
\<close>

section \<open>The server's broadcast\<close>

definition to_client :: "clib \<Rightarrow> nat \<Rightarrow> message list" where
  "to_client s i = contents (svc_s2c (get_svc i s))"

definition to_server :: "clib \<Rightarrow> nat \<Rightarrow> message list" where
  "to_server s i = contents (svc_c2s (get_svc i s))"

definition room :: "clib \<Rightarrow> nat \<Rightarrow> bool" where
  "room s i \<longleftrightarrow> length (to_client s i) < capacity (svc_s2c (get_svc i s))"

lemma write_to_client_effect:
  assumes "services_ok s" "i < num_svc s"
  shows "services_ok (snd (write_to_client i m s))" "th (snd (write_to_client i m s)) = th s"
    "num_svc (snd (write_to_client i m s)) = num_svc s"
    "to_client (snd (write_to_client i m s)) i = to_client s i @ (if room s i then [m] else [])"
    "j < num_svc s \<Longrightarrow> j \<noteq> i \<Longrightarrow> get_svc j (snd (write_to_client i m s)) = get_svc j s"
proof -
  obtain b c where c: "cache_write m (svc_s2c (get_svc i s)) = (b, c)" by fastforce
  have ok: "svc_ok (get_svc i s)" using assms by (rule get_svc_ok)
  note w = ring.put_result [OF _ c]
  show "services_ok (snd (write_to_client i m s))" "th (snd (write_to_client i m s)) = th s"
    "num_svc (snd (write_to_client i m s)) = num_svc s"
    using write_to_client_ok [OF assms] by simp_all
  show "to_client (snd (write_to_client i m s)) i = to_client s i @ (if room s i then [m] else [])"
    using w ok c assms(2) by (simp add: write_to_client_def to_client_def room_def get_put_svc svc_ok_def)
  show "j < num_svc s \<Longrightarrow> j \<noteq> i \<Longrightarrow> get_svc j (snd (write_to_client i m s)) = get_svc j s"
    using c assms(2) by (simp add: write_to_client_def get_put_svc)
qed

lemma broadcast_effect:
  assumes "services_ok s" "\<forall>(fd, k) \<in> set ws. k < num_svc s" "distinct (map snd ws)"
    "t = fold (\<lambda>(_, i) s. snd (write_to_client i m s)) ws s"
  shows "services_ok t \<and> th t = th s \<and> num_svc t = num_svc s \<and>
    (\<forall>j < num_svc s. to_client t j = to_client s j @ (if j \<in> snd ` set ws \<and> room s j then [m] else []))"
  using assms
proof (induction ws arbitrary: s)
  case (Cons w ws)
  obtain fd i where w: "w = (fd, i)" by fastforce
  let ?s = "snd (write_to_client i m s)"
  have i: "i < num_svc s" using Cons.prems(2) w by simp
  note e = write_to_client_effect [OF Cons.prems(1) i, where m = m]
  have "\<forall>(fd, k) \<in> set ws. k < num_svc ?s" using Cons.prems(2) e(3) by auto
  note IH = Cons.IH [OF e(1) this]
  have "to_client ?s j = to_client s j \<and> room ?s j = room s j" if "j < num_svc s" "j \<noteq> i" for j
    using e(5) [OF that] by (simp add: to_client_def room_def)
  note other = this
  have t: "distinct (map snd ws)" "i \<notin> snd ` set ws"
    "t = fold (\<lambda>(_, i) s. snd (write_to_client i m s)) ws ?s"
    using Cons.prems(3,4) w by simp_all
  note rest = IH [OF t(1,3), unfolded e(2,3)]
  have "to_client t j = to_client s j @ (if j \<in> snd ` set (w # ws) \<and> room s j then [m] else [])"
    if j: "j < num_svc s" for j
  proof (cases "j = i")
    case True
    then show ?thesis using rest j t(2) e(4) w by simp
  next
    case False
    then show ?thesis using rest j other [OF j False] w by simp
  qed
  then show ?case using rest by blast
qed simp

section \<open>Reading the request\<close>

lemma read_nothing:
  assumes "client_reg s" "client_pending s = 0"
  shows "clib_read_action_request False 0 env s = Some (Inr (Some ''''), s, env)"
proof -
  obtain i where i: "cache_svc (th s) = Some i" "i < num_svc s" "services_ok s" "own_queue s = svc_s2c (get_svc i s)"
    using assms(1) by (auto elim: client_regE)
  have q: "contents (svc_s2c (get_svc i s)) = []" "\<not> has_req s"
    using assms(2) i(4) by (simp_all add: client_pending_def split: if_splits)
  have "cache_ok (svc_s2c (get_svc i s))" using get_svc_ok [OF i(3,2)] by (simp add: svc_ok_def)
  then have "cache_take (svc_s2c (get_svc i s)) = (Inr None, svc_s2c (get_svc i s))" using take_none q(1) by blast
  then have "read_from_server False 0 i env s = Some (Inr None, s, env)"
    by (simp add: read_from_server_def cache_read_def wait_immediate put_get_svc)
  then show ?thesis using i(1) q(2)
    by (simp add: clib_read_action_request_def is_initialized_def read_req_def keep_req_def)
qed

lemma bound_read_ptrs:
  assumes "testlib.bound b"
  shows "map_of (ptrs b) ''read_action_request'' = Some test_api" "map_of (ptrs b) ''get_last_error'' = Some test_api"
    "map_of (ptrs b) ''get_last_error_str'' = Some test_api"
  using testlib.bound_ptr [OF assms] by (simp_all add: test_pointers_def)

lemma bound_read:
  assumes "testlib.bound b" "\<not> tw_shutdown (lib b)"
    "clib_read_action_request False 0 (map arrivals (tw_env (lib b))) (tw_lib (lib b)) =
       Some (Inr (Some body), s', map arrivals (tw_env (lib b)))"
  defines "b' \<equiv> b\<lparr>lib := (lib b)\<lparr>tw_lib := s'\<rparr>\<rparr>"
  shows "body = '''' \<Longrightarrow> read_action_request 0 b = Some (Inr (False, None), b')"
    "body \<noteq> '''' \<Longrightarrow> new_action_request body = Inr rq \<Longrightarrow> read_action_request 0 b = Some (Inr (True, Some rq), b')"
  using assms bound_read_ptrs [OF assms(1)]
  by (simp_all add: read_action_request_def test_api_def test_read_def get_last_error_def)

lemma broadcast_reaches_client:
  assumes "client_reg s" "client_pending s = 0" "cache_svc (th s) = Some i" "distinct (map snd (wr_fds s))"
    "i \<in> snd ` set (wr_fds s)" "wf_members m" "server_write_request m s = (True, s')"
  shows "client_reg s' \<and> th s' = th s \<and> client_acts s' = client_acts s \<and> to_client s' i = [m] \<and>
    client_pending s' = 1"
proof -
  have ok: "services_ok s" "i < num_svc s" "own_queue s = svc_s2c (get_svc i s)"
    using assms(1,3) by (auto simp: client_reg_def clib_ok_def own_queue_def dest: th_ok_svc)
  have range: "\<forall>(fd, k) \<in> set (wr_fds s). k < num_svc s"
    using ok(1) by (auto simp: services_ok_def list_all_iff)
  have s': "s' = fold (\<lambda>(_, i) s. snd (write_to_client i m s)) (wr_fds s) s"
    using assms(7) by (simp add: server_write_request_def split: if_splits)
  note b = broadcast_effect [OF ok(1) range assms(4) s']
  have c: "cache_ok (svc_s2c (get_svc i s))" using get_svc_ok [OF ok(1,2)] by (simp add: svc_ok_def)
  have empty: "to_client s i = []" "\<not> has_req s"
    using assms(2) ok(3) by (simp_all add: client_pending_def to_client_def split: if_splits)
  have "0 < capacity (svc_s2c (get_svc i s))" using c by (simp add: capacity_def cache_ok_def)
  then have q: "to_client s' i = [m]" using b ok(2) assms(5) empty by (simp add: room_def to_client_def)
  have own: "own_queue s' = svc_s2c (get_svc i s')" using b assms(3) by (simp add: own_queue_def)
  have "client_reg s'"
    using assms(1,3,6) b own q by (simp add: client_reg_def clib_ok_def queue_wf_def to_client_def)
  then show ?thesis
    using b q own empty(2) by (simp add: client_acts_def client_pending_def to_client_def has_req_def)
qed

lemma read_the_only_request:
  assumes "client_reg s" "client_pending s = 1" "cache_svc (th s) = Some i"
    "to_client s i = [[(REQ_ACTION_REQUEST, d)]]" "accepts [(REQ_ACTION_REQUEST, d)] (actions (th s)) = Inr True"
  shows "\<exists>s'. clib_read_action_request False 0 env s = Some (Inr (Some (dumps d)), s', env) \<and> client_reg s' \<and>
    client_acts s' = client_acts s \<and> client_pending s' = 0"
proof -
  have own: "own_queue s = svc_s2c (get_svc i s)" using assms(3) by (simp add: own_queue_def)
  have "clib_ok s" "\<not> has_req s"
    using assms(1,2,4) own by (auto simp: client_reg_def client_pending_def to_client_def split: if_splits)
  from read_oldest [OF this(1) assms(3) this(2) assms(4) [unfolded to_client_def] assms(5), of env] obtain s' where
    s': "clib_read_action_request False 0 env s = Some (Inr (Some (dumps d)), s', env)" by auto
  obtain r s1 where r: "clib_read_action_request False 0 env s = Some (r, s1, env)" "client_reg s1"
    "client_acts s1 = client_acts s" "\<And>body. r = Inr (Some body) \<Longrightarrow> body \<noteq> '''' \<Longrightarrow> client_pending s1 < client_pending s"
    by (rule read_reg [OF assms(1), of False env]) blast
  have eq: "r = Inr (Some (dumps d))" "s1 = s'" using r(1) s' by simp_all
  have "client_pending s' < 1" using r(4) [OF eq(1) dumps_not_Nil] eq(2) assms(2) by simp
  then show ?thesis using s' r(2,3) eq(2) by (intro exI [of _ s']) simp
qed

lemma accepts_own_action:
  "n \<in> set as \<Longrightarrow> accepts [(REQ_ACTION_REQUEST, request_dict (JStr n) inst ai ak ctx tmo)] (Some as) = Inr True"
  by (simp add: accepts_def request_dict_def known_action_def msg_defs)

section \<open>Serving it\<close>

lemma map_of_map_key: "map_of (map (\<lambda>(n, h). (n, f n h)) d) n = map_option (f n) (map_of d n)"
  by (induction d) auto

lemma pass_active: "map_of (active (pass env p)) n = map_option (others env (ticks p) n) (map_of (active p) n)"
  using map_of_map_key [of "others env (ticks p)" "active p" n] by (simp add: pass_def)

lemma idle_holder_starts:
  assumes "response h = None" "thr h \<in> {None, Some T_exit}"
  shows "\<exists>h'. send_request now rq h = (Inr (), h') \<and> thr h' = Some T_run \<and> last_request h' = Some rq"
  using assms by (auto simp: send_request_def chk_thread_done_def)

lemma serve_starts_plugin:
  assumes "\<not> is_shutdown rq" "req_action_name rq = Inr (JStr n)" "map_of (active p) n = Some h" "plugin h"
    "response h = None" "thr h \<in> {None, Some T_exit}"
  shows "\<exists>h'. serve_request env rq p = (Inr (), p\<lparr>active := AList.update n h' (active p)\<rparr>) \<and>
    thr h' = Some T_run \<and> last_request h' = Some rq"
  using idle_holder_starts [OF assms(5,6), of "clock env (ticks p)" rq] assms(1-4)
  by (auto simp: serve_request_def holder_for_def is_valid_def)

lemma serve_only_request:
  assumes "testlib.bound b" "\<not> tw_shutdown (lib b)" "client_reg (tw_lib (lib b))" "client_pending (tw_lib (lib b)) = 1"
    "cache_svc (th (tw_lib (lib b))) = Some i" "to_client (tw_lib (lib b)) i = [[(REQ_ACTION_REQUEST, d)]]"
    "accepts [(REQ_ACTION_REQUEST, d)] (actions (th (tw_lib (lib b)))) = Inr True"
    "new_action_request (dumps d) = Inr rq"
  obtains s1 where "client_pending s1 = 0"
    "read_action_request 0 b = Some (Inr (True, Some rq), b\<lparr>lib := (lib b)\<lparr>tw_lib := s1\<rparr>\<rparr>)"
    "read_action_request 0 (b\<lparr>lib := (lib b)\<lparr>tw_lib := s1\<rparr>\<rparr>) =
       Some (Inr (False, None), b\<lparr>lib := (lib b)\<lparr>tw_lib := s1\<rparr>\<rparr>)"
proof -
  obtain s1 where s1: "clib_read_action_request False 0 (map arrivals (tw_env (lib b))) (tw_lib (lib b)) =
      Some (Inr (Some (dumps d)), s1, map arrivals (tw_env (lib b)))" "client_reg s1" "client_pending s1 = 0"
    using read_the_only_request [OF assms(3-7)] by blast
  let ?b = "b\<lparr>lib := (lib b)\<lparr>tw_lib := s1\<rparr>\<rparr>"
  have b: "testlib.bound ?b" "\<not> tw_shutdown (lib ?b)" using assms(1,2) by simp_all
  have "clib_read_action_request False 0 (map arrivals (tw_env (lib ?b))) (tw_lib (lib ?b)) =
      Some (Inr (Some ''''), s1, map arrivals (tw_env (lib ?b)))" using read_nothing [OF s1(2,3)] by simp
  from that [OF s1(3) bound_read(2) [OF assms(1,2) s1(1) dumps_not_Nil assms(8)]] bound_read(1) [OF b this]
  show thesis by simp
qed

section \<open>A process to apply the properties to\<close>

text \<open>The process of theory \<^verbatim>\<open>PluginProc\<close> with its one action registered and its plugin loaded.\<close>

definition act_proc :: "test_world proc" where
  "act_proc = live_proc\<lparr>pbind := act_bind, active := [(''link_flap'', loaded_holder)], pipe_list := [(10, ''link_flap'')]\<rparr>"

lemma send_fds [simp]: "rd_fds (send m s) = rd_fds s" "wr_fds (send m s) = wr_fds s"
  by (auto simp: send_def write_to_server_def split: option.splits prod.splits)

lemma sample_fds: "rd_fds sample_clib = [(3, 0)]" "wr_fds sample_clib = [(6, 0)]"
  by (simp_all add: sample_clib_def clib_register_client_def split_proc_0 py_int_0 create_cache_services_def Let_def
      new_clib_def new_th_def is_initialized_def list_index_def get_signal_wr_fd_def ClientLib.get_signal_rd_fd_def
      new_cache_service_def new_cache_data_def)

lemma act_lib:
  "rd_fds (tw_lib (lib act_bind)) = [(3, 0)]" "wr_fds (tw_lib (lib act_bind)) = [(6, 0)]"
  "cache_svc (th (tw_lib (lib act_bind))) = Some 0" "client_pending (tw_lib (lib act_bind)) = 0"
proof -
  let ?s = "sample_clib\<lparr>th := (th sample_clib)\<lparr>actions := Some [''link_flap'']\<rparr>\<rparr>"
  let ?m = "msg_register_action ''link_flap'' (cl_name (th sample_clib))"
  have s: "tw_lib (lib act_bind) = send ?m ?s"
    using sample_clib_eval by (simp add: act_register(2) clib_register_action_def is_initialized_def)
  show fds: "rd_fds (tw_lib (lib act_bind)) = [(3, 0)]" "wr_fds (tw_lib (lib act_bind)) = [(6, 0)]"
    by (simp_all add: s sample_fds)
  have ok: "services_ok ?s" using sample_clib_ok by (simp add: clib_ok_def)
  have "th_ok (num_svc ?s) (th ?s)" using sample_clib_ok sample_clib_eval accepts_not_Nil [of "[]"]
    by (auto simp: clib_ok_def th_ok_def has_req_def split: option.splits)
  note q = send_queue [OF ok this, of ?m] send_ok [OF ok this, of ?m]
  show "cache_svc (th (tw_lib (lib act_bind))) = Some 0" using q sample_clib_eval by (simp add: s)
  show "client_pending (tw_lib (lib act_bind)) = 0"
    using q sample_clib_eval by (simp add: s client_pending_def own_queue_def idle_def has_req_def)
qed

section \<open>Properties\<close>

text \<open>C2. From the server to the plugin: a request that the server broadcasts for an action the
  process registered starts the action's plugin with exactly this request, when nothing else
  waits or arrives while it is served and the plugin is not busy; the request is consumed and nothing is raised.\<close>

theorem request_reaches_plugin:
  assumes "testlib.bound (pbind p)" "tw_live (lib (pbind p))" "tw_pending (lib (pbind p)) = 0"
    "s = tw_lib (lib (pbind p))" "distinct (map snd (wr_fds s))" "the (cache_svc (th s)) \<in> snd ` set (wr_fds s)"
    "n \<in> set (tw_acts (lib (pbind p)))"
    "wf_json inst" "wf_json ai" "wf_json ak" "wf_json ctx" "wf_json tmo"
    "server_write_request [(REQ_ACTION_REQUEST, request_dict (JStr n) inst ai ak ctx tmo)] s = (True, s')"
    "map_of (active p) n = Some h" "plugin h" "response h = None" "thr h \<in> {None, Some T_exit}"
    "others env (ticks p) n h = h" "\<forall>t l. server env t l = l"
  shows "\<exists>p2 h2 t rq.
    handle_server_request env (p\<lparr>pbind := (pbind p)\<lparr>lib := (lib (pbind p))\<lparr>tw_lib := s'\<rparr>\<rparr>\<rparr>) = Some (Inr (), p2) \<and>
    tw_pending (lib (pbind p2)) = 0 \<and>
    new_action_request (dumps (request_dict (JStr n) inst ai ak ctx tmo)) = Inr rq \<and>
    map_of (active p2) n = Some (others env t n h2) \<and> thr h2 = Some T_run \<and> last_request h2 = Some rq"
proof -
  let ?d = "request_dict (JStr n) inst ai ak ctx tmo"
  obtain rq where rq: "new_action_request (dumps ?d) = Inr rq" "\<not> is_shutdown rq" "req_action_name rq = Inr (JStr n)"
    using request_parsed [of "JStr n" inst ai ak ctx tmo] assms(8-12)
    by (auto simp: is_shutdown_def req_attr_defs REQ_ACTION_TYPE_ACTION_def REQ_ACTION_TYPE_SHUTDOWN_def)
  have reg: "client_reg s" "\<not> tw_shutdown (lib (pbind p))" "client_pending s = 0"
    using assms(2-4) by (simp_all add: tw_live_def tw_reg_def tw_pending_def)
  obtain i as where i: "cache_svc (th s) = Some i" "actions (th s) = Some as"
    using reg(1) by (auto elim: client_regE)
  have "wf_members [(REQ_ACTION_REQUEST, ?d)]" using assms(8-12) by (simp add: request_dict_wf)
  note s' = broadcast_reaches_client [OF reg(1,3) i(1) assms(5) _ this assms(13)]
  let ?b = "(pbind p)\<lparr>lib := (lib (pbind p))\<lparr>tw_lib := s'\<rparr>\<rparr>"
  have "n \<in> set as" using assms(4,7) i(2) by (simp add: tw_acts_def client_acts_def)
  then have acc: "accepts [(REQ_ACTION_REQUEST, ?d)] (actions (th s)) = Inr True"
    by (simp add: i(2) accepts_own_action)
  obtain s1 where s1: "client_pending s1 = 0"
    "read_action_request 0 ?b = Some (Inr (True, Some rq), ?b\<lparr>lib := (lib ?b)\<lparr>tw_lib := s1\<rparr>\<rparr>)"
    "read_action_request 0 (?b\<lparr>lib := (lib ?b)\<lparr>tw_lib := s1\<rparr>\<rparr>) =
       Some (Inr (False, None), ?b\<lparr>lib := (lib ?b)\<lparr>tw_lib := s1\<rparr>\<rparr>)"
    by (rule serve_only_request [of ?b i ?d rq]) (use assms(1,6) reg i s' acc rq(1) in simp_all)
  let ?b1 = "?b\<lparr>lib := (lib ?b)\<lparr>tw_lib := s1\<rparr>\<rparr>"
  let ?p1 = "pass env (p\<lparr>pbind := ?b1\<rparr>)"
  have "map_of (active ?p1) n = Some h" using assms(14,18) by (simp add: pass_active)
  from serve_starts_plugin [OF rq(2,3) this assms(15-17), of env] obtain h2 where
    h2: "serve_request env rq ?p1 = (Inr (), ?p1\<lparr>active := AList.update n h2 (active ?p1)\<rparr>)"
      "thr h2 = Some T_run" "last_request h2 = Some rq" by blast
  let ?p2 = "?p1\<lparr>active := AList.update n h2 (active ?p1)\<rparr>"
  have p2: "pbind ?p2 = ?b1" using assms(19) by simp
  have "handle_server_request env (p\<lparr>pbind := ?b\<rparr>) = handle_server_request env ?p2"
    using s1(2) h2(1) by (subst handle_server_request.simps) (simp add: Let_def)
  also have "\<dots> = Some (Inr (), pass env (?p2\<lparr>pbind := ?b1\<rparr>))"
    using s1(3) p2 by (subst handle_server_request.simps) (simp add: Let_def)
  finally have run: "handle_server_request env (p\<lparr>pbind := ?b\<rparr>) = Some (Inr (), pass env (?p2\<lparr>pbind := ?b1\<rparr>))" .
  have "map_of (active (pass env (?p2\<lparr>pbind := ?b1\<rparr>))) n = Some (others env (ticks ?p2) n h2)"
    by (simp add: pass_active update_conv')
  then show ?thesis using run rq(1) h2(2,3) s1(1) assms(19)
    by (intro exI [of _ "pass env (?p2\<lparr>pbind := ?b1\<rparr>)"] exI [of _ h2] exI [of _ "ticks ?p2"] exI [of _ rq])
      (simp add: tw_pending_def)
qed

lemma request_reaches_plugin_witness:
  "\<exists>p2 h2. handle_server_request quiet_env (act_proc\<lparr>pbind := act_bind\<lparr>lib := (lib act_bind)\<lparr>tw_lib :=
        snd (server_write_request [(REQ_ACTION_REQUEST, request_dict (JStr ''link_flap'') (JStr ''i'') (JStr ''i'') (JStr '''')
          (JObj []) (JInt 0))] (tw_lib (lib act_bind)))\<rparr>\<rparr>\<rparr>) = Some (Inr (), p2) \<and>
     map_of (active p2) ''link_flap'' = Some h2 \<and> thr h2 = Some T_run"
proof -
  let ?s = "tw_lib (lib act_bind)"
  let ?m = "[(REQ_ACTION_REQUEST, request_dict (JStr ''link_flap'') (JStr ''i'') (JStr ''i'') (JStr '''') (JObj []) (JInt 0))]"
  have w: "server_write_request ?m ?s = (True, snd (server_write_request ?m ?s))"
    by (simp add: server_write_request_def)
  have p: "testlib.bound (pbind act_proc)" "tw_live (lib (pbind act_proc))" "tw_pending (lib (pbind act_proc)) = 0"
    "tw_lib (lib (pbind act_proc)) = ?s" "''link_flap'' \<in> set (tw_acts (lib (pbind act_proc)))"
    using act_bind_facts act_lib by (simp_all add: act_proc_def live_proc_def tw_pending_def)
  have h: "map_of (active act_proc) ''link_flap'' = Some loaded_holder" "plugin loaded_holder"
    "response loaded_holder = None" "thr loaded_holder \<in> {None, Some T_exit}"
    by (simp_all add: act_proc_def live_proc_def loaded_holder_def empty_holder_def)
  have "pbind act_proc = act_bind" by (simp add: act_proc_def live_proc_def)
  with request_reaches_plugin [OF p(1-3) p(4) [symmetric] _ _ p(5) _ _ _ _ _ w h, of quiet_env] show ?thesis
    using act_lib by (auto simp: quiet_env_def)
qed

section \<open>The response\<close>

definition server_room :: "clib \<Rightarrow> nat \<Rightarrow> bool" where
  "server_room s i \<longleftrightarrow> length (to_server s i) < capacity (svc_c2s (get_svc i s))"

lemma response_written:
  assumes "testlib.bound b" "tw_live (lib b)" "cache_svc (th (tw_lib (lib b))) = Some i" "loads (response_value r) = Inr d"
  shows "\<exists>s'. write_action_response r b = (Inr (PyBool True), b\<lparr>lib := (lib b)\<lparr>tw_lib := s'\<rparr>\<rparr>) \<and> clib_ok s' \<and>
    rd_fds s' = rd_fds (tw_lib (lib b)) \<and> num_svc s' = num_svc (tw_lib (lib b)) \<and>
    to_server s' i = to_server (tw_lib (lib b)) i @ (if server_room (tw_lib (lib b)) i then [[(REQ_ACTION_REQUEST, d)]] else []) \<and>
    (\<forall>j < num_svc s'. j \<noteq> i \<longrightarrow> to_server s' j = to_server (tw_lib (lib b)) j)"
proof -
  let ?s = "tw_lib (lib b)"
  have ok: "clib_ok ?s" using assms(2) by (simp add: tw_live_def tw_reg_def client_reg_def)
  have i: "i < num_svc ?s" "services_ok ?s" using ok assms(3) by (auto simp: clib_ok_def dest: th_ok_svc)
  have c: "cache_ok (svc_c2s (get_svc i ?s))" using get_svc_ok [OF i(2,1)] by (simp add: svc_ok_def)
  obtain x c' where w: "cache_write [(REQ_ACTION_REQUEST, d)] (svc_c2s (get_svc i ?s)) = (x, c')" by fastforce
  note q = ring.put_result [OF c w]
  let ?t = "put_svc i ((get_svc i ?s)\<lparr>svc_c2s := c'\<rparr>) ?s"
  have run: "clib_write_action_response (response_value r) ?s = (Inr (Some 0), ?t)"
    using assms(3,4) w(1) by (simp add: clib_write_action_response_def is_initialized_def send_def write_to_server_def)
  then have "clib_ok ?t" using write_action_response_ok [OF ok, of "response_value r"] by simp
  moreover have "map_of (ptrs b) ''write_action_response'' = Some test_api"
    using testlib.bound_ptr [OF assms(1)] by (simp add: test_pointers_def)
  then have "write_action_response r b = (Inr (PyBool True), b\<lparr>lib := (lib b)\<lparr>tw_lib := ?t\<rparr>\<rparr>)"
    using run assms(1) by (simp add: write_action_response_def call_ptr_def api_simps)
  ultimately show ?thesis using q i(1) by (intro exI [of _ ?t]) (simp add: to_server_def server_room_def get_put_svc)
qed

text \<open>The server's next read when only one service has messages: the oldest one, whatever the timeout.\<close>

lemma server_takes_next:
  assumes "services_ok s" "i < num_svc s" "map_of (rd_fds s) fd = Some i" "to_server s i = m # ms"
    "\<forall>j < num_svc s. j \<noteq> i \<longrightarrow> to_server s j = []" "length m = 1" "fst (hd m) \<in> set server_kinds"
  shows "\<exists>c. server_read_request False t ([] # env) s =
      Some (Inr (Some m), env, put_svc i ((get_svc i s)\<lparr>svc_c2s := c\<rparr>) s) \<and>
    services_ok (put_svc i ((get_svc i s)\<lparr>svc_c2s := c\<rparr>) s) \<and> contents c = ms"
proof -
  have ok: "cache_ok (svc_c2s (get_svc j s))" if "j < num_svc s" for j
    using get_svc_ok [OF assms(1) that] by (simp add: svc_ok_def)
  have range: "map_of (rd_fds s) k = Some j \<Longrightarrow> j < num_svc s" for k j
    using assms(1) by (auto simp: services_ok_def list_all_iff dest: map_of_SomeD)
  let ?readable = "\<lambda>k. case map_of (rd_fds s) k of Some j \<Rightarrow> pipe_bytes (svc_c2s (get_svc j s)) > 0 | None \<Rightarrow> False"
  let ?r = "filter ?readable (keys (rd_fds s))"
  have readable: "?readable k \<longleftrightarrow> map_of (rd_fds s) k = Some i" for k
    using assms(2,4,5) pipe_signals_data [OF ok] range [of k]
    by (cases "map_of (rd_fds s) k") (auto simp: to_server_def)
  have "fd \<in> set ?r" using assms(3) readable by (force dest: map_of_SomeD)
  then have ne: "?r \<noteq> []" by (metis empty_iff list.set(1))
  obtain k where k: "?r \<noteq> []" "hd ?r = k" "map_of (rd_fds s) k = Some i"
    using ne hd_in_set [OF ne] readable [of "hd ?r"] by simp
  obtain c where c: "cache_take (svc_c2s (get_svc i s)) = (Inr (Some m), c)" "contents c = ms" "cache_ok c"
    using ring.get_some [OF ok [OF assms(2)] assms(4) [unfolded to_server_def]] by blast
  let ?t = "put_svc i ((get_svc i s)\<lparr>svc_c2s := c\<rparr>) s"
  have "svc_ok ((get_svc i s)\<lparr>svc_c2s := c\<rparr>)" using get_svc_ok [OF assms(1,2)] c(3) by (simp add: svc_ok_def)
  from put_svc_ok [OF assms(1) this, of i] have "services_ok ?t" "num_svc ?t = num_svc s" by simp_all
  moreover have "poll_fds False server_select t ([] # env) s = Some (?r, env, s)" using k(1) by (simp add: server_select_def Let_def)
  moreover have "read_from_client False 0 i [] s = Some (Inr (Some m), ?t, [])"
    using c(1) by (simp add: read_from_client_def cache_read_def wait_immediate)
  ultimately show ?thesis using k c(2) assms(2,5-7)
    by (intro exI [of _ c]) (simp add: server_read_request_def to_server_def get_put_svc)
qed

lemma server_reads_next:
  assumes "services_ok s" "i < num_svc s" "map_of (rd_fds s) fd = Some i" "to_server s i = m # ms"
    "\<forall>j < num_svc s. j \<noteq> i \<longrightarrow> to_server s j = []" "length m = 1" "fst (hd m) \<in> set server_kinds"
  shows "\<exists>s'. server_read_request False t ([] # env) s = Some (Inr (Some m), env, s') \<and>
    services_ok s' \<and> num_svc s' = num_svc s \<and> rd_fds s' = rd_fds s \<and> to_server s' i = ms \<and>
    (\<forall>j < num_svc s'. j \<noteq> i \<longrightarrow> to_server s' j = [])"
proof -
  obtain c where c: "server_read_request False t ([] # env) s = Some (Inr (Some m), env, put_svc i ((get_svc i s)\<lparr>svc_c2s := c\<rparr>) s)"
      "services_ok (put_svc i ((get_svc i s)\<lparr>svc_c2s := c\<rparr>) s)" "contents c = ms"
    using server_takes_next [OF assms, of t env] by blast
  then show ?thesis using assms(2,5) by (intro exI [of _ "put_svc i ((get_svc i s)\<lparr>svc_c2s := c\<rparr>) s"]) (simp add: to_server_def get_put_svc)
qed

text \<open>C3. From the plugin to the server: when a holder has a completed response, handling its plugin hands the response
  over, as a message of kind \<^verbatim>\<open>action_request\<close> with the dictionary the plugin built, and the holder is free
  again. The message goes behind those that already wait in this process's queue to the server, and no other queue changes;
  only when that queue is full the response is dropped, and the holder is freed all the same. When no message waits for the server in
  any queue, its next read yields exactly this one.\<close>

theorem response_reaches_server:
  assumes "testlib.bound (pbind p)" "tw_live (lib (pbind p))"
    "s = tw_lib (lib (pbind p))" "cache_svc (th s) = Some i" "map_of (rd_fds s) fd = Some i"
    "map_of (active p) n = Some h" "fdR h \<noteq> None" "req_end h \<noteq> 0" "response h = Some r"
    "loads (response_value r) = Inr d"
  shows "\<exists>p2 h2 s1. handle_plugin_holder n p = (Inr (), p2) \<and> s1 = tw_lib (lib (pbind p2)) \<and>
    map_of (active p2) n = Some h2 \<and> response h2 = None \<and> req_end h2 = 0 \<and>
    to_server s1 i = to_server s i @
      (if length (to_server s i) < capacity (svc_c2s (get_svc i s)) then [[(REQ_ACTION_REQUEST, d)]] else []) \<and>
    (\<forall>j < num_svc s. j \<noteq> i \<longrightarrow> to_server s1 j = to_server s j) \<and>
    ((\<forall>j < num_svc s. to_server s j = []) \<longrightarrow>
      (\<exists>s2. server_read_request False 0 ([] # env) s1 = Some (Inr (Some [(REQ_ACTION_REQUEST, d)]), env, s2) \<and>
         to_server s2 i = []))"
proof -
  have ok: "clib_ok s" "i < num_svc s"
    using assms(2,3,4) by (auto simp: tw_live_def tw_reg_def client_reg_def clib_ok_def dest: th_ok_svc)
  obtain s' where s': "write_action_response r (pbind p) =
      (Inr (PyBool True), (pbind p)\<lparr>lib := (lib (pbind p))\<lparr>tw_lib := s'\<rparr>\<rparr>)" "clib_ok s'"
      "rd_fds s' = rd_fds s" "num_svc s' = num_svc s"
      "to_server s' i = to_server s i @ (if server_room s i then [[(REQ_ACTION_REQUEST, d)]] else [])"
      "\<forall>j < num_svc s'. j \<noteq> i \<longrightarrow> to_server s' j = to_server s j"
    using response_written [OF assms(1,2) _ assms(10), of i] assms(3,4) by auto
  have read: "\<exists>s2. server_read_request False 0 ([] # env) s' = Some (Inr (Some [(REQ_ACTION_REQUEST, d)]), env, s2) \<and> to_server s2 i = []"
    if empty: "\<forall>j < num_svc s. to_server s j = []"
  proof -
    have "cache_ok (svc_c2s (get_svc i s))" using get_svc_ok [of s i] ok by (simp add: clib_ok_def svc_ok_def)
    then have "server_room s i" using empty ok(2) by (simp add: server_room_def capacity_def cache_ok_def)
    then show ?thesis using server_reads_next [of s' i fd "[(REQ_ACTION_REQUEST, d)]" "[]" 0 env] s' assms(5) empty ok
      by (auto simp: clib_ok_def server_kinds_def)
  qed
  let ?h = "h\<lparr>pipe := pipe h - 100, response := None, req_end := 0\<rparr>"
  have "handle_response h (pbind p) = (Inr (), ?h, (pbind p)\<lparr>lib := (lib (pbind p))\<lparr>tw_lib := s'\<rparr>\<rparr>)"
    using assms(7-9) s'(1) by (simp add: handle_response_def PluginHolder.drain_signal_def)
  then have "handle_plugin_holder n p = (Inr (), p\<lparr>active := AList.update n ?h (active p),
      pbind := (pbind p)\<lparr>lib := (lib (pbind p))\<lparr>tw_lib := s'\<rparr>\<rparr>\<rparr>)"
    using assms(6) by (simp add: handle_plugin_holder_def dict_index_def)
  then show ?thesis using s' read by (simp add: update_conv' server_room_def)
qed

text \<open>The same process after the server has read everything, with a response stored.\<close>

definition answered_proc :: "test_world proc" where
  "answered_proc = act_proc\<lparr>
     pbind := act_bind\<lparr>lib := (lib act_bind)\<lparr>tw_lib :=
       put_svc 0 ((get_svc 0 (tw_lib (lib act_bind)))\<lparr>svc_c2s := new_cache_data 10 True 3 4\<rparr>) (tw_lib (lib act_bind))\<rparr>\<rparr>,
     active := [(''link_flap'', loaded_holder\<lparr>response := Some sample_rsp, req_end := 7\<rparr>)]\<rparr>"

lemma answered_lib:
  "tw_live (lib (pbind answered_proc))" "num_svc (tw_lib (lib (pbind answered_proc))) = 1"
  "to_server (tw_lib (lib (pbind answered_proc))) 0 = []"
proof -
  let ?s = "tw_lib (lib act_bind)"
  let ?p = "(get_svc 0 ?s)\<lparr>svc_c2s := new_cache_data 10 True 3 4\<rparr>"
  have reg: "client_reg ?s" "\<not> tw_shutdown (lib act_bind)" "env_wf (tw_env (lib act_bind))"
    using act_bind_facts(2) by (simp_all add: tw_live_def tw_reg_def)
  then have ok: "services_ok ?s" "0 < num_svc ?s"
    using act_lib(3) by (auto simp: client_reg_def clib_ok_def dest: th_ok_svc)
  have "svc_ok ?p" using get_svc_ok [OF ok] by (simp add: svc_ok_def new_cache_ok)
  from put_svc_ok [OF ok(1) this, of 0] have "client_reg (put_svc 0 ?p ?s)"
    using reg(1) act_lib(3) ok(2) by (simp add: client_reg_def clib_ok_def own_queue_def get_put_svc)
  then show "tw_live (lib (pbind answered_proc))"
    using reg by (simp add: answered_proc_def act_proc_def live_proc_def tw_live_def tw_reg_def)
  have "num_svc (create_cache_services sample_pipes 1 new_clib) = 1"
    by (simp add: create_cache_services_def Let_def num_svc_def)
  have "num_svc sample_clib = 1"
    by (simp add: sample_clib_def clib_register_client_def split_proc_0 py_int_0 create_cache_services_def Let_def
        new_clib_def new_th_def is_initialized_def list_index_def send_def write_to_server_def put_svc_def num_svc_def
        split: prod.splits)
  then have "num_svc ?s = 1"
    using sample_clib_eval by (simp add: act_register(2) clib_register_action_def is_initialized_def send_def
        write_to_server_def split: prod.splits)
  then show "num_svc (tw_lib (lib (pbind answered_proc))) = 1"
    by (simp add: answered_proc_def act_proc_def live_proc_def)
  show "to_server (tw_lib (lib (pbind answered_proc))) 0 = []"
    using ok(2) by (simp add: answered_proc_def act_proc_def live_proc_def to_server_def get_put_svc)
qed

lemma response_reaches_server_witness:
  "\<exists>p2 s2 d. handle_plugin_holder ''link_flap'' answered_proc = (Inr (), p2) \<and>
     server_read_request False 0 [[]] (tw_lib (lib (pbind p2))) = Some (Inr (Some [(REQ_ACTION_REQUEST, d)]), [], s2)"
proof -
  let ?s = "tw_lib (lib (pbind answered_proc))"
  have b: "testlib.bound (pbind answered_proc)" using act_bind_facts(1)
    by (simp add: answered_proc_def act_proc_def live_proc_def)
  have s: "cache_svc (th ?s) = Some 0" "map_of (rd_fds ?s) 3 = Some 0"
    using act_lib by (simp_all add: answered_proc_def act_proc_def live_proc_def)
  have q: "\<forall>j < num_svc ?s. to_server ?s j = []" using answered_lib(2,3) by simp
  let ?h = "loaded_holder\<lparr>response := Some sample_rsp, req_end := 7\<rparr>"
  have h: "map_of (active answered_proc) ''link_flap'' = Some ?h" "fdR ?h \<noteq> None" "req_end ?h \<noteq> 0"
    "response ?h = Some sample_rsp"
    by (simp_all add: answered_proc_def loaded_holder_def)
  have "loads (response_value sample_rsp) = Inr (JObj [])"
    using loads_dumps [of "JObj []"] by (simp add: response_value_def sample_rsp_def)
  from response_reaches_server [OF b answered_lib(1) refl s h this, of "[]"] q show ?thesis by blast
qed

end
