(* ===== verification/Startup.thy ===== *)
theory Startup
  imports Delivery
begin

text \<open>
  What a process tells the server when it starts in test mode: its name, then the action of every
  plugin it keeps, in the order of the configuration.
\<close>

section \<open>Messages of a registration\<close>

text \<open>
  A thread registered as \<open>nm\<close> with service \<open>i\<close>, whose messages to the server that are not yet read are
  \<open>ms\<close>, with room for \<open>k\<close> more.
\<close>

definition announcing :: "clib \<Rightarrow> nat \<Rightarrow> string \<Rightarrow> nat \<Rightarrow> message list \<Rightarrow> bool" where
  "announcing s i nm k ms \<longleftrightarrow> client_reg s \<and> cache_svc (th s) = Some i \<and> cl_name (th s) = Some nm \<and>
     to_server s i = ms \<and> length ms + k \<le> capacity (svc_c2s (get_svc i s))"

text \<open>The messages of a process: its own registration and those of its actions.\<close>

definition announcement :: "string \<Rightarrow> string list \<Rightarrow> message list" where
  "announcement nm acts = msg_register_client nm # map (\<lambda>a. msg_register_action a (Some nm)) acts"

lemma announcement_snoc: "announcement nm acts @ [msg_register_action a (Some nm)] = announcement nm (acts @ [a])"
  by (simp add: announcement_def)

lemma send_with_room:
  assumes "services_ok s" "cache_svc (th s) = Some i" "i < num_svc s"
    "length (to_server s i) < capacity (svc_c2s (get_svc i s))"
  shows "to_server (send m s) i = to_server s i @ [m]"
    "capacity (svc_c2s (get_svc i (send m s))) = capacity (svc_c2s (get_svc i s))"
    "j < num_svc s \<Longrightarrow> j \<noteq> i \<Longrightarrow> to_server (send m s) j = to_server s j"
proof -
  have "cache_ok (svc_c2s (get_svc i s))" using get_svc_ok [OF assms(1,3)] by (simp add: svc_ok_def)
  from ring.put_accepts [OF this, of m] assms(4) obtain c where "cache_write m (svc_c2s (get_svc i s)) = (True, c)"
      "capacity c = capacity (svc_c2s (get_svc i s))" "contents c = to_server s i @ [m]"
    by (auto simp: to_server_def)
  then show "to_server (send m s) i = to_server s i @ [m]"
    "capacity (svc_c2s (get_svc i (send m s))) = capacity (svc_c2s (get_svc i s))"
    "j < num_svc s \<Longrightarrow> j \<noteq> i \<Longrightarrow> to_server (send m s) j = to_server s j"
    using assms(2,3) by (simp_all add: send_def write_to_server_def to_server_def get_put_svc)
qed

lemma client_announced:
  assumes "client_up s" "clib_register_client nm s = (Inr (Some 0), s')"
    "\<forall>j < num_svc s. to_server s j = [] \<and> Suc k \<le> capacity (svc_c2s (get_svc j s))"
  shows "\<exists>i. announcing s' i nm k (announcement nm []) \<and> i < num_svc s' \<and> rd_fds s' = rd_fds s \<and>
    num_svc s' = num_svc s \<and> (\<forall>j < num_svc s'. j \<noteq> i \<longrightarrow> to_server s' j = [])"
proof -
  obtain ps i where i: "services s = Some ps" "i < length ps"
      "s' = send (msg_register_client nm)
         (s\<lparr>th := \<lparr>cache_svc = Some i, cl_name = Some nm, actions = Some [], req = None\<rparr>\<rparr>)"
    using assms(2)
    by (auto simp: clib_register_client_def Let_def split: if_splits sum.splits option.splits dest: list_index_upt)
  let ?s = "s\<lparr>th := \<lparr>cache_svc = Some i, cl_name = Some nm, actions = Some [], req = None\<rparr>\<rparr>"
  have ok: "services_ok ?s" "i < num_svc ?s" "cache_svc (th ?s) = Some i" "th_ok (num_svc ?s) (th ?s)"
    using assms(1) i by (auto simp: client_up_def clib_ok_def num_svc_def th_ok_def)
  have q: "\<forall>j < num_svc ?s. to_server ?s j = [] \<and> Suc k \<le> capacity (svc_c2s (get_svc j ?s))"
    using assms(3) by (simp add: to_server_def)
  have "length (to_server ?s i) < capacity (svc_c2s (get_svc i ?s))" using q ok(2) by fastforce
  note sent = send_with_room [OF ok(1,3,2) this, where m = "msg_register_client nm"]
  have "client_reg s'" using register_reg [OF assms(1,2)] ..
  moreover have "th s' = th ?s" "num_svc s' = num_svc ?s" using send_ok [OF ok(1,4)] i(3) by simp_all
  ultimately show ?thesis using sent q ok i(3)
    by (intro exI [of _ i]) (simp add: announcing_def announcement_def num_svc_def)
qed

lemma action_announced:
  assumes "announcing s i nm (Suc k) ms" "clib_register_action a s = (Inr (Some 0), s')"
  shows "announcing s' i nm k (ms @ [msg_register_action a (Some nm)]) \<and> num_svc s' = num_svc s \<and> rd_fds s' = rd_fds s \<and>
    (\<forall>j < num_svc s. j \<noteq> i \<longrightarrow> to_server s' j = to_server s j)"
proof -
  obtain acts where acts: "actions (th s) = Some acts" "a \<notin> set acts"
      "s' = send (msg_register_action a (cl_name (th s))) (s\<lparr>th := (th s)\<lparr>actions := Some (acts @ [a])\<rparr>\<rparr>)"
    using assms(2) by (auto simp: clib_register_action_def split: if_splits option.splits)
  let ?s = "s\<lparr>th := (th s)\<lparr>actions := Some (acts @ [a])\<rparr>\<rparr>"
  have reg: "client_reg s" "cache_svc (th s) = Some i" "cl_name (th s) = Some nm"
    using assms(1) by (simp_all add: announcing_def)
  then have i: "i < num_svc s" "services_ok s" by (auto simp: client_reg_def clib_ok_def dest: th_ok_svc)
  have "th_ok (num_svc ?s) (th ?s)"
    using reg acts(1,2) accepts_mono [of _ acts "acts @ [a]"]
    by (auto simp: client_reg_def clib_ok_def th_ok_def split: option.splits)
  then have s': "th s' = th ?s" "num_svc s' = num_svc s" using send_ok [of ?s] i(2) acts(3) by simp_all
  have "services_ok ?s" "cache_svc (th ?s) = Some i" "i < num_svc ?s" "length (to_server ?s i) < capacity (svc_c2s (get_svc i ?s))"
    using assms(1) i reg(2) by (simp_all add: announcing_def to_server_def)
  note sent = send_with_room [OF this, where m = "msg_register_action a (Some nm)"]
  have "client_reg s'" using register_action_reg [OF reg(1) assms(2)] ..
  then show ?thesis using assms(1) sent s' reg acts(3) by (simp add: announcing_def to_server_def)
qed

section \<open>The process registers\<close>

text \<open>The library's state under the bindings of a process.\<close>

abbreviation proc_lib :: "test_world proc \<Rightarrow> clib" where
  "proc_lib p \<equiv> tw_lib (lib (pbind p))"

lemma bound_register:
  assumes "testlib.bound b"
  shows "map_of (ptrs b) ''register_client'' = Some test_api" "map_of (ptrs b) ''register_action'' = Some test_api"
    "clib_dll b = No_Dll \<Longrightarrow> TEST_RUN b"
  using testlib.bound_ptr [OF assms] testlib.bound_valid [OF assms]
  by (simp_all add: test_pointers_def validate_dll_def split: if_splits)

lemma register_client_lib:
  assumes "testlib.bound b" "register_client nm b = (Inr v, b')" "ret_truth v"
  shows "clib_register_client nm (tw_lib (lib b)) = (Inr (Some 0), tw_lib (lib b'))" "testlib.bound b'"
proof -
  show "clib_register_client nm (tw_lib (lib b)) = (Inr (Some 0), tw_lib (lib b'))"
    using assms bound_register(1) [OF assms(1)]
    by (auto simp: register_client_def call_ptr_def api_simps bind_st_def split: prod.splits sum.splits if_splits)
  have "\<exists>l. b' = b\<lparr>lib := l\<rparr>" using assms(2) testlib.bound_valid [OF assms(1)]
    by (auto simp: register_client_def call_ptr_def bind_st_def split: option.splits prod.splits sum.splits if_splits)
  then show "testlib.bound b'" using assms(1) by auto
qed

lemma register_action_lib:
  assumes "testlib.bound b" "register_action a b = (Inr v, b')" "ret_truth v"
  shows "clib_register_action a (tw_lib (lib b)) = (Inr (Some 0), tw_lib (lib b'))" "testlib.bound b'"
proof -
  show "clib_register_action a (tw_lib (lib b)) = (Inr (Some 0), tw_lib (lib b'))"
    using assms bound_register(2) [OF assms(1)]
    by (auto simp: register_action_def call_ptr_def api_simps bind_st_def split: prod.splits sum.splits if_splits)
  have "\<exists>l. b' = b\<lparr>lib := l\<rparr>" using assms(2) testlib.bound_valid [OF assms(1)]
    by (auto simp: register_action_def call_ptr_def bind_st_def split: option.splits prod.splits sum.splits if_splits)
  then show "testlib.bound b'" using assms(1) by auto
qed

lemma holder_registers:
  assumes "new_holder load nm f conf b = (Inr h, b')" "plugin h"
  shows "\<exists>v. register_action nm b = (Inr v, b') \<and> ret_truth v"
  using assms
  by (cases "json_get conf REQ_PAUSE JNull"; cases "load (plugin_module f) conf")
    (auto simp: new_holder_def empty_holder_def Let_def split: if_splits prod.splits sum.splits)

text \<open>A plugin is loaded unless its configuration disables it.\<close>

definition enabled :: "json \<Rightarrow> string \<Rightarrow> bool" where
  "enabled actions_conf a \<longleftrightarrow>
     (case bind_res (json_get actions_conf a (JObj [])) (\<lambda>conf. json_get conf ''disable'' (JBool False)) of
        Inl e \<Rightarrow> False | Inr d \<Rightarrow> \<not> truthy d)"

text \<open>
  What loading does to a thread that announces: the new holders are those of the plugins it keeps,
  their actions are announced, and the other services are left alone.
\<close>

lemma load_announced:
  assumes "load_plugins env actions_conf items p = (Inr True, p')" "testlib.bound (pbind p)"
    "announcing (proc_lib p) i nm (length items) (announcement nm (keys (active p)))"
    "distinct (keys items)" "set (keys items) \<inter> set (keys (active p)) = {}"
  shows "testlib.bound (pbind p') \<and> announcing (proc_lib p') i nm 0 (announcement nm (keys (active p'))) \<and>
    num_svc (proc_lib p') = num_svc (proc_lib p) \<and> rd_fds (proc_lib p') = rd_fds (proc_lib p) \<and> keys (active p') = keys (active p) @ filter (enabled actions_conf) (keys items) \<and>
    (\<forall>j < num_svc (proc_lib p). j \<noteq> i \<longrightarrow> to_server (proc_lib p') j = to_server (proc_lib p) j)"
  using assms
proof (induction items arbitrary: p)
  case Nil
  then show ?case by simp
next
  case (Cons item items)
  obtain a path where item: "item = (a, path)" by (cases item)
  have less: "announcing (proc_lib p) i nm (length items) (announcement nm (keys (active p)))"
    using Cons.prems(3) by (simp add: announcing_def)
  have dist: "distinct (keys items)" "set (keys items) \<inter> set (keys (active p)) = {}" "a \<notin> set (keys items)"
    "a \<notin> set (keys (active p))"
    using Cons.prems(4,5) item by auto
  obtain conf d where conf: "json_get actions_conf a (JObj []) = Inr conf" "json_get conf ''disable'' (JBool False) = Inr d"
    using Cons.prems(1) item by (auto simp: bind_st_def split: sum.splits)
  show ?case
  proof (cases "truthy d")
    case True
    then have "load_plugins env actions_conf items p = (Inr True, p')" using Cons.prems(1) item conf by simp
    moreover have "\<not> enabled actions_conf a" using True conf by (simp add: enabled_def)
    ultimately show ?thesis using Cons.IH [OF _ Cons.prems(2) less dist(1,2)] item by auto
  next
    case False
    obtain fl h b where fl: "path = JStr fl" "new_holder (loader env (sys_path p)) a fl conf (pbind p) = (Inr h, b)" "plugin h"
      using Cons.prems(1) item conf False
      by (cases path) (auto simp: is_valid_def split: prod.splits sum.splits if_splits)
    obtain v where v: "register_action a (pbind p) = (Inr v, b)" "ret_truth v" using holder_registers [OF fl(2,3)] by blast
    note reg = register_action_lib [OF Cons.prems(2) v]
    have "announcing (proc_lib p) i nm (Suc (length items)) (announcement nm (keys (active p)))"
      using Cons.prems(3) by simp
    note ann = action_announced [OF this reg(1), unfolded announcement_snoc]
    obtain rd wr where fds: "os_pipe env (ticks p) = (rd, wr)" by fastforce
    obtain h' q where q: "load_plugins env actions_conf items q = (Inr True, p')"
        "q = p\<lparr>pbind := b, ticks := Suc (ticks p), active := AList.update a h' (active p),
           pipe_list := AList.update rd a (pipe_list p)\<rparr>"
      using Cons.prems(1) item conf False fl fds by (auto simp: is_valid_def set_pipe_def split: if_splits)
    have keys: "keys (active q) = keys (active p) @ [a]" using q(2) dist(4) by (simp add: update_fresh)
    then have ks: "set (keys (active q)) = insert a (set (keys (active p)))" by simp
    have "announcing (proc_lib q) i nm (length items) (announcement nm (keys (active q)))"
      using ann q(2) keys by simp
    note IH = Cons.IH [OF q(1) _ this dist(1)]
    have lib: "testlib.bound (pbind q)" "proc_lib q = tw_lib (lib b)" using reg(2) q(2) by simp_all
    have "set (keys items) \<inter> set (keys (active q)) = {}" unfolding ks using dist(2,3) by (simp del: set_map)
    note r = IH [OF lib(1) this, unfolded lib(2)]
    moreover have "enabled actions_conf a" using False conf by (simp add: enabled_def)
    ultimately show ?thesis using ann keys item by auto
  qed
qed

text \<open>From the library ready for a client to the plugins loaded.\<close>

lemma startup_queues:
  assumes "testlib.bound (pbind p)" "tw_up (lib (pbind p))" "active p = []"
    "\<forall>j < num_svc (proc_lib p). to_server (proc_lib p) j = [] \<and> Suc (length items) \<le> capacity (svc_c2s (get_svc j (proc_lib p)))"
    "register_client nm (pbind p) = (Inr v, b)" "ret_truth v"
    "load_plugins env actions_conf items (p\<lparr>pbind := b\<rparr>) = (Inr True, p')" "distinct (keys items)"
  shows "keys (active p') = filter (enabled actions_conf) (keys items) \<and> rd_fds (proc_lib p') = rd_fds (proc_lib p) \<and>
    num_svc (proc_lib p') = num_svc (proc_lib p) \<and>
    (\<exists>i. announcing (proc_lib p') i nm 0 (announcement nm (keys (active p'))) \<and>
       (\<forall>j < num_svc (proc_lib p'). j \<noteq> i \<longrightarrow> to_server (proc_lib p') j = []))"
proof -
  note reg = register_client_lib [OF assms(1,5,6)]
  have "client_up (proc_lib p)" using assms(2) by (simp add: tw_up_def)
  from client_announced [OF this reg(1) assms(4)] obtain i where
    i: "announcing (tw_lib (lib b)) i nm (length items) (announcement nm [])" "rd_fds (tw_lib (lib b)) = rd_fds (proc_lib p)"
      "num_svc (tw_lib (lib b)) = num_svc (proc_lib p)" "\<forall>j < num_svc (tw_lib (lib b)). j \<noteq> i \<longrightarrow> to_server (tw_lib (lib b)) j = []"
    by blast
  have "announcing (proc_lib (p\<lparr>pbind := b\<rparr>)) i nm (length items) (announcement nm (keys (active (p\<lparr>pbind := b\<rparr>))))"
    using i(1) assms(3) by simp
  from load_announced [OF assms(7) _ this assms(8)] reg(2) assms(3) i show ?thesis by auto
qed

section \<open>Property\<close>


text \<open>The process of theory \<^verbatim>\<open>PluginProc\<close> before its client is registered.\<close>

definition fresh_proc :: "test_world proc" where
  "fresh_proc = live_proc\<lparr>pbind := loaded_bind\<rparr>"

lemma fresh_register: "register_client ''proc_0'' (pbind fresh_proc) = (Inr (PyBool True), live_bind)"
  using live_register by (simp add: fresh_proc_def)

lemma fresh_facts:
  "testlib.bound (pbind fresh_proc)" "tw_up (lib (pbind fresh_proc))" "active fresh_proc = []"
  "\<forall>j < num_svc (proc_lib fresh_proc). to_server (proc_lib fresh_proc) j = [] \<and>
     Suc 1 \<le> capacity (svc_c2s (get_svc j (proc_lib fresh_proc))) \<and> (\<exists>fd. map_of (rd_fds (proc_lib fresh_proc)) fd = Some j)"
  using loaded_bind_facts
  by (simp_all add: fresh_proc_def live_proc_def loaded_bind_eq create_cache_services_def num_svc_def get_svc_def
      to_server_def new_cache_service_def CACHE_LIMIT_def Let_def new_clib_def)

lemma fresh_load:
  "\<exists>p'. load_plugins quiet_env (JObj []) [(''link_flap'', JStr ''link_flap.py'')] (fresh_proc\<lparr>pbind := live_bind\<rparr>) = (Inr True, p')"
  using live_load [of quiet_env live_proc] by (auto simp: quiet_env_def live_proc_def fresh_proc_def)


end
