(* ===== verification/Registration.thy ===== *)
theory Registration
  imports Startup
begin

text \<open>
  The check of the registrations by the test driver (\<^verbatim>\<open>tests/test_main.py\<close>, \<^verbatim>\<open>run_a_testcase\<close>):
  it reads what the processes announce, refuses what is doubled or out of order, and compares the
  outcome with the configuration it wrote.
\<close>

section \<open>Reading the registrations\<close>

type_synonym reg_conf = "(json, json list) dict"

text \<open>One message; \<open>None\<close> is an error that is reported and ends the loop.\<close>

definition vet :: "message \<Rightarrow> reg_conf \<Rightarrow> reg_conf option res" where
  "vet m conf =
     (case m of
        [] \<Rightarrow> Inl IndexError
      | (key, val) # _ \<Rightarrow>
          if key = REQ_REGISTER_CLIENT then
            bind_res (parse_reg_client val) (\<lambda>cl.
              if \<not> hashable cl then Inl TypeError
              else if map_of conf cl \<noteq> None then Inr None
              else Inr (Some (AList.update cl [] conf)))
          else if key = REQ_REGISTER_ACTION then
            bind_res (parse_reg_action val) (\<lambda>(cl, act).
              if \<not> hashable cl then Inl TypeError
              else
                (case map_of conf cl of
                   None \<Rightarrow> Inr None
                 | Some lst \<Rightarrow> if act \<in> set lst then Inr None else Inr (Some (AList.update cl (lst @ [act]) conf))))
          else Inr None)"

text \<open>
  The loop, until \<open>rcnt\<close> messages were accepted; \<open>now n\<close> is the reading of the clock before the
  \<open>n\<close>-th read, and \<open>env\<close> what the processes write during the server's waits.
\<close>

function await_registrations ::
  "(nat \<Rightarrow> int) \<Rightarrow> nat \<Rightarrow> int \<Rightarrow> int \<Rightarrow> (nat \<times> message) list list \<Rightarrow> clib \<Rightarrow> reg_conf
   \<Rightarrow> (bool res \<times> (nat \<times> message) list list \<times> clib \<times> reg_conf) option"
where
  "await_registrations now n reg_exp rcnt env s conf =
     (if rcnt \<le> 0 then Some (Inr True, env, s, conf)
      else
        let tout = reg_exp - now n in
        (case server_read_request False (if tout < 0 then 0 else tout) env s of
           None \<Rightarrow> None
         | Some (Inl e, env', s') \<Rightarrow> Some (Inl e, env', s', conf)
         | Some (Inr None, env', s') \<Rightarrow> Some (Inr False, env', s', conf)
         | Some (Inr (Some m), env', s') \<Rightarrow>
             (case vet m conf of
                Inl e \<Rightarrow> Some (Inl e, env', s', conf)
              | Inr None \<Rightarrow> Some (Inr False, env', s', conf)
              | Inr (Some conf') \<Rightarrow> await_registrations now (Suc n) reg_exp (rcnt - 1) env' s' conf')))"
  by pat_completeness auto
termination
  by (relation "measure (\<lambda>(now, n, reg_exp, rcnt, env, s, conf). nat rcnt)") auto

declare await_registrations.simps [simp del]

section \<open>Comparing with the configuration\<close>

text \<open>The number of messages to wait for: the loop overwrites its count for every process.\<close>

fun expected_count :: "(string, json) dict \<Rightarrow> int \<Rightarrow> int res" where
  "expected_count [] rcnt = Inr rcnt"
| "expected_count ((k, v) # rest) rcnt = bind_res (json_len v) (\<lambda>n. expected_count rest (1 + int n))"

fun actions_match :: "(string, json) dict \<Rightarrow> reg_conf \<Rightarrow> bool res" where
  "actions_match procs [] = Inr True"
| "actions_match procs ((cl, lst) # rest) =
     (case (case cl of JStr n \<Rightarrow> map_of procs n | _ \<Rightarrow> None) of
        None \<Rightarrow> Inl (KeyError ''procs_conf'')
      | Some (JObj items) \<Rightarrow>
          if \<not> list_all hashable lst then Inl TypeError
          else if JStr ` set (keys items) \<noteq> set lst then Inr False
          else actions_match procs rest
      | Some _ \<Rightarrow> Inl (AttributeError ''keys''))"

definition registrations_match :: "(string, json) dict \<Rightarrow> reg_conf \<Rightarrow> bool res" where
  "registrations_match procs conf =
     (if set (keys conf) \<noteq> JStr ` set (keys procs) then Inr False else actions_match procs conf)"

text \<open>
  Both together: whether an error was reported, and whether the test goes on to run the handlers. After
  an error in the loop the comparison still decides.
\<close>

definition check_registrations ::
  "(nat \<Rightarrow> int) \<Rightarrow> (string, json) dict \<Rightarrow> (nat \<times> message) list list \<Rightarrow> clib
   \<Rightarrow> ((bool \<times> bool) res \<times> (nat \<times> message) list list \<times> clib) option"
where
  "check_registrations now procs env s =
     (case expected_count procs 0 of
        Inl e \<Rightarrow> Some (Inl e, env, s)
      | Inr rcnt \<Rightarrow>
          (case await_registrations now 1 (now 0 + 10) rcnt env s [] of
             None \<Rightarrow> None
           | Some (Inl e, env', s', _) \<Rightarrow> Some (Inl e, env', s')
           | Some (Inr all, env', s', conf) \<Rightarrow>
               Some (bind_res (registrations_match procs conf) (\<lambda>ok. Inr (\<not> all \<or> \<not> ok, ok)), env', s')))"

section \<open>Reading an announcement\<close>

lemma vet_client: "map_of conf (JStr nm) = None \<Longrightarrow> vet (msg_register_client nm) conf = Inr (Some (AList.update (JStr nm) [] conf))"
  by (simp add: vet_def msg_register_client_def parse_reg_client_def)

lemma vet_action:
  "map_of conf (JStr nm) = Some lst \<Longrightarrow> JStr a \<notin> set lst \<Longrightarrow>
   vet (msg_register_action a (Some nm)) conf = Inr (Some (AList.update (JStr nm) (lst @ [JStr a]) conf))"
  by (simp add: vet_def msg_register_action_def parse_reg_action_def jstr_opt_def msg_defs)

lemma registration_kinds:
  "length (msg_register_client nm) = 1" "fst (hd (msg_register_client nm)) \<in> set server_kinds"
  "length (msg_register_action a cl) = 1" "fst (hd (msg_register_action a cl)) \<in> set server_kinds"
  by (simp_all add: msg_register_client_def msg_register_action_def server_kinds_def)

definition queues :: "clib \<Rightarrow> nat \<Rightarrow> int \<Rightarrow> message list \<Rightarrow> bool" where
  "queues s i fd ms \<longleftrightarrow> services_ok s \<and> i < num_svc s \<and> map_of (rd_fds s) fd = Some i \<and> to_server s i = ms \<and>
     (\<forall>j < num_svc s. j \<noteq> i \<longrightarrow> to_server s j = [])"

lemma queues_next:
  assumes "queues s i fd (m # ms)" "length m = 1" "fst (hd m) \<in> set server_kinds"
  obtains s' where "server_read_request False t ([] # env) s = Some (Inr (Some m), env, s')" "queues s' i fd ms"
  using server_reads_next [of s i fd m ms t env] assms by (auto simp: queues_def)

lemma await_step:
  assumes "queues s i fd (m # ms)" "length m = 1" "fst (hd m) \<in> set server_kinds" "vet m conf = Inr (Some conf')" "0 < rcnt"
  obtains s' where "queues s' i fd ms"
    "await_registrations now n reg_exp rcnt ([] # env) s conf = await_registrations now (Suc n) reg_exp (rcnt - 1) env s' conf'"
proof -
  obtain s' where s': "server_read_request False (if reg_exp - now n < 0 then 0 else reg_exp - now n) ([] # env) s =
      Some (Inr (Some m), env, s')" "queues s' i fd ms"
    by (rule queues_next [OF assms(1-3)])
  have "await_registrations now n reg_exp rcnt ([] # env) s conf = await_registrations now (Suc n) reg_exp (rcnt - 1) env s' conf'"
    using s'(1) assms(4,5) by (subst await_registrations.simps) (simp add: Let_def)
  with s'(2) show thesis by (rule that)
qed

lemma await_actions:
  assumes "queues s i fd (map (\<lambda>a. msg_register_action a (Some nm)) acts)" "distinct (before @ acts)"
  shows "\<exists>s'. queues s' i fd [] \<and>
    await_registrations now n reg_exp (int (length acts)) (replicate (length acts) [] @ env) s [(JStr nm, map JStr before)] =
      Some (Inr True, env, s', [(JStr nm, map JStr (before @ acts))])"
  using assms
proof (induction acts arbitrary: s n before)
  case Nil
  then show ?case by (subst await_registrations.simps) simp
next
  case (Cons a acts)
  have "vet (msg_register_action a (Some nm)) [(JStr nm, map JStr before)] = Inr (Some [(JStr nm, map JStr (before @ [a]))])"
    using vet_action [of "[(JStr nm, map JStr before)]" nm "map JStr before" a] Cons.prems(2) by auto
  from await_step [OF _ registration_kinds(3,4) this, of s i fd _ "int (length (a # acts))" now n reg_exp "replicate (length acts) [] @ env"]
  obtain s1 where s1: "queues s1 i fd (map (\<lambda>a. msg_register_action a (Some nm)) acts)"
      "await_registrations now n reg_exp (int (length (a # acts))) ([] # replicate (length acts) [] @ env) s [(JStr nm, map JStr before)] =
       await_registrations now (Suc n) reg_exp (int (length acts)) (replicate (length acts) [] @ env) s1 [(JStr nm, map JStr (before @ [a]))]"
    using Cons.prems(1) by auto
  from Cons.IH [OF s1(1), of "before @ [a]" "Suc n"] Cons.prems(2) s1(2) show ?case by auto
qed

lemma announcement_checked:
  assumes "queues s i fd (announcement nm (keys items))" "distinct (keys items)"
  shows "\<exists>s'. queues s' i fd [] \<and>
    check_registrations now [(nm, JObj items)] (replicate (Suc (length items)) [] @ env) s =
      Some (Inr (False, True), env, s')"
proof -
  let ?env = "replicate (length items) [] @ env"
  obtain s1 where s1: "queues s1 i fd (map (\<lambda>a. msg_register_action a (Some nm)) (keys items))"
      "await_registrations now 1 (now 0 + 10) (1 + int (length items)) ([] # ?env) s [] =
       await_registrations now 2 (now 0 + 10) (int (length items)) ?env s1 [(JStr nm, [])]"
    using await_step [OF _ registration_kinds(1,2) vet_client [of "[]" nm], of s i fd
        "map (\<lambda>a. msg_register_action a (Some nm)) (keys items)" "1 + int (length items)" now 1 "now 0 + 10" ?env] assms(1)
    by (auto simp: announcement_def numeral_2_eq_2)
  obtain s' where s': "queues s' i fd []"
      "await_registrations now 2 (now 0 + 10) (int (length items)) ?env s1 [(JStr nm, [])] =
       Some (Inr True, env, s', [(JStr nm, map JStr (keys items))])"
    using await_actions [OF s1(1), of "[]" now 2 "now 0 + 10" env] assms(2) by auto
  have "list_all hashable (map JStr (keys items))" by (simp add: list_all_iff)
  then have "registrations_match [(nm, JObj items)] [(JStr nm, map JStr (keys items))] = Inr True"
    by (simp add: registrations_match_def del: map_map)
  then show ?thesis using s1(2) s' by (intro exI [of _ s']) (simp add: check_registrations_def)
qed

section \<open>Properties\<close>



text \<open>The count of the last process only: with more processes the driver waits for too few messages or
  too many.\<close>

lemma expected_count_last:
  "expected_count (procs @ [(nm, JObj items)]) 0 = Inr rcnt \<Longrightarrow> rcnt = 1 + int (length items)"
proof -
  have "expected_count (procs @ [(nm, JObj items)]) c = Inr rcnt \<Longrightarrow> rcnt = 1 + int (length items)" for c
    by (induction procs arbitrary: c) (auto simp: bind_res_Inr_iff)
  then show "expected_count (procs @ [(nm, JObj items)]) 0 = Inr rcnt \<Longrightarrow> ?thesis" .
qed

end
