(* ===== verification/AnomalyEngine.thy ===== *)
theory AnomalyEngine
  imports ClientLib ActionMsg
begin

text \<open>
  The engine of the tests (\<^verbatim>\<open>tests/test_main.py\<close>, class \<^verbatim>\<open>AnomalyHandler\<close> and the loop of
  \<^verbatim>\<open>run_a_testcase\<close> over the handlers), which acts as the server: one handler per anomaly runs the
  anomaly's action and then the actions bound to it, a mitigation, under a lock that all
  handlers share. What a handler emits, the requests it writes for the plugins and the events it
  publishes, is collected in order. The clock and the fresh identifiers are arguments: one reading of the clock in
  each turn of the loop, and a fresh identifier for every handler in every turn, because a handler
  writes one request in a turn at most. Values are compared as JSON values. Names of actions are strings.
\<close>

section \<open>A handler\<close>

datatype lock_state = Lock_None | Lock_Locked | Lock_Pending

record anomaly =
  test_run_cnt :: json
  mitigation_timeout :: json
  test_run_index :: int
  test_instances :: json
  test_instance_index :: int
  test_inst :: json
  run_complete :: bool
  action_seq :: "string list"
  action_seq_index :: int
  ct_instance_id :: json
  anomaly_instance_id :: json
  anomaly_key :: json
  anomaly_name :: string
  anomaly_published :: "(string, json) dict"
  mit_context :: "(string, json) dict"
  lock_state :: lock_state
  lock_exp :: int

datatype engine_out = Request json | Publish_event string "(string, json) dict"

text \<open>One handler with the shared lock and what was emitted.\<close>

record cell =
  handler :: anomaly
  mitigation_lock :: bool
  outs :: "engine_out list"

definition new_anomaly :: "string \<Rightarrow> json \<Rightarrow> string list \<Rightarrow> anomaly res" where
  "new_anomaly action_nm action_inp bindings =
     bind_res (json_get action_inp ''run_cnt'' (JInt 1)) (\<lambda>cnt.
     bind_res (json_get action_inp ''mitigation_timeout'' (JInt 60)) (\<lambda>tmo.
     bind_res (json_index action_inp ''instances'') (\<lambda>insts.
       Inr \<lparr>test_run_cnt = cnt, mitigation_timeout = tmo, test_run_index = 0, test_instances = insts,
            test_instance_index = 0, test_inst = JNull, run_complete = False, action_seq = [action_nm] @ bindings,
            action_seq_index = 0, ct_instance_id = JNull, anomaly_instance_id = JNull, anomaly_key = JStr '''',
            anomaly_name = action_nm, anomaly_published = [], mit_context = [], lock_state = Lock_None,
            lock_exp = 0\<rparr>)))"

definition ct_action_name :: "anomaly \<Rightarrow> string res" where
  "ct_action_name h = list_index (action_seq h) (action_seq_index h)"

definition inst_val :: "string \<Rightarrow> string \<Rightarrow> anomaly \<Rightarrow> json res" where
  "inst_val uuid attr_name h =
     bind_res (ct_action_name h) (\<lambda>act.
     bind_res (json_get (test_inst h) act (JObj [])) (\<lambda>d.
     bind_res (json_get d attr_name JNull) (\<lambda>val.
       Inr (if val \<noteq> JNull then val
            else if attr_name = ''run_cnt'' then JInt 1
            else if attr_name = REQ_INSTANCE_ID then JStr uuid
            else if attr_name = REQ_TIMEOUT then JInt 0
            else JNull))))"

definition emit :: "engine_out \<Rightarrow> cell \<Rightarrow> cell" where
  "emit x c = c\<lparr>outs := outs c @ [x]\<rparr>"

definition change :: "(anomaly \<Rightarrow> anomaly) \<Rightarrow> cell \<Rightarrow> cell" where
  "change f c = c\<lparr>handler := f (handler c)\<rparr>"

definition do_publish :: "(string, json) dict \<Rightarrow> cell \<Rightarrow> cell" where
  "do_publish d c = emit (Publish_event (anomaly_name (handler c)) d) c"

definition write_request :: "string \<Rightarrow> cell \<Rightarrow> unit res \<times> cell" where
  "write_request uuid c0 =
     bind_st (inst_val uuid REQ_INSTANCE_ID (handler c0), c0) (\<lambda>inst c.
       let c1 = change (\<lambda>h. h\<lparr>ct_instance_id := inst\<rparr>) c;
           c2 = (if truthy (anomaly_instance_id (handler c1)) then c1
                 else change (\<lambda>h. h\<lparr>anomaly_instance_id := inst\<rparr>) c1);
           h = handler c2
       in bind_st (ct_action_name h, c2) (\<lambda>act c.
          bind_st (inst_val uuid REQ_TIMEOUT h, c) (\<lambda>tmo c.
            (Inr (), emit (Request (request_dict (JStr act) (ct_instance_id h) (anomaly_instance_id h) (anomaly_key h)
               (JObj (mit_context h)) tmo)) c))))"

text \<open>The string of the index of the next test instance is its key.\<close>

definition anomaly_start :: "string \<Rightarrow> cell \<Rightarrow> bool res \<times> cell" where
  "anomaly_start uuid c0 =
     (if run_complete (handler c0) then (Inr False, c0)
      else
        let c1 = change (\<lambda>h. h\<lparr>action_seq_index := 0, mit_context := [], anomaly_instance_id := JStr '''',
                   anomaly_key := JStr '''', anomaly_published := []\<rparr>) c0
        in bind_st (json_get (test_instances (handler c1)) (show_int (test_instance_index (handler c1))) (JObj []), c1)
             (\<lambda>inst c.
               let c2 = change (\<lambda>h. h\<lparr>test_inst := inst, test_instance_index := test_instance_index h + 1\<rparr>) c
               in bind_st (json_len (test_instances (handler c2)), c2) (\<lambda>n c.
                    let c3 = (if test_instance_index (handler c) \<ge> int n
                              then change (\<lambda>h. h\<lparr>test_instance_index := 0\<rparr>) c else c)
                    in bind_st (write_request uuid c3) (\<lambda>_ c. (Inr True, c)))))"

section \<open>The lock\<close>

definition manage_lock :: "bool \<Rightarrow> int \<Rightarrow> cell \<Rightarrow> bool res \<times> cell" where
  "manage_lock acquire now c =
     (if acquire then
        (if lock_state (handler c) = Lock_Pending then
           if mitigation_lock c then (Inr False, c)
           else
             let c1 = c\<lparr>mitigation_lock := True\<rparr>
             in bind_st (as_int (mitigation_timeout (handler c1)), c1) (\<lambda>t c.
                  (Inr True, change (\<lambda>h. h\<lparr>lock_exp := now + t, lock_state := Lock_Locked\<rparr>) c))
         else (Inr False, c))
      else if lock_state (handler c) = Lock_Locked then
        (Inr True, change (\<lambda>h. h\<lparr>lock_exp := 0, lock_state := Lock_None\<rparr>) (c\<lparr>mitigation_lock := False\<rparr>))
      else (Inr False, c))"

definition set_published :: "json \<Rightarrow> json \<Rightarrow> string \<Rightarrow> cell \<Rightarrow> cell" where
  "set_published rc rs st =
     change (\<lambda>h. h\<lparr>anomaly_published := AList.update REQ_MITIGATION_STATE (JStr st)
       (AList.update REQ_RESULT_STR rs (AList.update REQ_RESULT_CODE rc (anomaly_published h)))\<rparr>)"

definition publish_state :: "json \<Rightarrow> json \<Rightarrow> string \<Rightarrow> cell \<Rightarrow> cell" where
  "publish_state rc rs st c = (let c1 = set_published rc rs st c in do_publish (anomaly_published (handler c1)) c1)"

definition anomaly_resume :: "string \<Rightarrow> int \<Rightarrow> cell \<Rightarrow> bool res \<times> cell" where
  "anomaly_resume uuid now c0 =
     bind_st (manage_lock True now c0) (\<lambda>got c.
       if got then bind_st (write_request uuid c) (\<lambda>_ c. (Inr True, c))
       else if lock_exp (handler c) \<noteq> 0 \<and> now > lock_exp (handler c) then
         bind_st (manage_lock False now c) (\<lambda>_ c.
           (Inr False, publish_state (JInt (- 3)) (JStr ''Anomaly mitigation timeout'') REQ_MITIGATION_STATE_TIMEOUT c))
       else (Inr False, c))"

section \<open>Messages of the plugins\<close>

text \<open>The clock's text goes into the published data. A first heartbeat is published alone.\<close>

definition anomaly_heartbeat :: "string \<Rightarrow> (string, json) dict \<Rightarrow> cell \<Rightarrow> bool res \<times> cell" where
  "anomaly_heartbeat now_text rq c0 =
     bind_st (ct_action_name (handler c0), c0) (\<lambda>act c.
     bind_st (dict_index rq REQ_ACTION_NAME, c) (\<lambda>nm c.
       if nm \<noteq> JStr act then (Inr False, c)
       else
         bind_st (dict_index rq REQ_INSTANCE_ID, c) (\<lambda>inst c.
           if inst \<noteq> ct_instance_id (handler c) then (Inr False, c)
           else if anomaly_published (handler c) = [] then
             (Inr True, do_publish (AList.update REQ_HEARTBEAT (JStr now_text) rq) c)
           else
             let c1 = change (\<lambda>h. h\<lparr>anomaly_published := AList.update REQ_HEARTBEAT (JStr now_text)
                        (AList.update REQ_MITIGATION_STATE (JStr REQ_MITIGATION_STATE_PROG) (anomaly_published h))\<rparr>) c
             in (Inr True, do_publish (anomaly_published (handler c1)) c1))))"

text \<open>
  The checks of a response. Both ways the code reports a mismatch raise: the method is called
  with one argument instead of two, or without \<^verbatim>\<open>self\<close>.
\<close>

fun check_values :: "json \<Rightarrow> (string, json) dict \<Rightarrow> string list \<Rightarrow> unit res" where
  "check_values expected rq [] = Inr ()"
| "check_values expected rq (attr # rest) =
     bind_res (json_get expected attr JNull) (\<lambda>v.
       if v \<noteq> JNull \<and> v \<noteq> JStr '''' then
         bind_res (dict_index rq attr) (\<lambda>w.
           if w \<noteq> v then Inl (NameError ''_report_error_response'') else check_values expected rq rest)
       else check_values expected rq rest)"

definition check_response :: "string \<Rightarrow> (string, json) dict \<Rightarrow> cell \<Rightarrow> unit res \<times> cell" where
  "check_response act rq c0 =
     bind_st (dict_index rq REQ_ANOMALY_INSTANCE_ID, c0) (\<lambda>ai c.
       if ai \<noteq> anomaly_instance_id (handler c) then (Inl TypeError, c)
       else
         bind_st (dict_index rq REQ_ANOMALY_KEY, c) (\<lambda>key c.
         bind_st
           (if truthy (anomaly_key (handler c)) then
              if key \<noteq> anomaly_key (handler c) then (Inl TypeError, c) else (Inr (), c)
            else if \<not> truthy key then (Inl TypeError, c)
            else (Inr (), change (\<lambda>h. h\<lparr>anomaly_key := key\<rparr>) c)) (\<lambda>_ c.
         bind_st (json_get (test_inst (handler c)) act (JObj []), c) (\<lambda>expected c.
           (check_values expected rq [REQ_ACTION_DATA, REQ_RESULT_CODE, REQ_RESULT_STR], c)))))"

definition publish_response :: "(string, json) dict \<Rightarrow> cell \<Rightarrow> (string, json) dict \<times> cell" where
  "publish_response rq c =
     (if anomaly_published (handler c) = [] then
        let rq' = AList.update REQ_MITIGATION_STATE (JStr REQ_MITIGATION_STATE_INIT) rq;
            c1 = change (\<lambda>h. h\<lparr>anomaly_published := rq'\<rparr>) c
        in (rq', do_publish rq' c1)
      else (rq, do_publish rq c))"

text \<open>
  Where the sequence stands after a response: whether it is complete, with which result. To Python
  \<^verbatim>\<open>False\<close> is a result code of success.
\<close>

definition zero_code :: "json \<Rightarrow> bool" where
  "zero_code rc \<longleftrightarrow> rc = JInt 0 \<or> rc = JBool False"

definition advance :: "json \<Rightarrow> json \<Rightarrow> cell \<Rightarrow> (bool \<times> json \<times> json) \<times> cell" where
  "advance rc rs c0 =
     (let c1 = (if \<not> zero_code rc then c0 else change (\<lambda>h. h\<lparr>action_seq_index := action_seq_index h + 1\<rparr>) c0);
          complete = (\<not> zero_code rc \<or> action_seq_index (handler c1) \<ge> int (length (action_seq (handler c1))));
          ((complete2, rc2, rs2), c2) =
            (if \<not> complete \<and> action_seq_index (handler c1) = 1 then
               if lock_state (handler c1) = Lock_Locked then
                 ((True, JInt (- 1), JStr ''Internal error: Thread has lock before start of mitigation''), c1)
               else ((False, rc, rs), change (\<lambda>h. h\<lparr>lock_state := Lock_Pending\<rparr>) c1)
             else ((complete, rc, rs), c1))
      in if \<not> complete2 \<and> lock_state (handler c2) = Lock_None
         then ((True, JInt (- 2), JStr ''Mitigation lock timedout''), c2)
         else ((complete2, rc2, rs2), c2))"

text \<open>
  The end of a sequence. A run that is not the last would start again, but the log message
  before the start has two places for one argument: \<^verbatim>\<open>IndexError\<close>.
\<close>

definition complete_sequence :: "int \<Rightarrow> json \<Rightarrow> json \<Rightarrow> cell \<Rightarrow> bool res \<times> cell" where
  "complete_sequence now rc0 rs0 c0 =
     (let (rc, rs) = (if length (action_seq (handler c0)) = 1 then (JInt (- 1), JStr ''No mitigation seq available'')
                      else (rc0, rs0))
      in bind_st (manage_lock False now c0) (\<lambda>_ c.
           let c1 = publish_state rc rs REQ_MITIGATION_STATE_DONE c;
               c2 = change (\<lambda>h. h\<lparr>test_run_index := test_run_index h + 1\<rparr>) c1
           in bind_st (as_int (test_run_cnt (handler c2)), c2) (\<lambda>n c.
                if test_run_index (handler c) \<ge> n then (Inr True, change (\<lambda>h. h\<lparr>run_complete := True\<rparr>) c)
                else (Inl IndexError, c))))"

text \<open>The next action, with the data of this one in its context; without the lock, when the lock is got.\<close>

definition continue_sequence :: "string \<Rightarrow> int \<Rightarrow> string \<Rightarrow> (string, json) dict \<Rightarrow> cell \<Rightarrow> bool res \<times> cell" where
  "continue_sequence uuid now act rq c0 =
     bind_st (dict_index rq REQ_ACTION_DATA, c0) (\<lambda>adata c.
       let c1 = change (\<lambda>h. h\<lparr>mit_context := AList.update act adata (mit_context h)\<rparr>) c
       in if lock_state (handler c1) = Lock_Locked
          then bind_st (write_request uuid c1) (\<lambda>_ c. (Inr False, c))
          else bind_st (anomaly_resume uuid now c1) (\<lambda>_ c. (Inr False, c)))"

definition take_response :: "string \<Rightarrow> int \<Rightarrow> string \<Rightarrow> (string, json) dict \<Rightarrow> cell \<Rightarrow> bool res \<times> cell" where
  "take_response uuid now act rq0 c0 =
     (case publish_response rq0 c0 of (rq, c1) \<Rightarrow>
        bind_st (dict_index rq REQ_RESULT_CODE, c1) (\<lambda>rc c.
        bind_st (dict_index rq REQ_RESULT_STR, c) (\<lambda>rs c.
          case advance rc rs c of ((complete, rc2, rs2), c2) \<Rightarrow>
            if complete then complete_sequence now rc2 rs2 c2 else continue_sequence uuid now act rq c2)))"

definition anomaly_response :: "string \<Rightarrow> int \<Rightarrow> (string, json) dict \<Rightarrow> cell \<Rightarrow> bool res \<times> cell" where
  "anomaly_response uuid now rq c0 =
     bind_st (ct_action_name (handler c0), c0) (\<lambda>act c.
     bind_st (dict_index rq REQ_ACTION_NAME, c) (\<lambda>nm c.
       if nm \<noteq> JStr act then (Inr False, c)
       else
         bind_st (dict_index rq REQ_INSTANCE_ID, c) (\<lambda>inst c.
           if inst \<noteq> ct_instance_id (handler c) then (Inr False, c)
           else bind_st (check_response act rq c) (\<lambda>_ c. take_response uuid now act rq c))))"

section \<open>The loop over the handlers\<close>

record engine =
  handlers :: "(string, anomaly) dict"
  held :: bool
  emitted :: "engine_out list"

text \<open>One handler's turn: its method on its cell, and the cell's parts put back.\<close>

definition on_handler :: "(cell \<Rightarrow> 'r res \<times> cell) \<Rightarrow> anomaly \<Rightarrow> engine \<Rightarrow> 'r res \<times> anomaly \<times> engine" where
  "on_handler f h s =
     (case f \<lparr>handler = h, mitigation_lock = held s, outs = emitted s\<rparr> of
        (r, c) \<Rightarrow> (r, handler c, s\<lparr>held := mitigation_lock c, emitted := outs c\<rparr>))"

text \<open>What a message read by the engine is: a heartbeat, a response, or nothing for a handler.\<close>

definition classify :: "message \<Rightarrow> (bool \<times> (string, json) dict) option res" where
  "classify m =
     (case m of
        [] \<Rightarrow> Inl IndexError
      | (kind, v) # _ \<Rightarrow>
          if kind = REQ_HEARTBEAT then
            (case v of JObj rq \<Rightarrow> Inr (Some (True, rq)) | _ \<Rightarrow> Inl TypeError)
          else if kind \<noteq> REQ_ACTION_REQUEST then Inr None
          else
            bind_res (json_index v REQ_ACTION_TYPE) (\<lambda>t.
              if t \<noteq> JStr REQ_ACTION_TYPE_ACTION then Inr None
              else (case v of JObj rq \<Rightarrow> Inr (Some (False, rq)) | _ \<Rightarrow> Inl TypeError)))"

text \<open>
  Call an operation of the handlers in turn, up to one whose result says to stop, or raises: a
  message is offered until a handler takes it, starting stops at a handler that does not start,
  and all are resumed. The operation gets the handler's name and the message as the handlers before it
  have left it.
\<close>

fun visit ::
  "(string \<Rightarrow> 'm \<Rightarrow> cell \<Rightarrow> bool res \<times> cell) \<Rightarrow> (anomaly \<Rightarrow> anomaly \<Rightarrow> 'm \<Rightarrow> 'm) \<Rightarrow> (bool \<Rightarrow> bool) \<Rightarrow> 'm
   \<Rightarrow> (string, anomaly) dict \<Rightarrow> engine \<Rightarrow> string option res \<times> (string, anomaly) dict \<times> engine"
where
  "visit f left stop m [] s = (Inr None, [], s)"
| "visit f left stop m ((n, h) # hs) s =
     (case on_handler (f n m) h s of
        (Inl e, h', s') \<Rightarrow> (Inl e, (n, h') # hs, s')
      | (Inr v, h', s') \<Rightarrow>
          if stop v then (Inr (Some n), (n, h') # hs, s')
          else (case visit f left stop (left h h' m) hs s' of (r, hs', s2) \<Rightarrow> (r, (n, h') # hs', s2)))"

definition start_all :: "(string \<Rightarrow> string) \<Rightarrow> engine \<Rightarrow> bool res \<times> engine" where
  "start_all uuid s =
     (case visit (\<lambda>n _. anomaly_start (uuid n)) (\<lambda>_ _ m. m) Not () (handlers s) s of
        (r, hs, s') \<Rightarrow> (bind_res r (\<lambda>failed. Inr (failed = None)), s'\<lparr>handlers := hs\<rparr>))"

definition resume_all :: "(string \<Rightarrow> string) \<Rightarrow> int \<Rightarrow> engine \<Rightarrow> unit res \<times> engine" where
  "resume_all uuid now s =
     (case visit (\<lambda>n _. anomaly_resume (uuid n) now) (\<lambda>_ _ m. m) (\<lambda>_. False) () (handlers s) s of
        (r, hs, s') \<Rightarrow> (bind_res r (\<lambda>_. Inr ()), s'\<lparr>handlers := hs\<rparr>))"

text \<open>
  The first response a handler takes becomes its published data, the same dictionary, so that what it adds there is
  seen by the handlers that are offered the message after it. (Two handlers that take one message would go on sharing the
  dictionary; here each has its own from then on.)
\<close>

definition left_message :: "anomaly \<Rightarrow> anomaly \<Rightarrow> (string, json) dict \<Rightarrow> (string, json) dict" where
  "left_message h h' rq =
     (if anomaly_published h = [] \<and> anomaly_published h' \<noteq> [] then anomaly_published h' else rq)"

text \<open>A turn of the loop, with the message the engine has read, if any came.\<close>

definition engine_message ::
  "(string \<Rightarrow> string) \<Rightarrow> int \<Rightarrow> string \<Rightarrow> bool \<times> (string, json) dict \<Rightarrow> engine \<Rightarrow> unit res \<times> engine"
where
  "engine_message uuid now now_text msg s =
     (case msg of (heartbeat, rq) \<Rightarrow>
        (case visit (\<lambda>n rq. if heartbeat then anomaly_heartbeat now_text rq else anomaly_response (uuid n) now rq)
                left_message id rq (handlers s) s of
           (Inl e, hs, s') \<Rightarrow> (Inl e, s'\<lparr>handlers := hs\<rparr>)
         | (Inr taken, hs, s') \<Rightarrow>
             let drop = (case taken of
                           None \<Rightarrow> []
                         | Some n \<Rightarrow> if \<not> heartbeat \<and> (case map_of hs n of None \<Rightarrow> False | Some h \<Rightarrow> run_complete h)
                                     then [n] else [])
             in (Inr (), s'\<lparr>handlers := filter (\<lambda>(n, h). n \<notin> set drop) hs\<rparr>)))"

definition engine_turn ::
  "(string \<Rightarrow> string) \<Rightarrow> int \<Rightarrow> string \<Rightarrow> (bool \<times> (string, json) dict) option \<Rightarrow> engine \<Rightarrow> unit res \<times> engine"
where
  "engine_turn uuid now now_text msg s0 =
     bind_st (case msg of None \<Rightarrow> (Inr (), s0) | Some m \<Rightarrow> engine_message uuid now now_text m s0) (\<lambda>_ s.
       resume_all uuid now s)"

section \<open>What an operation does to the lock and to the requests\<close>

definition locked :: "anomaly \<Rightarrow> bool" where
  "locked h \<longleftrightarrow> lock_state h = Lock_Locked"

text \<open>How much more the lock is held than this handler holds it; not negative when it holds only what is held.\<close>

definition slack :: "cell \<Rightarrow> int" where
  "slack c = of_bool (mitigation_lock c) - of_bool (locked (handler c))"

definition requests :: "engine_out list \<Rightarrow> json list" where
  "requests xs = concat (map (\<lambda>x. case x of Request d \<Rightarrow> [d] | _ \<Rightarrow> []) xs)"

lemma requests_simps [simp]:
  "requests [] = []" "requests (xs @ ys) = requests xs @ requests ys"
  "requests [Request d] = [d]" "requests [Publish_event t kvs] = []"
  by (simp_all add: requests_def)

text \<open>No request is written, and the lock is taken only when it is free and released only by its holder.\<close>

definition quiet_op :: "cell \<Rightarrow> cell \<Rightarrow> bool" where
  "quiet_op c c' \<longleftrightarrow> (0 \<le> slack c \<longrightarrow> slack c \<le> slack c') \<and> action_seq (handler c') = action_seq (handler c) \<and>
     requests (outs c') = requests (outs c)"

text \<open>At most one request is written, for the anomaly's own action or under the lock.\<close>

definition writing_op :: "cell \<Rightarrow> cell \<Rightarrow> bool" where
  "writing_op c c' \<longleftrightarrow> (0 \<le> slack c \<longrightarrow> slack c \<le> slack c') \<and> action_seq (handler c') = action_seq (handler c) \<and>
     (requests (outs c') = requests (outs c) \<or>
      (\<exists>d a. requests (outs c') = requests (outs c) @ [d] \<and> json_index d REQ_ACTION_NAME = Inr (JStr a) \<and>
         (a = hd (action_seq (handler c)) \<or> locked (handler c'))))"

lemma quiet_refl [simp]: "quiet_op c c"
  by (simp add: quiet_op_def)

lemma quiet_trans: "quiet_op c c' \<Longrightarrow> quiet_op c' c2 \<Longrightarrow> quiet_op c c2"
  by (auto simp: quiet_op_def)

lemma quiet_writing: "quiet_op c c' \<Longrightarrow> writing_op c' c2 \<Longrightarrow> writing_op c c2"
  by (auto simp: quiet_op_def writing_op_def)

lemma quiet_is_writing: "quiet_op c c' \<Longrightarrow> writing_op c c'"
  by (simp add: quiet_op_def writing_op_def)

text \<open>Changes that leave the lock and the sequence alone, and publications.\<close>

lemma quiet_change:
  assumes "lock_state (f (handler c)) = lock_state (handler c)" "action_seq (f (handler c)) = action_seq (handler c)"
  shows "quiet_op c (change f c)"
  using assms by (simp add: quiet_op_def change_def slack_def locked_def)

lemma quiet_publish: "quiet_op c (do_publish d c)"
  by (simp add: quiet_op_def do_publish_def emit_def slack_def)

lemma bind_st_quiet:
  assumes "bind_st (r0, c0) f = (r, c')" "quiet_op c c0" "\<And>x. r0 = Inr x \<Longrightarrow> f x c0 = (r, c') \<Longrightarrow> quiet_op c0 c'"
  shows "quiet_op c c'"
  using assms by (cases r0) (auto intro: quiet_trans)

lemma bind_st_writing:
  assumes "bind_st (r0, c0) f = (r, c')" "quiet_op c c0" "\<And>x. r0 = Inr x \<Longrightarrow> f x c0 = (r, c') \<Longrightarrow> writing_op c0 c'"
  shows "writing_op c c'"
  using assms by (cases r0) (auto intro: quiet_writing quiet_is_writing)

lemma list_index_hd: "xs \<noteq> [] \<Longrightarrow> list_index xs 0 = Inr (hd xs)"
  by (simp add: list_index_def hd_conv_nth)

lemma write_request_writes:
  assumes "write_request uuid c = (r, c')" "locked (handler c) \<or> action_seq_index (handler c) = 0"
    "action_seq (handler c) \<noteq> []"
  shows "writing_op c c'"
proof (cases "inst_val uuid REQ_INSTANCE_ID (handler c)")
  case (Inl e)
  then show ?thesis using assms(1) by (auto simp: write_request_def intro: quiet_is_writing)
next
  case (Inr inst)
  let ?c1 = "change (\<lambda>h. h\<lparr>ct_instance_id := inst\<rparr>) c"
  let ?c2 = "if truthy (anomaly_instance_id (handler ?c1)) then ?c1
             else change (\<lambda>h. h\<lparr>anomaly_instance_id := inst\<rparr>) ?c1"
  have quiet: "quiet_op c ?c2"
    by (auto intro: quiet_change quiet_trans [OF quiet_change quiet_change])
  have same: "lock_state (handler ?c2) = lock_state (handler c)" "action_seq (handler ?c2) = action_seq (handler c)"
    "action_seq_index (handler ?c2) = action_seq_index (handler c)"
    by (simp_all add: change_def)
  show ?thesis
  proof (cases "bind_res (ct_action_name (handler ?c2)) (\<lambda>a. bind_res (inst_val uuid REQ_TIMEOUT (handler ?c2)) (\<lambda>t. Inr (a, t)))")
    case (Inl e)
    then have "c' = ?c2"
      using assms(1) Inr by (auto simp: write_request_def Let_def bind_res_Inl_iff bind_st_def split: sum.splits)
    then show ?thesis using quiet quiet_is_writing by blast
  next
    case ok: (Inr at)
    then obtain a t where at: "ct_action_name (handler ?c2) = Inr a" "inst_val uuid REQ_TIMEOUT (handler ?c2) = Inr t"
      by (auto simp: bind_res_Inr_iff)
    let ?d = "request_dict (JStr a) (ct_instance_id (handler ?c2)) (anomaly_instance_id (handler ?c2))
      (anomaly_key (handler ?c2)) (JObj (mit_context (handler ?c2))) t"
    have "c' = emit (Request ?d) ?c2" using assms(1) Inr at by (simp add: write_request_def Let_def)
    moreover have "json_index ?d REQ_ACTION_NAME = Inr (JStr a)" by (simp add: request_dict_def msg_defs)
    moreover have "a = hd (action_seq (handler c)) \<or> locked (handler ?c2)"
      using assms(2) at(1) same list_index_hd [OF assms(3)] by (auto simp: ct_action_name_def locked_def)
    ultimately have "writing_op ?c2 c'" using same
      by (auto simp: writing_op_def emit_def slack_def)
    with quiet show ?thesis by (rule quiet_writing)
  qed
qed

lemma manage_lock_quiet:
  assumes "manage_lock b now c = (r, c')"
  shows "quiet_op c c'" "b \<Longrightarrow> r = Inr True \<Longrightarrow> locked (handler c')"
proof -
  show "quiet_op c c'"
    using assms by (cases "as_int (mitigation_timeout (handler c))")
      (auto simp: manage_lock_def change_def quiet_op_def slack_def locked_def Let_def split: if_splits)
  show "b \<Longrightarrow> r = Inr True \<Longrightarrow> locked (handler c')"
    using assms by (cases "as_int (mitigation_timeout (handler c))")
      (auto simp: manage_lock_def change_def locked_def Let_def split: if_splits)
qed

lemma set_published_quiet: "quiet_op c (set_published rc rs st c)"
  unfolding set_published_def by (rule quiet_change) simp_all

lemma publish_state_quiet: "quiet_op c (publish_state rc rs st c)"
  unfolding publish_state_def Let_def by (rule quiet_trans [OF set_published_quiet quiet_publish])

lemma start_writes:
  assumes "anomaly_start uuid c = (r, c')" "action_seq (handler c) \<noteq> []"
  shows "writing_op c c'"
proof (cases "run_complete (handler c)")
  case True
  then show ?thesis using assms(1) by (simp add: anomaly_start_def quiet_is_writing)
next
  case False
  let ?c1 = "change (\<lambda>h. h\<lparr>action_seq_index := 0, mit_context := [], anomaly_instance_id := JStr '''',
    anomaly_key := JStr '''', anomaly_published := []\<rparr>) c"
  have c1: "quiet_op c ?c1" "action_seq (handler ?c1) \<noteq> []" "action_seq_index (handler ?c1) = 0"
    using assms(2) quiet_change [of _ c] by (simp_all add: change_def quiet_op_def slack_def locked_def)
  show ?thesis
  proof (cases "json_get (test_instances (handler ?c1)) (show_int (test_instance_index (handler ?c1))) (JObj [])")
    case (Inl e)
    then show ?thesis using assms(1) False c1(1) quiet_is_writing by (auto simp: anomaly_start_def Let_def)
  next
    case (Inr inst)
    let ?c2 = "change (\<lambda>h. h\<lparr>test_inst := inst, test_instance_index := test_instance_index h + 1\<rparr>) ?c1"
    have c2: "quiet_op c ?c2" "action_seq (handler ?c2) \<noteq> []" "action_seq_index (handler ?c2) = 0"
      using quiet_trans [OF c1(1) quiet_change [of "\<lambda>h. h\<lparr>test_inst := inst, test_instance_index := test_instance_index h + 1\<rparr>"]]
        c1(2,3) by (simp_all add: change_def)
    show ?thesis
    proof (cases "json_len (test_instances (handler ?c2))")
      case (Inl e)
      then show ?thesis using assms(1) False Inr c2(1) quiet_is_writing by (auto simp: anomaly_start_def Let_def)
    next
      case len: (Inr n)
      let ?c3 = "if test_instance_index (handler ?c2) \<ge> int n then change (\<lambda>h. h\<lparr>test_instance_index := 0\<rparr>) ?c2 else ?c2"
      have c3: "quiet_op c ?c3" "action_seq (handler ?c3) \<noteq> []" "action_seq_index (handler ?c3) = 0"
        using c2 quiet_trans [OF c2(1) quiet_change [of "\<lambda>h. h\<lparr>test_instance_index := 0\<rparr>"]] by (auto simp: change_def)
      obtain r' c4 where w: "write_request uuid ?c3 = (r', c4)" by fastforce
      have "c' = c4"
        using assms(1) False Inr len w by (cases r') (auto simp: anomaly_start_def Let_def bind_st_def split: sum.splits)
      then show ?thesis using quiet_writing [OF c3(1) write_request_writes [OF w _ c3(2)]] c3(3) by simp
    qed
  qed
qed

lemma resume_writes:
  assumes "anomaly_resume uuid now c = (r, c')" "action_seq (handler c) \<noteq> []"
  shows "writing_op c c'"
proof -
  obtain r1 c1 where l: "manage_lock True now c = (r1, c1)" by fastforce
  note q = manage_lock_quiet [OF l]
  show ?thesis
  proof (cases "r1 = Inr True")
    case True
    obtain r2 c2 where w: "write_request uuid c1 = (r2, c2)" by fastforce
    have "action_seq (handler c1) \<noteq> []" using q(1) assms(2) by (simp add: quiet_op_def)
    note w' = write_request_writes [OF w _ this]
    have "c' = c2" using assms(1) l True w by (cases r2) (auto simp: anomaly_resume_def)
    then show ?thesis using quiet_writing [OF q(1) w'] q(2) [OF _ True] by simp
  next
    case False
    obtain r3 c3 where u: "manage_lock False now c1 = (r3, c3)" by fastforce
    have "c' = c1 \<or> c' = c3 \<or> c' = publish_state (JInt (- 3)) (JStr ''Anomaly mitigation timeout'') REQ_MITIGATION_STATE_TIMEOUT c3"
      using assms(1) l False u by (cases r1; cases r3) (auto simp: anomaly_resume_def split: if_splits)
    then show ?thesis
      using q(1) quiet_trans [OF q(1) manage_lock_quiet(1) [OF u]] quiet_trans [OF _ publish_state_quiet]
      by (auto intro!: quiet_is_writing)
  qed
qed

lemma heartbeat_writes: "anomaly_heartbeat t rq c = (r, c') \<Longrightarrow> writing_op c c'"
  by (rule quiet_is_writing)
    (auto simp: anomaly_heartbeat_def bind_st_def Let_def intro: quiet_publish quiet_trans [OF quiet_change quiet_publish]
      split: sum.splits if_splits)

lemma check_response_quiet: "check_response act rq c = (r, c') \<Longrightarrow> quiet_op c c'"
  by (auto simp: check_response_def bind_st_def intro: quiet_change split: sum.splits if_splits)

lemma publish_response_quiet: "publish_response rq c = (rq', c') \<Longrightarrow> quiet_op c c'"
  by (auto simp: publish_response_def Let_def intro: quiet_publish quiet_trans [OF quiet_change quiet_publish] split: if_splits)

lemma quiet_pending:
  assumes "\<not> locked (handler c)"
  shows "quiet_op c (change (\<lambda>h. h\<lparr>lock_state := Lock_Pending\<rparr>) c)"
  using assms by (simp add: quiet_op_def change_def slack_def locked_def)

lemma advance_quiet: "advance rc rs c = (x, c') \<Longrightarrow> quiet_op c c'"
proof -
  assume a: "advance rc rs c = (x, c')"
  let ?c1 = "if \<not> zero_code rc then c else change (\<lambda>h. h\<lparr>action_seq_index := action_seq_index h + 1\<rparr>) c"
  have c1: "quiet_op c ?c1" using quiet_change [of "\<lambda>h. h\<lparr>action_seq_index := action_seq_index h + 1\<rparr>" c] by simp
  have "c' = ?c1 \<or> \<not> locked (handler ?c1) \<and> c' = change (\<lambda>h. h\<lparr>lock_state := Lock_Pending\<rparr>) ?c1"
    using a by (simp add: advance_def Let_def locked_def split: if_splits)
  then show ?thesis using c1 quiet_trans [OF c1 quiet_pending] by blast
qed

lemma complete_sequence_quiet:
  assumes "complete_sequence now rc rs c = (r, c')"
  shows "quiet_op c c'"
proof -
  obtain rc' rs' where rc': "(if length (action_seq (handler c)) = 1 then (JInt (- 1), JStr ''No mitigation seq available'') else (rc, rs)) = (rc', rs')"
    by fastforce
  obtain r0 c0 where l: "manage_lock False now c = (r0, c0)" by fastforce
  note q = manage_lock_quiet(1) [OF l]
  let ?c1 = "publish_state rc' rs' REQ_MITIGATION_STATE_DONE c0"
  let ?c2 = "change (\<lambda>h. h\<lparr>test_run_index := test_run_index h + 1\<rparr>) ?c1"
  have q2: "quiet_op c ?c2"
    by (rule quiet_trans [OF q quiet_trans [OF publish_state_quiet quiet_change]]) simp_all
  have "c' = c0 \<or> c' = ?c2 \<or> c' = change (\<lambda>h. h\<lparr>run_complete := True\<rparr>) ?c2"
    using assms rc' l by (cases r0; cases "as_int (test_run_cnt (handler ?c2))") (auto simp: complete_sequence_def Let_def split: if_splits)
  then show ?thesis
    using q q2 quiet_trans [OF q2 quiet_change [of "\<lambda>h. h\<lparr>run_complete := True\<rparr>"]] by auto
qed

lemma quiet_seq: "quiet_op c c' \<Longrightarrow> action_seq (handler c) \<noteq> [] \<Longrightarrow> action_seq (handler c') \<noteq> []"
  by (simp add: quiet_op_def)

lemma continue_writes:
  assumes "continue_sequence uuid now act rq c = (r, c')" "action_seq (handler c) \<noteq> []"
  shows "writing_op c c'"
proof (cases "dict_index rq REQ_ACTION_DATA")
  case (Inl e)
  then show ?thesis using assms(1) by (simp add: continue_sequence_def quiet_is_writing)
next
  case (Inr adata)
  let ?c1 = "change (\<lambda>h. h\<lparr>mit_context := AList.update act adata (mit_context h)\<rparr>) c"
  have c1: "quiet_op c ?c1" by (rule quiet_change) simp_all
  obtain r1 c2 where w: "write_request uuid ?c1 = (r1, c2)" by fastforce
  obtain r2 c3 where m: "anomaly_resume uuid now ?c1 = (r2, c3)" by fastforce
  have "c' = (if locked (handler ?c1) then c2 else c3)"
    using assms(1) Inr w m by (cases r1; cases r2) (auto simp: continue_sequence_def Let_def locked_def)
  then have "writing_op ?c1 c'"
    using write_request_writes [OF w _ quiet_seq [OF c1 assms(2)]] resume_writes [OF m quiet_seq [OF c1 assms(2)]] by auto
  with c1 show ?thesis by (rule quiet_writing)
qed

lemma take_response_writes:
  assumes "take_response uuid now act rq c = (r, c')" "action_seq (handler c) \<noteq> []"
  shows "writing_op c c'"
proof -
  obtain rq' c1 where p: "publish_response rq c = (rq', c1)" by fastforce
  note q = publish_response_quiet [OF p]
  show ?thesis
  proof (cases "bind_res (dict_index rq' REQ_RESULT_CODE) (\<lambda>rc. bind_res (dict_index rq' REQ_RESULT_STR) (\<lambda>rs. Inr (rc, rs)))")
    case (Inl e)
    then have "c' = c1" using assms(1) p by (auto simp: take_response_def bind_res_Inl_iff)
    then show ?thesis using q quiet_is_writing by simp
  next
    case (Inr rcs)
    then obtain rc rs where rc: "dict_index rq' REQ_RESULT_CODE = Inr rc" "dict_index rq' REQ_RESULT_STR = Inr rs"
      by (auto simp: bind_res_Inr_iff)
    obtain b rc2 rs2 c2 where ad: "advance rc rs c1 = ((b, rc2, rs2), c2)" by (metis surj_pair)
    have q2: "quiet_op c c2" by (rule quiet_trans [OF q advance_quiet [OF ad]])
    have "(if b then complete_sequence now rc2 rs2 c2 else continue_sequence uuid now act rq' c2) = (r, c')"
      using assms(1) p rc ad by (simp add: take_response_def)
    then have "writing_op c2 c'"
      using continue_writes [OF _ quiet_seq [OF q2 assms(2)]] complete_sequence_quiet quiet_is_writing
      by (cases b) auto
    with q2 show ?thesis by (rule quiet_writing)
  qed
qed

lemma response_writes:
  assumes "anomaly_response uuid now rq c = (r, c')" "action_seq (handler c) \<noteq> []"
  shows "writing_op c c'"
proof -
  have "c' = c \<or> (\<exists>act r1 c1. check_response act rq c = (r1, c1) \<and>
      (c' = c1 \<or> take_response uuid now act rq c1 = (r, c')))"
    using assms(1) by (auto simp: anomaly_response_def bind_st_def split: sum.splits if_splits prod.splits)
  then show ?thesis
    using check_response_quiet quiet_writing take_response_writes quiet_seq assms(2)
    by (metis quiet_is_writing quiet_refl)
qed

section \<open>At most one handler holds the lock\<close>

definition num_locked :: "(string, anomaly) dict \<Rightarrow> int" where
  "num_locked hs = sum_list (map (\<lambda>(n, h). of_bool (locked h)) hs)"

definition seqs_ok :: "(string, anomaly) dict \<Rightarrow> bool" where
  "seqs_ok hs \<longleftrightarrow> list_all (\<lambda>(n, h). action_seq h \<noteq> []) hs"

text \<open>Operations of a handler that keep the contract of \<open>writing_op\<close>.\<close>

definition good_op :: "(cell \<Rightarrow> 'r res \<times> cell) \<Rightarrow> bool" where
  "good_op f \<longleftrightarrow> (\<forall>c r c'. f c = (r, c') \<longrightarrow> action_seq (handler c) \<noteq> [] \<longrightarrow> writing_op c c')"

lemma good_ops: "good_op (anomaly_start uuid)" "good_op (anomaly_resume uuid now)"
  "good_op (anomaly_heartbeat t rq)" "good_op (anomaly_response uuid now rq)"
  by (auto simp: good_op_def intro: start_writes resume_writes heartbeat_writes response_writes)

lemma num_locked_simps [simp]:
  "num_locked [] = 0" "num_locked ((n, h) # hs) = of_bool (locked h) + num_locked hs"
  by (simp_all add: num_locked_def)

lemma num_locked_nonneg [simp]: "0 \<le> num_locked hs"
  by (induction hs) (auto simp: num_locked_def)

lemma on_handler_locked:
  assumes "good_op f" "on_handler f h s = (r, h', s')" "action_seq h \<noteq> []" "of_bool (locked h) + k \<le> of_bool (held s)" "0 \<le> (k::int)"
  shows "of_bool (locked h') + k \<le> of_bool (held s') \<and> action_seq h' \<noteq> []"
proof -
  let ?c = "\<lparr>handler = h, mitigation_lock = held s, outs = emitted s\<rparr>"
  obtain c' where c: "f ?c = (r, c')" "h' = handler c'" "held s' = mitigation_lock c'"
    using assms(2) by (auto simp: on_handler_def split: prod.splits)
  have "writing_op ?c c'" using assms(1,3) c(1) by (simp add: good_op_def)
  then have w: "0 \<le> slack ?c \<longrightarrow> slack ?c \<le> slack c'" "action_seq (handler c') = action_seq h"
    by (simp_all add: writing_op_def)
  have "k \<le> slack ?c" using assms(4) by (simp add: slack_def)
  then have "k \<le> slack c'" using w(1) assms(5) by linarith
  then show ?thesis using c(2,3) w(2) assms(3) by (simp add: slack_def)
qed

text \<open>With \<open>k\<close> the locks held by handlers that are not visited.\<close>

lemma visit_locked:
  assumes "\<forall>n m. good_op (f n m)" "visit f left stop m hs s = (r, hs', s')" "seqs_ok hs" "num_locked hs + k \<le> of_bool (held s)" "0 \<le> (k::int)"
  shows "num_locked hs' + k \<le> of_bool (held s') \<and> seqs_ok hs'"
  using assms(2-)
proof (induction hs arbitrary: m r hs' s s' k)
  case (Cons x hs)
  obtain n h where x: "x = (n, h)" by fastforce
  obtain r1 h1 s1 where f: "on_handler (f n m) h s = (r1, h1, s1)" by (metis surj_pair)
  have good: "good_op (f n m)" using assms(1) by blast
  have h: "of_bool (locked h1) + (num_locked hs + k) \<le> of_bool (held s1) \<and> action_seq h1 \<noteq> []"
    by (rule on_handler_locked [OF good f]) (use Cons.prems x in \<open>simp_all add: seqs_ok_def\<close>)
  obtain r2 hs2 s2 where o: "visit f left stop (left h h1 m) hs s1 = (r2, hs2, s2)" by (metis surj_pair)
  have rest: "num_locked hs2 + (of_bool (locked h1) + k) \<le> of_bool (held s2) \<and> seqs_ok hs2"
    by (rule Cons.IH [OF o]) (use Cons.prems h x in \<open>simp_all add: seqs_ok_def\<close>)
  have "hs' = (n, h1) # hs \<and> s' = s1 \<or> hs' = (n, h1) # hs2 \<and> s' = s2"
    using Cons.prems(1) x f o by (cases r1) (auto split: if_splits)
  then show ?case using h rest Cons.prems(2) x by (auto simp: seqs_ok_def)
qed simp

definition engine_ok :: "engine \<Rightarrow> bool" where
  "engine_ok s \<longleftrightarrow> num_locked (handlers s) \<le> of_bool (held s) \<and> seqs_ok (handlers s)"

lemma visit_ok:
  "\<forall>n m. good_op (f n m) \<Longrightarrow> engine_ok s \<Longrightarrow> visit f left stop m (handlers s) s = (r, hs, s') \<Longrightarrow> engine_ok (s'\<lparr>handlers := hs\<rparr>)"
  using visit_locked [of f left stop m "handlers s" s r hs s' 0] by (simp add: engine_ok_def)

lemma start_all_ok: "engine_ok s \<Longrightarrow> start_all uuid s = (r, s') \<Longrightarrow> engine_ok s'"
  using visit_ok [of "\<lambda>n _. anomaly_start (uuid n)"] by (auto simp: good_ops start_all_def split: prod.splits)

lemma resume_all_ok: "engine_ok s \<Longrightarrow> resume_all uuid now s = (r, s') \<Longrightarrow> engine_ok s'"
  using visit_ok [of "\<lambda>n _. anomaly_resume (uuid n) now"] by (auto simp: good_ops resume_all_def split: prod.splits)

lemma num_locked_filter: "num_locked (filter P hs) \<le> num_locked hs"
  by (induction hs) (auto simp: add_increasing)

lemma drop_ok: "engine_ok s \<Longrightarrow> engine_ok (s\<lparr>handlers := filter P (handlers s)\<rparr>)"
  using num_locked_filter [of P "handlers s"] by (auto simp: engine_ok_def seqs_ok_def list_all_iff)

lemma message_ok:
  assumes "engine_ok s" "engine_message uuid now now_text m s = (r, s')"
  shows "engine_ok s'"
proof -
  obtain hb rq where m: "m = (hb, rq)" by fastforce
  let ?f = "\<lambda>n rq. if hb then anomaly_heartbeat now_text rq else anomaly_response (uuid n) now rq"
  obtain r1 hs s1 where v: "visit ?f left_message id rq (handlers s) s = (r1, hs, s1)" by (rule prod_cases3)
  have "\<forall>n m. good_op (?f n m)" using good_ops by simp
  note ok = visit_ok [OF this assms(1) v]
  have "s' = s1\<lparr>handlers := hs\<rparr> \<or> (\<exists>P. s' = s1\<lparr>handlers := filter P hs\<rparr>)"
    using assms(2) unfolding m engine_message_def prod.case v by (cases r1) (auto simp: Let_def)
  then show ?thesis using ok drop_ok [OF ok] by auto
qed

lemma turn_ok: "engine_ok s \<Longrightarrow> engine_turn uuid now now_text m s = (r, s') \<Longrightarrow> engine_ok s'"
  by (auto simp: engine_turn_def bind_st_def split: option.splits prod.splits sum.splits dest: message_ok resume_all_ok)

section \<open>Runs\<close>

text \<open>Handlers as they are constructed, the lock free.\<close>

definition engine_start :: "engine \<Rightarrow> bool" where
  "engine_start s \<longleftrightarrow> list_all (\<lambda>(n, h). \<exists>inp bindings. new_anomaly n inp bindings = Inr h) (handlers s) \<and> \<not> held s"

inductive engine_reach :: "engine \<Rightarrow> bool" where
  constructed: "engine_start s \<Longrightarrow> engine_reach s"
| started: "engine_reach s \<Longrightarrow> start_all uuid s = (r, t) \<Longrightarrow> engine_reach t"
| turn: "engine_reach s \<Longrightarrow> engine_turn uuid now now_text m s = (r, t) \<Longrightarrow> engine_reach t"

lemma new_anomaly_ok: "new_anomaly n inp bindings = Inr h \<Longrightarrow> \<not> locked h \<and> action_seq h \<noteq> []"
  by (auto simp: new_anomaly_def bind_res_Inr_iff locked_def)

lemma engine_start_ok:
  assumes "engine_start s"
  shows "engine_ok s"
proof -
  have "list_all (\<lambda>(n, h). \<exists>inp bindings. new_anomaly n inp bindings = Inr h) hs \<Longrightarrow> num_locked hs = 0 \<and> seqs_ok hs" for hs
    by (induction hs) (auto simp: seqs_ok_def dest: new_anomaly_ok)
  then show ?thesis using assms by (simp add: engine_start_def engine_ok_def)
qed

lemma engine_reach_ok: "engine_reach s \<Longrightarrow> engine_ok s"
  by (induction rule: engine_reach.induct) (auto intro: engine_start_ok start_all_ok turn_ok)

section \<open>Properties\<close>

text \<open>C10. The mitigation lock excludes: whatever messages come, in whatever order the handlers are
  served, at most one of them runs its mitigation, and only while the lock is held.\<close>

theorem mitigation_lock_exclusive:
  assumes "engine_reach s"
  shows "length (filter (\<lambda>(n, h). lock_state h = Lock_Locked) (handlers s)) \<le> 1 \<and>
    ((\<exists>(n, h) \<in> set (handlers s). lock_state h = Lock_Locked) \<longrightarrow> held s)"
proof -
  have count: "num_locked hs = int (length (filter (\<lambda>(n, h). lock_state h = Lock_Locked) hs))" for hs
    by (induction hs) (auto simp: locked_def)
  have le: "num_locked (handlers s) \<le> of_bool (held s)"
    using engine_reach_ok [OF assms] by (simp add: engine_ok_def)
  have "held s" if "(n, h) \<in> set (handlers s)" "lock_state h = Lock_Locked" for n h
  proof (rule ccontr)
    assume "\<not> held s"
    then have "filter (\<lambda>(n, h). lock_state h = Lock_Locked) (handlers s) = []"
      using le count [of "handlers s"] by simp
    then show False using that by (auto simp: filter_empty_conv)
  qed
  moreover have "int (length (filter (\<lambda>(n, h). lock_state h = Lock_Locked) (handlers s))) \<le> 1"
    using le count [of "handlers s"] by (cases "held s") simp_all
  ultimately show ?thesis by auto
qed

text \<open>Two anomalies that a mitigation is bound to.\<close>

definition sample_anomaly :: "string \<Rightarrow> anomaly" where
  "sample_anomaly nm =
     \<lparr>test_run_cnt = JInt 1, mitigation_timeout = JInt 60, test_run_index = 0, test_instances = JObj [],
      test_instance_index = 0, test_inst = JNull, run_complete = False, action_seq = [nm, ''fix''],
      action_seq_index = 0, ct_instance_id = JNull, anomaly_instance_id = JNull, anomaly_key = JStr '''',
      anomaly_name = nm, anomaly_published = [], mit_context = [], lock_state = Lock_None, lock_exp = 0\<rparr>"

definition sample_engine :: engine where
  "sample_engine = \<lparr>handlers = [(''a'', sample_anomaly ''a''), (''b'', sample_anomaly ''b'')], held = False, emitted = []\<rparr>"

definition sample_report :: "string \<Rightarrow> string \<Rightarrow> (string, json) dict" where
  "sample_report nm inst =
     [(REQ_ACTION_NAME, JStr nm), (REQ_INSTANCE_ID, JStr inst), (REQ_ANOMALY_INSTANCE_ID, JStr inst),
      (REQ_ANOMALY_KEY, JStr ''Ethernet0''), (REQ_ACTION_DATA, JStr ''{}''), (REQ_RESULT_CODE, JInt 0), (REQ_RESULT_STR, JStr '''')]"

text \<open>Both have reported; the first holds the lock, the second waits for it.\<close>

definition sample_run :: engine where
  "sample_run =
     snd (engine_turn (\<lambda>n. n @ ''-2'') 2 ''2'' (Some (False, sample_report ''b'' ''b-0''))
       (snd (engine_turn (\<lambda>n. n @ ''-1'') 1 ''1'' (Some (False, sample_report ''a'' ''a-0''))
         (snd (start_all (\<lambda>n. n @ ''-0'') sample_engine)))))"

lemma sample_run_reach: "engine_reach sample_run"
proof -
  have "new_anomaly nm (JObj [(''instances'', JObj [])]) [''fix''] = Inr (sample_anomaly nm)" for nm
    by (simp add: new_anomaly_def sample_anomaly_def)
  then have start: "engine_reach sample_engine"
    by (intro engine_reach.constructed) (auto simp: engine_start_def sample_engine_def)
  note run1 = engine_reach.started [OF start prod.collapse [symmetric], of "\<lambda>n. n @ ''-0''"]
  note run2 = engine_reach.turn [OF run1 prod.collapse [symmetric], of "\<lambda>n. n @ ''-1''" 1 "''1''" "Some (False, sample_report ''a'' ''a-0'')"]
  note run3 = engine_reach.turn [OF run2 prod.collapse [symmetric], of "\<lambda>n. n @ ''-2''" 2 "''2''" "Some (False, sample_report ''b'' ''b-0'')"]
  show ?thesis unfolding sample_run_def by (rule run3)
qed

lemma mitigation_lock_exclusive_witness:
  "length (filter (\<lambda>(n, h). lock_state h = Lock_Locked) (handlers sample_run)) \<le> 1"
  using mitigation_lock_exclusive [OF sample_run_reach] by simp

text \<open>C12. Requests for mitigations are written only under the lock: an operation of a handler writes
  at most one request, and when it is not for the anomaly's own action, the handler holds the lock.\<close>

theorem mitigation_requests_under_lock:
  assumes "f \<in> {anomaly_start uuid, anomaly_resume uuid now, anomaly_heartbeat t rq, anomaly_response uuid now rq}"
    "f c = (r, c')" "action_seq (handler c) \<noteq> []"
  shows "requests (outs c') = requests (outs c) \<or>
    (\<exists>d a. requests (outs c') = requests (outs c) @ [d] \<and> json_index d REQ_ACTION_NAME = Inr (JStr a) \<and>
       (a = hd (action_seq (handler c)) \<or> lock_state (handler c') = Lock_Locked))"
proof -
  have "good_op f" using assms(1) good_ops by auto
  then have "writing_op c c'" using assms(2,3) by (simp add: good_op_def)
  then show ?thesis by (simp add: writing_op_def locked_def)
qed

definition sample_cell :: cell where
  "sample_cell = \<lparr>handler = (sample_anomaly ''a'')\<lparr>action_seq_index := 1, lock_state := Lock_Pending, test_inst := JObj []\<rparr>,
     mitigation_lock = False, outs = []\<rparr>"

lemmas resume_eval = anomaly_resume_def manage_lock_def write_request_def inst_val_def ct_action_name_def
  list_index_def change_def emit_def

lemma sample_cell_resumed:
  "requests (outs (snd (anomaly_resume ''u'' 5 sample_cell))) =
     [request_dict (JStr ''fix'') (JStr ''u'') (JStr ''u'') (JStr '''') (JObj []) (JInt 0)]"
  by (simp add: sample_cell_def sample_anomaly_def resume_eval msg_defs dict_get_def Let_def)

lemma mitigation_requests_under_lock_witness:
  "lock_state (handler (snd (anomaly_resume ''u'' 5 sample_cell))) = Lock_Locked"
proof -
  have "action_seq (handler sample_cell) \<noteq> []" by (simp add: sample_cell_def sample_anomaly_def)
  from mitigation_requests_under_lock [of "anomaly_resume ''u'' 5" "''u''" 5 "''''" "[]", OF _ prod.collapse [symmetric] this]
  show ?thesis by (simp add: sample_cell_resumed) (simp add: sample_cell_def sample_anomaly_def request_dict_def msg_defs)
qed

text \<open>C30. How a handler resumes, when its timeout is a number, its sequence is not at its end, and its test instance
  has a dictionary, or none, for the current action. One that waits, and has no expiry time as it does not hold the lock
  yet, takes a free lock for its timeout and writes the request for its next action, with the instance id and the
  timeout of the test instance, or a fresh id and no timeout where it has none; it waits on while the lock is held. The
  holder releases the lock after its time and publishes that its mitigation timed out, and does nothing before. A handler that
  neither holds the lock nor waits for it, and has no expiry time, does nothing.\<close>

theorem resume_outcomes:
  assumes "mitigation_timeout (handler c) = JInt t"
    "0 \<le> action_seq_index (handler c)" "action_seq_index (handler c) < int (length (action_seq (handler c)))"
    "json_get (test_inst (handler c)) (action_seq (handler c) ! nat (action_seq_index (handler c))) (JObj []) = Inr (JObj inst)"
    "lock_state (handler c) = Lock_Pending \<longrightarrow> lock_exp (handler c) = 0"
  shows "case lock_state (handler c) of
      Lock_Pending \<Rightarrow>
        if mitigation_lock c then anomaly_resume uuid now c = (Inr False, c)
        else \<exists>c' ai. anomaly_resume uuid now c = (Inr True, c') \<and> mitigation_lock c' \<and>
          lock_state (handler c') = Lock_Locked \<and> lock_exp (handler c') = now + t \<and>
          outs c' = outs c @ [Request (request_dict (JStr (action_seq (handler c) ! nat (action_seq_index (handler c))))
            (case dict_get inst REQ_INSTANCE_ID JNull of JNull \<Rightarrow> JStr uuid | v \<Rightarrow> v) ai (anomaly_key (handler c))
            (JObj (mit_context (handler c))) (case dict_get inst REQ_TIMEOUT JNull of JNull \<Rightarrow> JInt 0 | v \<Rightarrow> v))]
    | Lock_Locked \<Rightarrow>
        if lock_exp (handler c) \<noteq> 0 \<and> now > lock_exp (handler c) then
          \<exists>c' d. anomaly_resume uuid now c = (Inr False, c') \<and> \<not> mitigation_lock c' \<and>
            lock_state (handler c') = Lock_None \<and> outs c' = outs c @ [Publish_event (anomaly_name (handler c)) d] \<and>
            map_of d REQ_RESULT_CODE = Some (JInt (- 3)) \<and>
            map_of d REQ_MITIGATION_STATE = Some (JStr REQ_MITIGATION_STATE_TIMEOUT)
        else anomaly_resume uuid now c = (Inr False, c)
    | Lock_None \<Rightarrow> lock_exp (handler c) = 0 \<longrightarrow> anomaly_resume uuid now c = (Inr False, c)"
proof -
  have act: "list_index (action_seq (handler c)) (action_seq_index (handler c)) =
      Inr (action_seq (handler c) ! nat (action_seq_index (handler c)))"
    using assms(2,3) by (simp add: list_index_def)
  show ?thesis
  proof (cases "lock_state (handler c)")
    case Lock_Pending
    then show ?thesis using assms act
      by (auto simp: resume_eval Let_def msg_defs split: json.split)
  next
    case Lock_Locked
    then show ?thesis
      by (simp add: anomaly_resume_def manage_lock_def publish_state_def set_published_def do_publish_def change_def emit_def
          Let_def update_conv' msg_defs)
  qed (simp add: anomaly_resume_def manage_lock_def)
qed

lemma resume_outcomes_witness:
  "\<exists>c'. anomaly_resume ''u'' 5 (change (\<lambda>h. h\<lparr>test_inst := JObj [(''fix'', JObj [(REQ_INSTANCE_ID, JStr ''id_1'')])]\<rparr>) sample_cell) = (Inr True, c') \<and>
     lock_exp (handler c') = 65 \<and>
     map_option (\<lambda>d. json_index d REQ_INSTANCE_ID) (case requests (outs c') of [d] \<Rightarrow> Some d | _ \<Rightarrow> None) = Some (Inr (JStr ''id_1''))"
proof -
  let ?c = "change (\<lambda>h. h\<lparr>test_inst := JObj [(''fix'', JObj [(REQ_INSTANCE_ID, JStr ''id_1'')])]\<rparr>) sample_cell"
  have "\<exists>c' ai. anomaly_resume ''u'' 5 ?c = (Inr True, c') \<and> lock_exp (handler c') = 65 \<and>
      outs c' = [Request (request_dict (JStr ''fix'') (JStr ''id_1'') ai (JStr '''') (JObj []) (JInt 0))]"
    using resume_outcomes [of ?c 60 "[(REQ_INSTANCE_ID, JStr ''id_1'')]" "''u''" 5]
    by (simp add: sample_cell_def sample_anomaly_def change_def dict_get_def msg_defs) blast
  then show ?thesis by (auto simp: request_dict_def requests_def msg_defs dict_index_def)
qed

text \<open>C31. The end of a sequence: the lock is released, the anomaly is published once more as complete
  with the result, without a mitigation as failed; a run that was the last is marked complete, and
  any other raises, so an anomaly runs once whatever its run count.\<close>

theorem sequence_completion:
  assumes "complete_sequence now rc rs c = (r, c')" "test_run_cnt (handler c) = JInt n"
  shows "lock_state (handler c') \<noteq> Lock_Locked \<and> (lock_state (handler c) = Lock_Locked \<longrightarrow> \<not> mitigation_lock c') \<and>
    (\<exists>d. outs c' = outs c @ [Publish_event (anomaly_name (handler c)) d] \<and>
       map_of d REQ_MITIGATION_STATE = Some (JStr REQ_MITIGATION_STATE_DONE) \<and>
       map_of d REQ_RESULT_CODE = Some (if length (action_seq (handler c)) = 1 then JInt (- 1) else rc)) \<and>
    (if test_run_index (handler c) + 1 \<ge> n then r = Inr True \<and> run_complete (handler c')
     else r = Inl IndexError \<and> run_complete (handler c') = run_complete (handler c))"
  using assms
  by (cases "lock_state (handler c) = Lock_Locked"; cases "length (action_seq (handler c)) = 1"; cases "test_run_index (handler c) + 1 \<ge> n")
    (auto simp: complete_sequence_def manage_lock_def publish_state_def set_published_def do_publish_def
      change_def emit_def Let_def update_conv' msg_defs)

lemma sequence_completion_witness:
  "fst (complete_sequence 5 (JInt 0) (JStr '''') sample_cell) = Inr True \<and>
   fst (complete_sequence 5 (JInt 0) (JStr '''') (change (\<lambda>h. h\<lparr>test_run_cnt := JInt 2\<rparr>) sample_cell)) = Inl IndexError"
  using sequence_completion [of 5 "JInt 0" "JStr ''''" sample_cell _ _ 1, OF prod.collapse [symmetric]]
    sequence_completion [of 5 "JInt 0" "JStr ''''" "change (\<lambda>h. h\<lparr>test_run_cnt := JInt 2\<rparr>) sample_cell" _ _ 2, OF prod.collapse [symmetric]]
  by (simp add: sample_cell_def sample_anomaly_def change_def)

end
