(* ===== verification/EngineRun.thy ===== *)
theory EngineRun
  imports AnomalyEngine
begin

text \<open>
  A whole run of the engine with one anomaly: its report, then the actions bound to it, each
  answered with success in time, up to the end of the sequence.
\<close>

section \<open>Successful replies\<close>

text \<open>The dictionary of a response that reports success for the request a handler waits for.\<close>

definition ok_reply :: "string \<Rightarrow> string \<Rightarrow> anomaly \<Rightarrow> (string, json) dict" where
  "ok_reply key adata h =
     [(REQ_ACTION_NAME, JStr (action_seq h ! nat (action_seq_index h))), (REQ_ACTION_TYPE, JStr REQ_ACTION_TYPE_ACTION),
      (REQ_INSTANCE_ID, ct_instance_id h), (REQ_ANOMALY_INSTANCE_ID, anomaly_instance_id h), (REQ_ANOMALY_KEY, JStr key),
      (REQ_ACTION_DATA, JStr adata), (REQ_RESULT_CODE, JInt 0), (REQ_RESULT_STR, JStr '''')]"

text \<open>
  The test instance prescribes nothing for the actions of the sequence: it has an empty dictionary or none for each, as in
  \<^verbatim>\<open>tests/test_data/test_data.json\<close>.
\<close>

definition plain_inst :: "anomaly \<Rightarrow> bool" where
  "plain_inst h \<longleftrightarrow> list_all (\<lambda>a. json_get (test_inst h) a (JObj []) = Inr (JObj [])) (action_seq h)"

lemma plain_instD: "plain_inst h \<Longrightarrow> i < length (action_seq h) \<Longrightarrow> json_get (test_inst h) (action_seq h ! i) (JObj []) = Inr (JObj [])"
  by (simp add: plain_inst_def list_all_length)

text \<open>A handler whose own action was requested, in the only run.\<close>

definition requested :: "int \<Rightarrow> anomaly \<Rightarrow> bool" where
  "requested t h \<longleftrightarrow> action_seq_index h = 0 \<and> lock_state h = Lock_None \<and> lock_exp h = 0 \<and> plain_inst h \<and>
     anomaly_key h = JStr '''' \<and> anomaly_published h = [] \<and> truthy (anomaly_instance_id h) \<and>
     mitigation_timeout h = JInt t \<and> test_run_cnt h = JInt 1 \<and> test_run_index h = 0"

text \<open>A handler that holds the lock until \<open>e\<close> and waits for the reply of its action number \<open>i\<close>.\<close>

definition mitigating :: "int \<Rightarrow> string \<Rightarrow> nat \<Rightarrow> anomaly \<Rightarrow> bool" where
  "mitigating e key i h \<longleftrightarrow> action_seq_index h = int i \<and> 0 < i \<and> i < length (action_seq h) \<and> lock_state h = Lock_Locked \<and>
     lock_exp h = e \<and> plain_inst h \<and> anomaly_key h = JStr key \<and> anomaly_published h \<noteq> [] \<and>
     truthy (anomaly_instance_id h) \<and> test_run_cnt h = JInt 1 \<and> test_run_index h = 0"

lemmas engine_ops = change_def emit_def do_publish_def publish_response_def advance_def zero_code_def ct_action_name_def
  check_response_def list_index_def continue_sequence_def Let_def

lemmas reply_ops = anomaly_response_def take_response_def ok_reply_def engine_ops resume_eval requests_def
  msg_defs dict_get_def dict_index_def

lemma first_reply:
  assumes "requested t (handler c)" "\<not> mitigation_lock c" "key \<noteq> ''''" "1 < length (action_seq (handler c))"
  shows "\<exists>c' d. anomaly_response uuid now (ok_reply key adata (handler c)) c = (Inr False, c') \<and>
    mitigating (now + t) key 1 (handler c') \<and> action_seq (handler c') = action_seq (handler c) \<and>
    anomaly_name (handler c') = anomaly_name (handler c) \<and> mitigation_lock c' \<and>
    requests (outs c') = requests (outs c) @ [d] \<and> json_index d REQ_ACTION_NAME = Inr (JStr (action_seq (handler c) ! 1))"
proof -
  have "action_seq (handler c) \<noteq> []" using assms(4) by auto
  moreover have "json_get (test_inst (handler c)) (action_seq (handler c) ! i) (JObj []) = Inr (JObj [])" if "i < 2" for i
    using assms(1,4) that by (intro plain_instD) (simp_all add: requested_def)
  then have "json_get (test_inst (handler c)) (action_seq (handler c) ! 0) (JObj []) = Inr (JObj [])"
    "json_get (test_inst (handler c)) (action_seq (handler c) ! Suc 0) (JObj []) = Inr (JObj [])" by simp_all
  ultimately show ?thesis using assms
    by (simp add: requested_def mitigating_def reply_ops request_dict_def plain_inst_def)
qed

lemma next_reply:
  assumes "mitigating e key i (handler c)" "mitigation_lock c" "key \<noteq> ''''" "Suc i < length (action_seq (handler c))"
  shows "\<exists>c' d. anomaly_response uuid now (ok_reply key adata (handler c)) c = (Inr False, c') \<and>
    mitigating e key (Suc i) (handler c') \<and> action_seq (handler c') = action_seq (handler c) \<and>
    anomaly_name (handler c') = anomaly_name (handler c) \<and> mitigation_lock c' \<and>
    requests (outs c') = requests (outs c) @ [d] \<and> json_index d REQ_ACTION_NAME = Inr (JStr (action_seq (handler c) ! Suc i))"
proof -
  have "json_get (test_inst (handler c)) (action_seq (handler c) ! i) (JObj []) = Inr (JObj [])"
    "json_get (test_inst (handler c)) (action_seq (handler c) ! Suc i) (JObj []) = Inr (JObj [])"
    using assms(1,4) by (simp_all add: mitigating_def plain_instD)
  then show ?thesis using assms
    by (simp add: mitigating_def reply_ops request_dict_def nat_add_distrib plain_inst_def)
qed

lemma last_reply:
  assumes "mitigating e key i (handler c)" "mitigation_lock c" "key \<noteq> ''''" "Suc i = length (action_seq (handler c))"
  shows "\<exists>c' x d. anomaly_response uuid now (ok_reply key adata (handler c)) c = (Inr True, c') \<and>
    run_complete (handler c') \<and> \<not> mitigation_lock c' \<and>
    outs c' = outs c @ [Publish_event (anomaly_name (handler c)) x, Publish_event (anomaly_name (handler c)) d] \<and>
    map_of d REQ_MITIGATION_STATE = Some (JStr REQ_MITIGATION_STATE_DONE) \<and> map_of d REQ_RESULT_CODE = Some (JInt 0)"
proof -
  have "length (action_seq (handler c)) \<noteq> 1" "int (length (action_seq (handler c))) = 1 + int i"
    "json_get (test_inst (handler c)) (action_seq (handler c) ! i) (JObj []) = Inr (JObj [])"
    using assms(1,4) plain_instD by (auto simp: mitigating_def)
  then show ?thesis using assms
    by (simp add: mitigating_def reply_ops complete_sequence_def publish_state_def set_published_def update_conv')
qed

lemma resume_in_time:
  assumes "mitigating e key i (handler c)" "now \<le> e"
  shows "anomaly_resume uuid now c = (Inr False, c)"
  using assms by (simp add: mitigating_def anomaly_resume_def manage_lock_def)

section \<open>Turns of the engine\<close>

text \<open>A handler with the engine's lock and output.\<close>

definition cell_of :: "anomaly \<Rightarrow> engine \<Rightarrow> cell" where
  "cell_of h s = \<lparr>handler = h, mitigation_lock = held s, outs = emitted s\<rparr>"

lemma cell_of_fields [simp]: "handler (cell_of h s) = h" "mitigation_lock (cell_of h s) = held s" "outs (cell_of h s) = emitted s"
  by (simp_all add: cell_of_def)

text \<open>A response that the only handler takes without completing its run: the handler goes on, and is then resumed.\<close>

lemma turn_goes_on:
  assumes "handlers s = [(nm, h)]" "anomaly_response (uuid nm) now rq (cell_of h s) = (Inr False, c)"
    "anomaly_resume (uuid nm) now c = (Inr b, c)"
  shows "engine_turn uuid now txt (Some (False, rq)) s =
    (Inr (), \<lparr>handlers = [(nm, handler c)], held = mitigation_lock c, emitted = outs c\<rparr>)"
proof -
  have "anomaly_resume (uuid nm) now \<lparr>handler = handler c, mitigation_lock = mitigation_lock c, outs = outs c\<rparr> = (Inr b, c)"
    using assms(3) by (cases c) simp
  then show ?thesis using assms(1,2)
    by (cases s) (simp add: engine_turn_def engine_message_def resume_all_def on_handler_def cell_of_def)
qed

lemma turn_completes:
  assumes "handlers s = [(nm, h)]" "anomaly_response (uuid nm) now rq (cell_of h s) = (Inr True, c)" "run_complete (handler c)"
  shows "engine_turn uuid now txt (Some (False, rq)) s =
    (Inr (), \<lparr>handlers = [], held = mitigation_lock c, emitted = outs c\<rparr>)"
  using assms by (cases s) (simp add: engine_turn_def engine_message_def resume_all_def on_handler_def cell_of_def Let_def)

text \<open>
  Turns that each bring a successful reply to what the handler waits for: the fresh identifiers, the
  time, and the data of the reply.
\<close>

fun answered_turns :: "string \<Rightarrow> ((string \<Rightarrow> string) \<times> int \<times> string) list \<Rightarrow> engine \<Rightarrow> unit res \<times> engine" where
  "answered_turns key [] s = (Inr (), s)"
| "answered_turns key ((uuid, now, adata) # ts) s =
     (case handlers s of
        [] \<Rightarrow> (Inr (), s)
      | (nm, h) # _ \<Rightarrow>
          bind_st (engine_turn uuid now (show_int now) (Some (False, ok_reply key adata h)) s)
            (\<lambda>_ s. answered_turns key ts s))"

definition requested_actions :: "engine \<Rightarrow> json res list" where
  "requested_actions s = map (\<lambda>d. json_index d REQ_ACTION_NAME) (requests (emitted s))"

text \<open>The run is over: no handler is left, the lock is free, the last publication says so.\<close>

definition run_over :: "string \<Rightarrow> engine \<Rightarrow> bool" where
  "run_over nm s \<longleftrightarrow> handlers s = [] \<and> \<not> held s \<and>
     (\<exists>xs d. emitted s = xs @ [Publish_event nm d] \<and> map_of d REQ_MITIGATION_STATE = Some (JStr REQ_MITIGATION_STATE_DONE) \<and>
        map_of d REQ_RESULT_CODE = Some (JInt 0))"

lemma mitigation_goes_on:
  assumes "handlers s = [(nm, h)]" "held s" "mitigating e key i h" "key \<noteq> ''''" "i + length ts = length (action_seq h)"
    "\<forall>(u, now, a) \<in> set ts. now \<le> e"
  shows "\<exists>s'. answered_turns key ts s = (Inr (), s') \<and> run_over (anomaly_name h) s' \<and>
    requested_actions s' = requested_actions s @ map (\<lambda>a. Inr (JStr a)) (drop (Suc i) (action_seq h))"
  using assms
proof (induction ts arbitrary: s h i)
  case Nil
  then show ?case by (simp add: mitigating_def)
next
  case (Cons x ts)
  obtain u now a where x: "x = (u, now, a)" by (cases x)
  have m: "mitigating e key i (handler (cell_of h s))" "mitigation_lock (cell_of h s)" using Cons.prems(2,3) by simp_all
  have now: "now \<le> e" using Cons.prems(6) x by simp
  show ?case
  proof (cases ts)
    case Nil
    then have "Suc i = length (action_seq (handler (cell_of h s)))" using Cons.prems(5) by simp
    from last_reply [OF m Cons.prems(4) this, of "u nm" now a] obtain c y d where
      c: "anomaly_response (u nm) now (ok_reply key a h) (cell_of h s) = (Inr True, c)" "run_complete (handler c)" "\<not> mitigation_lock c"
        "outs c = emitted s @ [Publish_event (anomaly_name h) y, Publish_event (anomaly_name h) d]"
        "map_of d REQ_MITIGATION_STATE = Some (JStr REQ_MITIGATION_STATE_DONE)" "map_of d REQ_RESULT_CODE = Some (JInt 0)"
      by auto
    have "drop (Suc i) (action_seq h) = []" using Nil Cons.prems(5) by simp
    then show ?thesis
      using turn_completes [of s nm h u, OF Cons.prems(1) c(1,2)] c(3-) Cons.prems(1) x Nil
      by (auto simp: run_over_def requested_actions_def requests_def)
  next
    case (Cons z zs)
    then have len: "Suc i < length (action_seq (handler (cell_of h s)))" using Cons.prems(5) by simp
    from next_reply [OF m Cons.prems(4) this, of "u nm" now a] obtain c d where
      c: "anomaly_response (u nm) now (ok_reply key a h) (cell_of h s) = (Inr False, c)" "mitigating e key (Suc i) (handler c)"
        "action_seq (handler c) = action_seq h" "anomaly_name (handler c) = anomaly_name h" "mitigation_lock c"
        "requests (outs c) = requests (emitted s) @ [d]" "json_index d REQ_ACTION_NAME = Inr (JStr (action_seq h ! Suc i))"
      by auto
    let ?s = "\<lparr>handlers = [(nm, handler c)], held = mitigation_lock c, emitted = outs c\<rparr>"
    have turn: "engine_turn u now (show_int now) (Some (False, ok_reply key a h)) s = (Inr (), ?s)"
      by (rule turn_goes_on [of s nm h u, OF Cons.prems(1) c(1) resume_in_time [OF c(2) now]])
    have "\<exists>s'. answered_turns key ts ?s = (Inr (), s') \<and> run_over (anomaly_name (handler c)) s' \<and>
        requested_actions s' = requested_actions ?s @ map (\<lambda>a. Inr (JStr a)) (drop (Suc (Suc i)) (action_seq (handler c)))"
      by (rule Cons.IH [where i = "Suc i"]) (use Cons.prems c in auto)
    moreover have "drop (Suc i) (action_seq h) = action_seq h ! Suc i # drop (Suc (Suc i)) (action_seq h)"
      using len by (simp add: Cons_nth_drop_Suc)
    ultimately show ?thesis using turn Cons.prems(1) x c(3-) by (auto simp: requested_actions_def)
  qed
qed

text \<open>
  After the anomaly's own action was requested, with the lock free, one successful reply per action of the
  sequence, within the timeout, makes the engine request every bound action once and in order, then publish the
  anomaly as complete with result code 0, release the lock and drop the handler; nothing is raised.
\<close>

lemma answered_to_end:
  assumes "handlers s = [(nm, h)]" "\<not> held s" "requested t h" "0 \<le> t" "key \<noteq> ''''" "length (action_seq h) = Suc (length ts)"
    "ts \<noteq> []" "\<forall>(u, now, a) \<in> set ts. now \<le> now0 + t"
  shows "\<exists>s'. answered_turns key ((u0, now0, a0) # ts) s = (Inr (), s') \<and>
    map (\<lambda>d. json_index d REQ_ACTION_NAME) (requests (emitted s')) =
      map (\<lambda>d. json_index d REQ_ACTION_NAME) (requests (emitted s)) @ map (\<lambda>a. Inr (JStr a)) (tl (action_seq h)) \<and>
    handlers s' = [] \<and> \<not> held s' \<and>
    (\<exists>xs d. emitted s' = xs @ [Publish_event (anomaly_name h) d] \<and>
       map_of d REQ_MITIGATION_STATE = Some (JStr REQ_MITIGATION_STATE_DONE) \<and> map_of d REQ_RESULT_CODE = Some (JInt 0))"
proof -
  have m: "requested t (handler (cell_of h s))" "\<not> mitigation_lock (cell_of h s)" "1 < length (action_seq (handler (cell_of h s)))"
    using assms(2,3,6,7) by (cases ts; simp)+
  from first_reply [OF m(1,2) assms(5) m(3), of "u0 nm" now0 a0] obtain c d where
    c: "anomaly_response (u0 nm) now0 (ok_reply key a0 h) (cell_of h s) = (Inr False, c)" "mitigating (now0 + t) key 1 (handler c)"
      "action_seq (handler c) = action_seq h" "anomaly_name (handler c) = anomaly_name h" "mitigation_lock c"
      "requests (outs c) = requests (emitted s) @ [d]" "json_index d REQ_ACTION_NAME = Inr (JStr (action_seq h ! 1))"
    by auto
  let ?s = "\<lparr>handlers = [(nm, handler c)], held = mitigation_lock c, emitted = outs c\<rparr>"
  have turn: "engine_turn u0 now0 (show_int now0) (Some (False, ok_reply key a0 h)) s = (Inr (), ?s)"
    by (rule turn_goes_on [of s nm h u0, OF assms(1) c(1) resume_in_time [OF c(2)]]) (use assms(4) in simp)
  have "\<exists>s'. answered_turns key ts ?s = (Inr (), s') \<and> run_over (anomaly_name (handler c)) s' \<and>
      requested_actions s' = requested_actions ?s @ map (\<lambda>a. Inr (JStr a)) (drop (Suc 1) (action_seq (handler c)))"
    by (rule mitigation_goes_on [where e = "now0 + t"]) (use assms c in auto)
  moreover have "tl (action_seq h) = action_seq h ! 1 # drop (Suc 1) (action_seq h)"
    using m(3) by (cases "action_seq h"; cases "tl (action_seq h)") auto
  ultimately show ?thesis using turn assms(1) c(3-) by (auto simp: requested_actions_def run_over_def)
qed

text \<open>An engine with the anomaly of the test data, as it is constructed, and started.\<close>

definition flap_input :: json where
  "flap_input = JObj [(''run_cnt'', JInt 1), (''mitigation_timeout'', JInt 30),
     (''instances'', JObj [(''0'', JObj [(''link_flap'', JObj []), (''link_safety'', JObj []), (''link_down'', JObj [])])])]"

definition flap_anomaly :: anomaly where
  "flap_anomaly =
     \<lparr>test_run_cnt = JInt 1, mitigation_timeout = JInt 30, test_run_index = 0,
      test_instances = JObj [(''0'', JObj [(''link_flap'', JObj []), (''link_safety'', JObj []), (''link_down'', JObj [])])],
      test_instance_index = 0, test_inst = JNull, run_complete = False,
      action_seq = [''link_flap'', ''link_safety'', ''link_down''], action_seq_index = 0, ct_instance_id = JNull,
      anomaly_instance_id = JNull, anomaly_key = JStr '''', anomaly_name = ''link_flap'', anomaly_published = [],
      mit_context = [], lock_state = Lock_None, lock_exp = 0\<rparr>"

lemma flap_anomaly_new: "new_anomaly ''link_flap'' flap_input [''link_safety'', ''link_down''] = Inr flap_anomaly"
  by (simp add: new_anomaly_def flap_input_def flap_anomaly_def dict_get_def dict_index_def)

definition one_handler :: engine where
  "one_handler = \<lparr>handlers = [(''link_flap'', flap_anomaly)], held = False, emitted = []\<rparr>"

text \<open>The first instance has the key of index 0.\<close>

lemma show_int_0: "show_int 0 = ''0''"
  by (simp add: show_int_def show_nat.simps digit_char_def char_of_eq_iff)

lemma flap_started:
  assumes "uuid \<noteq> ''''"
  shows "\<exists>c. anomaly_start uuid \<lparr>handler = flap_anomaly, mitigation_lock = b, outs = xs\<rparr> = (Inr True, c) \<and>
    requests (outs c) = requests xs @ [request_dict (JStr ''link_flap'') (JStr uuid) (JStr uuid) (JStr '''') (JObj []) (JInt 0)] \<and>
    mitigation_lock c = b \<and> handler c = flap_anomaly\<lparr>anomaly_instance_id := JStr uuid, ct_instance_id := JStr uuid,
      test_inst := JObj [(''link_flap'', JObj []), (''link_safety'', JObj []), (''link_down'', JObj [])]\<rparr>"
  using assms
  by (simp add: flap_anomaly_def anomaly_start_def write_request_def inst_val_def engine_ops requests_def dict_get_def msg_defs
      show_int_0)

lemma one_handler_started:
  obtains s h d where "start_all (\<lambda>_. ''u'') one_handler = (Inr True, s)" "handlers s = [(''link_flap'', h)]" "\<not> held s"
    "requested 30 h" "action_seq h = [''link_flap'', ''link_safety'', ''link_down'']" "anomaly_name h = ''link_flap''"
    "requests (emitted s) = [d]" "json_index d REQ_ACTION_NAME = Inr (JStr ''link_flap'')"
proof -
  obtain c where c: "anomaly_start ''u'' \<lparr>handler = flap_anomaly, mitigation_lock = False, outs = []\<rparr> = (Inr True, c)"
      "requests (outs c) = [request_dict (JStr ''link_flap'') (JStr ''u'') (JStr ''u'') (JStr '''') (JObj []) (JInt 0)]"
      "\<not> mitigation_lock c" "handler c = flap_anomaly\<lparr>anomaly_instance_id := JStr ''u'', ct_instance_id := JStr ''u'',
      test_inst := JObj [(''link_flap'', JObj []), (''link_safety'', JObj []), (''link_down'', JObj [])]\<rparr>"
    using flap_started [of "''u''" False "[]"] by auto
  let ?s = "\<lparr>handlers = [(''link_flap'', handler c)], held = False, emitted = outs c\<rparr>"
  let ?d = "request_dict (JStr ''link_flap'') (JStr ''u'') (JStr ''u'') (JStr '''') (JObj []) (JInt 0)"
  have "start_all (\<lambda>_. ''u'') one_handler = (Inr True, ?s)"
    using c(1,3) by (simp add: start_all_def one_handler_def on_handler_def)
  moreover have "requested 30 (handler c)" unfolding c(4) by (simp add: flap_anomaly_def requested_def plain_inst_def dict_get_def)
  moreover have "action_seq (handler c) = [''link_flap'', ''link_safety'', ''link_down'']" "anomaly_name (handler c) = ''link_flap''"
    unfolding c(4) by (simp_all add: flap_anomaly_def)
  moreover have "json_index ?d REQ_ACTION_NAME = Inr (JStr ''link_flap'')"
    by (simp add: request_dict_def msg_defs dict_index_def)
  ultimately show thesis using that [of ?s "handler c" ?d] c(2) by simp
qed

end
