(* ===== verification/MitigationRun.thy ===== *)
theory MitigationRun
  imports EngineRun LinkMitigation
begin

text \<open>
  From the report of the flap detection, through the engine that reads it and the safety check it asks for, to
  the mitigation.
\<close>

section \<open>The engine takes a report\<close>

text \<open>A handler that waits for the report of its anomaly's action.\<close>

definition awaiting :: "action_attrs \<Rightarrow> string list \<Rightarrow> anomaly \<Rightarrow> bool" where
  "awaiting fa acts h \<longleftrightarrow>
     action_seq h = acts \<and> action_seq_index h = 0 \<and> lock_state h = Lock_None \<and> plain_inst h \<and>
     anomaly_key h = JStr '''' \<and> anomaly_published h = [] \<and> mit_context h = [] \<and>
     ct_instance_id h = attr_instance_id fa \<and> anomaly_instance_id h = attr_anomaly_instance_id fa \<and>
     truthy (anomaly_instance_id h) \<and> (\<exists>t. mitigation_timeout h = JInt t)"

text \<open>A handler that holds the lock and waits for the answer of its first bound action.\<close>

definition holding :: "json \<Rightarrow> json \<Rightarrow> string \<Rightarrow> (string, json) dict \<Rightarrow> string list \<Rightarrow> anomaly \<Rightarrow> bool" where
  "holding inst ai key ctx acts h \<longleftrightarrow>
     action_seq h = acts \<and> action_seq_index h = 1 \<and> lock_state h = Lock_Locked \<and> plain_inst h \<and>
     anomaly_key h = JStr key \<and> anomaly_published h \<noteq> [] \<and> mit_context h = ctx \<and>
     ct_instance_id h = inst \<and> anomaly_instance_id h = ai \<and> truthy ai"

text \<open>The dictionary of a successful response.\<close>

definition reply_items :: "string \<Rightarrow> json \<Rightarrow> json \<Rightarrow> string \<Rightarrow> string \<Rightarrow> string \<Rightarrow> (string, json) dict" where
  "reply_items act inst ai key adata rs = (case response_dict act inst ai (JStr key) adata 0 rs of JObj d \<Rightarrow> d | _ \<Rightarrow> [])"

lemma reply_parsed:
  assumes "wf_json inst" "wf_json ai"
  shows "loads (response_value (new_action_response act inst ai (JStr key) adata 0 rs)) = Inr (JObj (reply_items act inst ai key adata rs))"
  using response_parsed [of inst ai "JStr key"] assms by (simp add: reply_items_def response_dict_def)

lemmas taken_ops = anomaly_response_def take_response_def reply_items_def response_dict_def engine_ops resume_eval
  requests_def msg_defs dict_get_def dict_index_def plain_inst_def

lemma report_taken:
  assumes "awaiting fa (act # nxt # rest) (handler c)" "\<not> mitigation_lock c" "key \<noteq> ''''"
  shows "\<exists>c'. anomaly_response uuid now (reply_items act (attr_instance_id fa) (attr_anomaly_instance_id fa) key adata rs) c =
      (Inr False, c') \<and> mitigation_lock c' \<and>
    requests (outs c') = requests (outs c) @
      [request_dict (JStr nxt) (JStr uuid) (attr_anomaly_instance_id fa) (JStr key) (JObj [(act, JStr adata)]) (JInt 0)] \<and>
    holding (JStr uuid) (attr_anomaly_instance_id fa) key [(act, JStr adata)] (act # nxt # rest) (handler c')"
  using assms by (clarsimp simp: awaiting_def) (simp add: holding_def taken_ops)

lemma answer_taken:
  assumes "holding inst ai key ctx (fst_act # act # nxt # rest) (handler c)" "key \<noteq> ''''"
  shows "\<exists>c'. anomaly_response uuid now (reply_items act inst ai key adata rs) c = (Inr False, c') \<and>
    mitigation_lock c' = mitigation_lock c \<and>
    requests (outs c') = requests (outs c) @
      [request_dict (JStr nxt) (JStr uuid) ai (JStr key) (JObj (AList.update act (JStr adata) ctx)) (JInt 0)]"
  using assms by (clarsimp simp: holding_def) (simp add: taken_ops)

section \<open>The plugins read what the engine writes\<close>

text \<open>The context of the requests: the report under the detecting action's name, then the data of the safety check.\<close>

definition report_data :: "string \<Rightarrow> int \<Rightarrow> int \<Rightarrow> string" where
  "report_data ifname dur cnt = dumps (JObj [(''ifname'', JStr ifname), (''duration'', JInt dur), (''cnt'', JInt cnt)])"

lemma report_ifname: "context_ifname (JObj ((''link_flap'', JStr (report_data ifname dur cnt)) # kvs)) = Inr (JStr ifname)"
  unfolding report_data_def
  by (rule context_ifname_found [where d = "[(''ifname'', JStr ifname), (''duration'', JInt dur), (''cnt'', JInt cnt)]"])
    (simp_all del: dumps.simps)

lemma safety_takes_request:
  assumes "wf_json inst" "wf_json ai" "wf_json (JObj ctx)" "context_ifname (JObj ctx) = Inr (JStr ifname)" "ifname \<noteq> ''''"
    "up_percent shell = Inr pc" "wf_json an"
  shows "\<exists>rq rs. new_action_request (dumps (request_dict an inst ai (JStr ifname) (JObj ctx) (JInt 0))) = Inr rq \<and>
    req_action_name rq = Inr an \<and>
    ls_request show_float shell rq p = Inr (new_action_response (ls_name p) inst ai (JStr ifname) '''' 0 rs)"
proof -
  let ?d = "request_dict an inst ai (JStr ifname) (JObj ctx) (JInt 0)"
  let ?a = "\<lparr>attr_action_name = an, attr_instance_id = inst, attr_anomaly_instance_id = ai, attr_anomaly_key = JStr ifname,
      attr_context = JObj ctx, attr_timeout = JInt 0\<rparr>"
  let ?rq = "\<lparr>str_data = dumps ?d, req_type = JStr REQ_ACTION_TYPE_ACTION, attrs = Some ?a\<rparr>"
  have rq: "new_action_request (dumps ?d) = Inr ?rq" using request_parsed assms(1-3,7) by simp
  obtain kvs where kvs: "?d = JObj kvs" "map_of kvs REQ_CONTEXT = Some (JObj ctx)" by (simp add: request_dict_def msg_defs)
  have "wf_json ?d" using assms(1-3,7) by (simp add: request_dict_wf)
  then have l: "loads (str_data ?rq) = Inr (JObj kvs)" using kvs(1) loads_dumps [of ?d] by (simp del: dumps.simps)
  have a: "attrs ?rq = Some ?a" and t: "truthy (JStr ifname)" using assms(5) by simp_all
  note run = ls_request_known [OF a l kvs(2) assms(4) t assms(6), of show_float p]
  show ?thesis by (intro exI [of _ ?rq] exI conjI) (rule rq, simp add: req_attr_defs, use run in simp)
qed

lemma down_takes_request:
  assumes "wf_json inst" "wf_json ai" "wf_json (JObj ctx)" "context_ifname (JObj ctx) = Inr (JStr ifname)" "ifname \<noteq> ''''" "wf_json an"
  shows "\<exists>rq. new_action_request (dumps (request_dict an inst ai (JStr ifname) (JObj ctx) (JInt 0))) = Inr rq \<and>
    req_action_name rq = Inr an \<and>
    ld_request repr rq p = (Inr (new_action_response (ld_name p) inst ai (JStr ifname) '''' 0 (''Brought down link '' @ ifname)),
      [''sudo config int shutdown '' @ ifname])"
proof -
  obtain rq a where rq: "new_action_request (dumps (request_dict an inst ai (JStr ifname) (JObj ctx) (JInt 0))) = Inr rq" "attrs rq = Some a"
      "a = \<lparr>attr_action_name = an, attr_instance_id = inst, attr_anomaly_instance_id = ai, attr_anomaly_key = JStr ifname,
        attr_context = JObj ctx, attr_timeout = JInt 0\<rparr>"
    using request_parsed [of an inst ai "JStr ifname" "JObj ctx" "JInt 0"] assms by (simp del: dumps.simps)
  then show ?thesis using ld_request_known [OF rq(2) _ assms(5), of repr p] assms(4) by (simp add: req_attr_defs)
qed

section \<open>Property\<close>

text \<open>C11. From the report to the mitigation, for the sequence of actions of the repository's test data. When a report of the
  flap detection reaches the handler that waits for it, whose test instance prescribes nothing for these actions, and
  the lock is free, the handler takes the lock and writes exactly one request, for \<^verbatim>\<open>link_safety\<close>. The safety check
  that reads its text, when the shell counts at least one link, answers; the handler that reads the answer writes exactly
  one more request, for \<^verbatim>\<open>link_down\<close>. The plugin that reads its text issues exactly one command, which shuts down the
  reported interface, and its response carries the identifiers of the request and of the anomaly.\<close>

theorem report_reaches_mitigation:
  assumes "awaiting fa [''link_flap'', ''link_safety'', ''link_down''] (handler c)" "\<not> mitigation_lock c" "ifname \<noteq> ''''" "attrs_wf fa"
    "lf_name fp = ''link_flap''" "ls_name sp = ''link_safety''"
    "loads (response_value (new_action_response (lf_name fp) (attr_instance_id fa) (attr_anomaly_instance_id fa)
       (JStr ifname) (get_resp ifname dur fp) 0 '''')) = Inr (JObj rsp)"
    "shell ''show int status | grep -v down | wc -l'' = Inr (count_line u)"
    "shell ''show int status | grep down | wc -l'' = Inr (count_line d)" "u + d \<noteq> 0"
  shows "\<exists>c1 d1 rq1 r1 rsp1 c2 d2 rq2. anomaly_response uuid now rsp c = (Inr False, c1) \<and> mitigation_lock c1 \<and>
    requests (outs c1) = requests (outs c) @ [d1] \<and>
    new_action_request (dumps d1) = Inr rq1 \<and> req_action_name rq1 = Inr (JStr ''link_safety'') \<and>
    ls_request show_float shell rq1 sp = Inr r1 \<and> loads (response_value r1) = Inr (JObj rsp1) \<and>
    anomaly_response uuid' now' rsp1 c1 = (Inr False, c2) \<and> mitigation_lock c2 \<and>
    requests (outs c2) = requests (outs c1) @ [d2] \<and>
    new_action_request (dumps d2) = Inr rq2 \<and> req_action_name rq2 = Inr (JStr ''link_down'') \<and>
    ld_request repr rq2 lp =
      (Inr (new_action_response (ld_name lp) (JStr uuid') (attr_anomaly_instance_id fa) (JStr ifname)
              '''' 0 (''Brought down link '' @ ifname)),
       [''sudo config int shutdown '' @ ifname])"
proof -
  let ?ai = "attr_anomaly_instance_id fa" and ?rep = "report_data ifname dur (int (flap_cnt fp))"
  let ?d1 = "request_dict (JStr ''link_safety'') (JStr uuid) ?ai (JStr ifname) (JObj [(''link_flap'', JStr ?rep)]) (JInt 0)"
  let ?ctx = "[(''link_flap'', JStr ?rep), (''link_safety'', JStr '''')]"
  let ?d2 = "request_dict (JStr ''link_down'') (JStr uuid') ?ai (JStr ifname) (JObj ?ctx) (JInt 0)"
  have ai: "wf_json (attr_instance_id fa)" "wf_json ?ai" using assms(4) by (simp_all add: attrs_wf_def)
  have rsp: "rsp = reply_items ''link_flap'' (attr_instance_id fa) ?ai ifname ?rep ''''"
    using assms(7) reply_parsed [OF ai] assms(5) by (simp add: get_resp_def report_data_def del: dumps.simps)
  obtain c1 where c1: "anomaly_response uuid now rsp c = (Inr False, c1)" "mitigation_lock c1"
      "requests (outs c1) = requests (outs c) @ [?d1]"
      "holding (JStr uuid) ?ai ifname [(''link_flap'', JStr ?rep)] [''link_flap'', ''link_safety'', ''link_down''] (handler c1)"
    using report_taken [OF assms(1-3)] unfolding rsp by blast
  have pc: "up_percent shell = Inr (100 * of_int u / of_int (u + d))" using up_percent_counts [OF assms(8,9)] assms(10) by simp
  obtain rq1 rs where rq1: "new_action_request (dumps ?d1) = Inr rq1" "req_action_name rq1 = Inr (JStr ''link_safety'')"
      "ls_request show_float shell rq1 sp = Inr (new_action_response (ls_name sp) (JStr uuid) ?ai (JStr ifname) '''' 0 rs)"
    using safety_takes_request [of "JStr uuid" ?ai "[(''link_flap'', JStr ?rep)]" ifname shell _ "JStr ''link_safety''" show_float sp,
        OF _ ai(2) _ report_ifname assms(3) pc] by (simp del: dumps.simps) blast
  obtain c2 where c2: "anomaly_response uuid' now' (reply_items ''link_safety'' (JStr uuid) ?ai ifname '''' rs) c1 = (Inr False, c2)"
      "mitigation_lock c2" "requests (outs c2) = requests (outs c1) @ [?d2]"
    using answer_taken [OF c1(4) assms(3), of uuid' now' "''''" rs] c1(2) by auto
  obtain rq2 where rq2: "new_action_request (dumps ?d2) = Inr rq2" "req_action_name rq2 = Inr (JStr ''link_down'')"
      "ld_request repr rq2 lp = (Inr (new_action_response (ld_name lp) (JStr uuid') ?ai (JStr ifname) '''' 0 (''Brought down link '' @ ifname)),
         [''sudo config int shutdown '' @ ifname])"
    using down_takes_request [of "JStr uuid'" ?ai ?ctx ifname "JStr ''link_down''" repr lp, OF _ ai(2) _ report_ifname assms(3)]
    by (simp del: dumps.simps) blast
  have "loads (response_value (new_action_response (ls_name sp) (JStr uuid) ?ai (JStr ifname) '''' 0 rs)) =
      Inr (JObj (reply_items ''link_safety'' (JStr uuid) ?ai ifname '''' rs))"
    using reply_parsed [OF _ ai(2), of "JStr uuid"] assms(6) by simp
  then show ?thesis using c1(1-3) rq1 c2 rq2 by blast
qed

text \<open>The handler of the test data, started; a flap plugin and a shell that counts one link up and nine down.\<close>

lemma report_reaches_mitigation_witness:
  "\<exists>c rsp c1 rsp1 c2 d2 rq2 r2.
     anomaly_start ''u'' \<lparr>handler = flap_anomaly, mitigation_lock = False, outs = []\<rparr> = (Inr True, c) \<and>
     anomaly_response ''v'' 3 rsp c = (Inr False, c1) \<and> anomaly_response ''w'' 4 rsp1 c1 = (Inr False, c2) \<and>
     requests (outs c2) = requests (outs c1) @ [d2] \<and> new_action_request (dumps d2) = Inr rq2 \<and>
     ld_request dumps rq2 \<lparr>ld_name = ''link_down'', ld_handle = (), ld_shutdown_flag = False\<rparr> =
       (Inr r2, [''sudo config int shutdown Ethernet0''])"
proof -
  obtain c where c: "anomaly_start ''u'' \<lparr>handler = flap_anomaly, mitigation_lock = False, outs = []\<rparr> = (Inr True, c)"
      "\<not> mitigation_lock c" "handler c = flap_anomaly\<lparr>anomaly_instance_id := JStr ''u'', ct_instance_id := JStr ''u'',
      test_inst := JObj [(''link_flap'', JObj []), (''link_safety'', JObj []), (''link_down'', JObj [])]\<rparr>"
    using flap_started [of "''u''" False "[]"] by auto
  let ?fa = "\<lparr>attr_action_name = JStr ''link_flap'', attr_instance_id = JStr ''u'', attr_anomaly_instance_id = JStr ''u'',
      attr_anomaly_key = JStr '''', attr_context = JObj [], attr_timeout = JInt 0\<rparr>"
  let ?sp = "\<lparr>ls_name = ''link_safety'', ls_handle = (), min_up = 80, ls_shutdown_flag = False\<rparr>"
  have fa: "attrs_wf ?fa" "awaiting ?fa [''link_flap'', ''link_safety'', ''link_down''] (handler c)"
    unfolding c(3) by (simp_all add: attrs_wf_def awaiting_def plain_inst_def flap_anomaly_def dict_get_def)
  obtain fp :: "unit link_flap" where fp: "new_link_flap (\<lambda>_. Inr ()) (JObj []) = Inr fp" by (simp add: new_link_flap_def)
  have name: "lf_name fp = ''link_flap''" using window_new [OF fp] by simp
  have wf: "wf_json (attr_instance_id ?fa)" "wf_json (attr_anomaly_instance_id ?fa)" by simp_all
  have shell: "safety_shell ''show int status | grep -v down | wc -l'' = Inr (count_line 1)"
      "safety_shell ''show int status | grep down | wc -l'' = Inr (count_line 9)" "(1::int) + 9 \<noteq> 0" "''Ethernet0'' \<noteq> ''''"
      "ls_name ?sp = ''link_safety''"
    by (simp_all add: safety_shell_def)
  note report_reaches_mitigation [OF fa(2) c(2) shell(4) fa(1) name shell(5) reply_parsed [OF wf] shell(1-3),
      where dur = 10 and uuid = "''v''" and now = 3 and show_float = "\<lambda>_. ''10.0''" and uuid' = "''w''" and now' = 4 and
        repr = dumps and lp = "\<lparr>ld_name = ''link_down'', ld_handle = (), ld_shutdown_flag = False\<rparr>"]
  with c(1) show ?thesis by (simp del: dumps.simps) blast
qed

end
