(* ===== verification/TestPlugin.thy ===== *)
theory TestPlugin
  imports PluginInterface Config
begin

text \<open>
  The plugin of the tests (\<^verbatim>\<open>tests/plugins/test_action.py\<close>), which answers from a script of the test data
  and, before it does, sends heartbeats at its interval until its pause is over. Its flag \<^verbatim>\<open>valid\<close>
  is never cleared, so the branch for an invalid plugin is left out. Names of actions are strings: a
  configuration with another name is refused by the holder and counts here as \<^verbatim>\<open>TypeError\<close>.
\<close>

section \<open>The plugin\<close>

text \<open>The local variables of \<^verbatim>\<open>request\<close> while it pauses.\<close>

record test_run =
  run_key :: json
  run_resp :: string
  run_n :: int
  run_pause :: int
  run_hb :: json

record test_plugin =
  tp_config :: json
  tp_name :: string
  shutdown_done :: bool
  plugin_inst_index :: int
  plugin_instances :: json
  running :: "test_run option"

definition DEFAULT_RESP :: json where
  "DEFAULT_RESP = JObj [(''foo'', JStr ''bar''), (''IsOk'', JBool True)]"

definition new_test_plugin :: "json \<Rightarrow> config \<Rightarrow> test_plugin res \<times> config" where
  "new_test_plugin conf c0 =
     bind_st (json_index conf ''action_name'', c0) (\<lambda>nm c.
       case nm of
         JStr n \<Rightarrow>
           bind_st (get_plugin_data n c) (\<lambda>d c.
           bind_st (json_get d ''instances'' (JObj []), c) (\<lambda>insts c.
             (Inr \<lparr>tp_config = conf, tp_name = n, shutdown_done = False, plugin_inst_index = 0,
                   plugin_instances = insts, running = None\<rparr>, c)))
       | _ \<Rightarrow> (Inl TypeError, c))"

definition tp_is_valid :: "test_plugin \<Rightarrow> bool" where
  "tp_is_valid p \<longleftrightarrow> \<not> shutdown_done p"

definition tp_shutdown :: "test_plugin \<Rightarrow> test_plugin" where
  "tp_shutdown p = p\<lparr>shutdown_done := True\<rparr>"

text \<open>The key and the response text of the next entry of the script, which starts over at its end.\<close>

definition tp_get_resp :: "test_plugin \<Rightarrow> (json \<times> string) res \<times> test_plugin" where
  "tp_get_resp p0 =
     bind_st (json_get (plugin_instances p0) (show_int (plugin_inst_index p0)) (JObj []), p0) (\<lambda>inst p.
       let p1 = p\<lparr>plugin_inst_index := plugin_inst_index p + 1\<rparr>
       in bind_st (json_len (plugin_instances p1), p1) (\<lambda>n p.
            let p2 = (if plugin_inst_index p \<ge> int n then p\<lparr>plugin_inst_index := 0\<rparr> else p)
            in bind_st (json_get inst REQ_ACTION_DATA DEFAULT_RESP, p2) (\<lambda>resp p.
               bind_st (json_get inst REQ_ANOMALY_KEY (JStr ''''), p) (\<lambda>key p.
                 (Inr (key, dumps resp), p)))))"

definition tp_response :: "action_request \<Rightarrow> json \<Rightarrow> string \<Rightarrow> test_plugin \<Rightarrow> action_response option res" where
  "tp_response rq key resp p =
     bind_res (req_instance_id rq) (\<lambda>inst.
     bind_res (req_anomaly_instance_id rq) (\<lambda>ai.
       Inr (Some (new_action_response (tp_name p) inst ai key resp 0 ''''))))"

text \<open>\<^verbatim>\<open>time.sleep\<close> refuses what is not a number, and a negative number.\<close>

definition sleep_time :: "json \<Rightarrow> int res" where
  "sleep_time v = bind_res (as_int v) (\<lambda>t. if t < 0 then Inl ValueError else Inr t)"

text \<open>One round of the pause: sleep, call back, count; or the end of it with the response.\<close>

definition tp_loop :: "action_request \<Rightarrow> test_run \<Rightarrow> test_plugin \<Rightarrow> test_plugin plugin_step" where
  "tp_loop rq run p =
     (let p0 = p\<lparr>running := None\<rparr> in
      if \<not> shutdown_done p \<and> run_n run < run_pause run then
        (case bind_res (sleep_time (run_hb run)) (\<lambda>t. bind_res (req_instance_id rq) (\<lambda>inst. Inr (t, inst))) of
           Inl e \<Rightarrow> Done (Inl e) p0
         | Inr (t, inst) \<Rightarrow> Beat inst (p\<lparr>running := Some (run\<lparr>run_n := run_n run + t\<rparr>)\<rparr>))
      else Done (tp_response rq (run_key run) (run_resp run) p) p0)"

text \<open>
  The start of \<^verbatim>\<open>request\<close>. The response is built before the checks: after a mismatch of the name the
  changed result code is not in its text, and the message for a missing instance raises.
\<close>

definition tp_begin :: "action_request \<Rightarrow> test_plugin \<Rightarrow> test_plugin plugin_step" where
  "tp_begin rq p0 =
     (case tp_get_resp p0 of
        (Inl e, p) \<Rightarrow> Done (Inl e) p
      | (Inr (key0, resp), p) \<Rightarrow>
          (case bind_res (req_anomaly_key rq) (\<lambda>ak.
                bind_res (req_instance_id rq) (\<lambda>inst.
                bind_res (req_action_name rq) (\<lambda>nm. Inr (ak, inst, nm)))) of
             Inl e \<Rightarrow> Done (Inl e) p
           | Inr (ak, inst, nm) \<Rightarrow>
               let key = (if truthy ak then ak else key0)
               in if nm \<noteq> JStr (tp_name p) then Done (tp_response rq key resp p) p
                  else if \<not> truthy inst then Done (Inl (NameError ''action_name'')) p
                  else
                    (case bind_res (json_get (tp_config p) REQ_PAUSE (JInt 3)) (\<lambda>v.
                          bind_res (int_of_value v) (\<lambda>pause.
                          bind_res (json_get (tp_config p) REQ_HEARTBEAT_INTERVAL (JInt 1)) (\<lambda>hb. Inr (pause, hb)))) of
                       Inl e \<Rightarrow> Done (Inl e) p
                     | Inr (pause, hb) \<Rightarrow>
                         tp_loop rq \<lparr>run_key = key, run_resp = resp, run_n = 0, run_pause = pause, run_hb = hb\<rparr> p)))"

text \<open>One step; the event is whether \<^verbatim>\<open>shutdown\<close> was called since the last one.\<close>

definition tp_step :: "action_request \<Rightarrow> bool \<Rightarrow> test_plugin \<Rightarrow> test_plugin plugin_step" where
  "tp_step rq stop p0 =
     (let p = (if stop then tp_shutdown p0 else p0)
      in case running p of None \<Rightarrow> tp_begin rq p | Some run \<Rightarrow> tp_loop rq run p)"

section \<open>It keeps the contract of a plugin\<close>

definition script_ok :: "test_plugin \<Rightarrow> bool" where
  "script_ok p \<longleftrightarrow> wf_json (plugin_instances p) \<and> (\<forall>run. running p = Some run \<longrightarrow> wf_json (run_key run))"

lemma get_resp_keeps:
  assumes "tp_get_resp p = (r, p')"
  shows "tp_name p' = tp_name p \<and> plugin_instances p' = plugin_instances p \<and> running p' = running p \<and>
    tp_config p' = tp_config p \<and> shutdown_done p' = shutdown_done p"
    "r = Inr (key, resp) \<Longrightarrow> wf_json (plugin_instances p) \<Longrightarrow> wf_json key"
proof -
  show "tp_name p' = tp_name p \<and> plugin_instances p' = plugin_instances p \<and> running p' = running p \<and>
    tp_config p' = tp_config p \<and> shutdown_done p' = shutdown_done p"
    using assms by (auto simp: tp_get_resp_def bind_st_def Let_def split: sum.splits if_splits)
  assume r: "r = Inr (key, resp)" and wf: "wf_json (plugin_instances p)"
  obtain inst where inst: "json_get (plugin_instances p) (show_int (plugin_inst_index p)) (JObj []) = Inr inst"
      "json_get inst REQ_ANOMALY_KEY (JStr []) = Inr key"
    using assms r by (auto simp: tp_get_resp_def bind_st_def Let_def split: sum.splits if_splits)
  have "wf_json inst" by (rule json_get_wf [OF wf _ inst(1)]) simp
  then show "wf_json key" by (rule json_get_wf [OF _ _ inst(2)]) simp
qed

lemma tp_response_answers:
  assumes "tp_response rq key resp p = Inr (Some r)" "wf_json key"
  shows "attrs rq \<noteq> None" "attrs rq = Some a \<Longrightarrow> answers (tp_name p) a r"
  using assms by (auto simp: tp_response_def req_attr_defs split: option.splits)

lemma tp_loop_cases:
  "tp_loop rq run p = Beat i p' \<Longrightarrow> req_instance_id rq = Inr i \<and> tp_name p' = tp_name p \<and> (\<exists>n. running p' = Some (run\<lparr>run_n := n\<rparr>)) \<and>
     plugin_instances p' = plugin_instances p"
  "tp_loop rq run p = Done (Inr x) p' \<Longrightarrow> tp_response rq (run_key run) (run_resp run) p = Inr x"
  by (auto simp: tp_loop_def Let_def bind_res_Inr_iff split: if_splits sum.splits)

lemma tp_begin_cases:
  assumes "tp_begin rq p = st"
  obtains e q where "st = Done (Inl e) q"
  | key resp q run where "tp_get_resp p = (Inr (key, resp), q)"
      "run_key run = (case attrs rq of Some a \<Rightarrow> if truthy (attr_anomaly_key a) then attr_anomaly_key a else key | None \<Rightarrow> key)"
      "st = tp_loop rq run q \<or> st = Done (tp_response rq (run_key run) (run_resp run) q) q"
proof -
  obtain r q where g: "tp_get_resp p = (r, q)" by fastforce
  show thesis
  proof (cases r)
    case (Inl e)
    then have "st = Done (Inl e) q" using assms g by (simp add: tp_begin_def)
    then show thesis by (rule that(1))
  next
    case (Inr kr)
    obtain key resp where kr: "kr = (key, resp)" by fastforce
    show thesis
    proof (cases "attrs rq")
      case None
      then have "st = Done (Inl (AttributeError ''anomaly_key'')) q"
        using assms g Inr kr by (simp add: tp_begin_def req_attr_defs)
      then show thesis by (rule that(1))
    next
      case (Some a)
      let ?key = "if truthy (attr_anomaly_key a) then attr_anomaly_key a else key"
      have "(\<exists>e. st = Done (Inl e) q) \<or>
          (\<exists>pause hb. st = tp_loop rq \<lparr>run_key = ?key, run_resp = resp, run_n = 0, run_pause = pause, run_hb = hb\<rparr> q) \<or>
          st = Done (tp_response rq ?key resp q) q"
        using assms g Inr kr Some by (auto simp: tp_begin_def req_attr_defs Let_def split: if_splits sum.splits)
      then show thesis
      proof (elim disjE exE)
        fix e assume "st = Done (Inl e) q" then show thesis by (rule that(1))
      next
        fix pause hb
        assume "st = tp_loop rq \<lparr>run_key = ?key, run_resp = resp, run_n = 0, run_pause = pause, run_hb = hb\<rparr> q"
        then show thesis
          using that(2) [of key resp q "\<lparr>run_key = ?key, run_resp = resp, run_n = 0, run_pause = pause, run_hb = hb\<rparr>"] g Inr kr Some
          by simp
      next
        assume "st = Done (tp_response rq ?key resp q) q"
        then show thesis
          using that(2) [of key resp q "\<lparr>run_key = ?key, run_resp = resp, run_n = 0, run_pause = 0, run_hb = JNull\<rparr>"] g Inr kr Some
          by simp
      qed
    qed
  qed
qed

lemma begin_key_wf:
  assumes "tp_get_resp p = (Inr (key, resp), q)" "script_ok p" "request_wf rq"
    "run_key run = (case attrs rq of Some a \<Rightarrow> if truthy (attr_anomaly_key a) then attr_anomaly_key a else key | None \<Rightarrow> key)"
  shows "wf_json (run_key run)"
  using assms get_resp_keeps(2) [OF assms(1)]
  by (auto simp: script_ok_def request_wf_def attrs_wf_def split: option.splits)

lemma tp_shutdown_fields [simp]:
  "tp_name (tp_shutdown p) = tp_name p" "plugin_instances (tp_shutdown p) = plugin_instances p"
  "running (tp_shutdown p) = running p" "tp_config (tp_shutdown p) = tp_config p"
  "plugin_inst_index (tp_shutdown p) = plugin_inst_index p" "shutdown_done (tp_shutdown p)"
  by (simp_all add: tp_shutdown_def)

text \<open>What a step does, with the key it answers with.\<close>

lemma tp_step_cases:
  assumes "tp_step rq stop p = st" "\<forall>e q. st \<noteq> Done (Inl e) q"
  obtains q run where "tp_name q = tp_name p" "plugin_instances q = plugin_instances p"
    "script_ok p \<Longrightarrow> request_wf rq \<Longrightarrow> wf_json (run_key run)"
    "tp_loop rq run q = st \<or> st = Done (tp_response rq (run_key run) (run_resp run) q) q"
proof -
  let ?p = "if stop then tp_shutdown p else p"
  have p: "tp_name ?p = tp_name p" "plugin_instances ?p = plugin_instances p" "running ?p = running p" by simp_all
  show thesis
  proof (cases "running p")
    case (Some run)
    then have "tp_loop rq run ?p = st" using assms(1) p by (simp add: tp_step_def Let_def)
    then show thesis using that [OF p(1,2), of run] Some by (auto simp: script_ok_def)
  next
    case None
    then have "tp_begin rq ?p = st" using assms(1) p by (simp add: tp_step_def Let_def)
    then show thesis
    proof (cases rule: tp_begin_cases)
      case (1 e q)
      then show thesis using assms(2) by simp
    next
      case (2 key resp q run)
      note keep = get_resp_keeps(1) [OF 2(1)]
      have "script_ok p \<Longrightarrow> script_ok ?p" using p by (simp add: script_ok_def)
      then show thesis using that [of q run] keep p 2 begin_key_wf [OF 2(1) _ _ 2(2)] by auto
    qed
  qed
qed

lemma tp_response_Some: "tp_response rq key resp p = Inr x \<Longrightarrow> x \<noteq> None"
  by (auto simp: tp_response_def bind_res_Inr_iff)

lemma tp_step_done:
  assumes "tp_step rq e p = Done (Inr x) p'"
  obtains q and run :: test_run where "tp_name q = tp_name p" "script_ok p \<Longrightarrow> request_wf rq \<Longrightarrow> wf_json (run_key run)"
    "tp_response rq (run_key run) (run_resp run) q = Inr x"
proof -
  obtain q run where q: "tp_name q = tp_name p" "script_ok p \<Longrightarrow> request_wf rq \<Longrightarrow> wf_json (run_key run)"
      "tp_loop rq run q = Done (Inr x) p' \<or> Done (Inr x) p' = Done (tp_response rq (run_key run) (run_resp run) q) q"
    by (rule tp_step_cases [OF assms]) (simp, blast)
  then have "tp_response rq (run_key run) (run_resp run) q = Inr x" using tp_loop_cases(2) by auto
  from that [OF q(1) _ this] q(2) show thesis by blast
qed

interpretation scripted: request_plugin tp_step tp_name "\<lambda>e p. e \<or> shutdown_done p" script_ok
proof unfold_locales
  fix rq e p i p'
  assume b: "tp_step rq e p = Beat i p'"
  obtain q run where q: "tp_name q = tp_name p" "plugin_instances q = plugin_instances p"
      "script_ok p \<Longrightarrow> request_wf rq \<Longrightarrow> wf_json (run_key run)" "tp_loop rq run q = Beat i p'"
    by (rule tp_step_cases [OF b]) (simp, blast)
  then show "req_instance_id rq = Inr i \<and> tp_name p' = tp_name p" using tp_loop_cases(1) by auto
  show "script_ok p'" if "request_wf rq" "script_ok p"
    using tp_loop_cases(1) [OF q(4)] q(2) q(3) [OF that(2,1)] that(2) by (auto simp: script_ok_def)
next
  fix rq e p r p' a
  assume d: "tp_step rq e p = Done (Inr (Some r)) p'"
  obtain q and run :: test_run where q: "tp_name q = tp_name p" "script_ok p \<Longrightarrow> request_wf rq \<Longrightarrow> wf_json (run_key run)"
      "tp_response rq (run_key run) (run_resp run) q = Inr (Some r)"
    by (rule tp_step_done [OF d]) blast
  show "attrs rq \<noteq> None" using q(3) by (auto simp: tp_response_def bind_res_Inr_iff req_attr_defs split: option.splits)
  show "answers (tp_name p) a r" if "script_ok p" "attrs rq = Some a" "attrs_wf a"
    using tp_response_answers(2) [OF q(3) q(2) that(2)] that q(1) by (simp add: request_wf_def)
next
  fix rq e p p'
  assume "tp_step rq e p = Done (Inr None) p'"
  then show "e \<or> shutdown_done p" by (rule tp_step_done) (use tp_response_Some in blast)
qed

section \<open>How long a request takes\<close>

text \<open>
  A plugin in its pause, with \<open>n\<close> seconds of it over, that sleeps \<open>h\<close> seconds a round: it sends a heartbeat
  per round and ends with its response after the first round at which the pause is over.
\<close>

lemma pause_ends:
  assumes "running p = Some run" "run_n run = n" "run_pause run = pause" "run_hb run = JInt h" "0 < h"
    "\<not> shutdown_done p" "attrs rq = Some a" "pause \<le> n + int k * h"
    "\<forall>j < k. n + int j * h < pause"
  shows "\<exists>p'. run_plugin (tp_step rq) (replicate (Suc k) False @ es) p =
    (replicate k (attr_instance_id a), Some (tp_response rq (run_key run) (run_resp run) p), p', es)"
  using assms
proof (induction k arbitrary: p run n)
  case 0
  then show ?case by (simp add: tp_step_def tp_loop_def Let_def)
next
  case (Suc k)
  let ?run = "run\<lparr>run_n := n + h\<rparr>" and ?p = "p\<lparr>running := Some (run\<lparr>run_n := n + h\<rparr>)\<rparr>"
  have "n < pause" using Suc.prems(9) by (metis add.right_neutral mult_zero_left of_nat_0 zero_less_Suc)
  then have step: "tp_step rq False p = Beat (attr_instance_id a) ?p"
    using Suc.prems by (simp add: tp_step_def tp_loop_def Let_def sleep_time_def req_attr_defs)
  have less: "n + h + int j * h < pause" if "j < k" for j
    using Suc.prems(9) [rule_format, of "Suc j"] that by (simp add: algebra_simps)
  have "\<exists>p'. run_plugin (tp_step rq) (replicate (Suc k) False @ es) ?p =
      (replicate k (attr_instance_id a), Some (tp_response rq (run_key ?run) (run_resp ?run) ?p), p', es)"
    by (rule Suc.IH [where n = "n + h"]) (use Suc.prems less in \<open>simp_all add: algebra_simps\<close>)
  then show ?case using step by (auto simp: tp_response_def)
qed

lemma pause_without_sleep:
  assumes "running p = Some run" "run_n run < run_pause run" "run_hb run = JInt 0" "\<not> shutdown_done p" "attrs rq = Some a"
  shows "fst (snd (run_plugin (tp_step rq) (replicate m False) p)) = None"
  using assms
proof (induction m arbitrary: p)
  case (Suc m)
  have "tp_step rq False p = Beat (attr_instance_id a) (p\<lparr>running := Some (run\<lparr>run_n := run_n run\<rparr>)\<rparr>)"
    using Suc.prems by (simp add: tp_step_def tp_loop_def Let_def sleep_time_def req_attr_defs)
  with Suc.IH [of "p\<lparr>running := Some (run\<lparr>run_n := run_n run\<rparr>)\<rparr>"] Suc.prems show ?case
    by (auto split: prod.splits)
qed simp

lemma tp_loop_running: "tp_loop rq run (p\<lparr>running := x\<rparr>) = tp_loop rq run p"
  by (auto simp: tp_loop_def tp_response_def Let_def split: sum.splits)

text \<open>A request that the plugin accepts enters the pause with the next entry of the script.\<close>

lemma first_step:
  assumes "tp_get_resp p = (Inr (key, resp), q)" "running p = None" "attrs rq = Some a"
    "attr_action_name a = JStr (tp_name p)" "truthy (attr_instance_id a)" "tp_config p = JObj conf"
    "dict_get conf REQ_PAUSE (JInt 3) = JInt pause" "dict_get conf REQ_HEARTBEAT_INTERVAL (JInt 1) = hb"
  defines "run \<equiv> \<lparr>run_key = (if truthy (attr_anomaly_key a) then attr_anomaly_key a else key), run_resp = resp,
     run_n = 0, run_pause = pause, run_hb = hb\<rparr>"
  shows "run_plugin (tp_step rq) (False # es) p = run_plugin (tp_step rq) (False # es) (q\<lparr>running := Some run\<rparr>)"
proof -
  have "tp_step rq False p = tp_loop rq run q"
    using assms get_resp_keeps(1) [OF assms(1)] by (simp add: tp_step_def tp_begin_def req_attr_defs Let_def)
  then show ?thesis by (simp add: tp_step_def [of rq False "q\<lparr>running := Some run\<rparr>"] tp_loop_running Let_def)
qed

lemma least_rounds:
  assumes "0 < (h::int)"
  obtains k :: nat where "pause \<le> int k * h" "\<forall>j < k. int j * h < pause"
proof -
  have "pause \<le> int (nat pause) * h" using assms by (cases "0 \<le> pause") (auto simp: mult_le_cancel_left1)
  then have "pause \<le> int (LEAST k. pause \<le> int k * h) * h" by (rule LeastI)
  moreover have "\<forall>j < (LEAST k. pause \<le> int k * h). int j * h < pause" using not_less_Least by fastforce
  ultimately show thesis by (rule that)
qed

section \<open>Property\<close>

text \<open>C35. A request to the scripted plugin ends when its heartbeat interval is positive: after the least
  number of intervals that fill the pause, with one heartbeat for each, it answers with the scripted
  data, the request's key first. With the interval 0 and a pause it never ends unless it is shut down.\<close>

theorem scripted_request_ends:
  assumes "tp_get_resp p = (Inr (key, resp), q)" "running p = None" "\<not> shutdown_done p" "attrs rq = Some a"
    "attr_action_name a = JStr (tp_name p)" "truthy (attr_instance_id a)" "tp_config p = JObj conf"
    "dict_get conf REQ_PAUSE (JInt 3) = JInt pause" "dict_get conf REQ_HEARTBEAT_INTERVAL (JInt 1) = JInt h"
  shows "(0 < h \<longrightarrow>
      (\<exists>k p'. pause \<le> int k * h \<and> (\<forall>j < k. int j * h < pause) \<and>
         run_plugin (tp_step rq) (replicate (Suc k) False @ es) p =
           (replicate k (attr_instance_id a),
            Some (Inr (Some (new_action_response (tp_name p) (attr_instance_id a) (attr_anomaly_instance_id a)
              (if truthy (attr_anomaly_key a) then attr_anomaly_key a else key) resp 0 ''''))), p', es))) \<and>
    (h = 0 \<and> 0 < pause \<longrightarrow> (\<forall>m. fst (snd (run_plugin (tp_step rq) (replicate m False) p)) = None))"
proof -
  note keep = get_resp_keeps(1) [OF assms(1)]
  let ?key = "if truthy (attr_anomaly_key a) then attr_anomaly_key a else key"
  let ?run = "\<lparr>run_key = ?key, run_resp = resp, run_n = 0, run_pause = pause, run_hb = JInt h\<rparr>"
  let ?q = "q\<lparr>running := Some ?run\<rparr>"
  note first = first_step [OF assms(1,2,4-9)]
  have "0 < h \<longrightarrow> (\<exists>k p'. pause \<le> int k * h \<and> (\<forall>j < k. int j * h < pause) \<and>
         run_plugin (tp_step rq) (replicate (Suc k) False @ es) p =
           (replicate k (attr_instance_id a), Some (tp_response rq ?key resp ?q), p', es))"
  proof
    assume "0 < h"
    then obtain k where k: "pause \<le> int k * h" "\<forall>j < k. int j * h < pause" by (rule least_rounds)
    have "\<exists>p'. run_plugin (tp_step rq) (replicate (Suc k) False @ es) ?q =
        (replicate k (attr_instance_id a), Some (tp_response rq (run_key ?run) (run_resp ?run) ?q), p', es)"
      by (rule pause_ends [where n = 0 and h = h and pause = pause]) (use k assms keep \<open>0 < h\<close> in simp_all)
    then show "\<exists>k p'. pause \<le> int k * h \<and> (\<forall>j < k. int j * h < pause) \<and>
         run_plugin (tp_step rq) (replicate (Suc k) False @ es) p =
           (replicate k (attr_instance_id a), Some (tp_response rq ?key resp ?q), p', es)"
      using k first [of "replicate k False @ es"] by (intro exI [of _ k]) simp
  qed
  moreover have "tp_response rq ?key resp ?q = Inr (Some (new_action_response (tp_name p) (attr_instance_id a)
      (attr_anomaly_instance_id a) ?key resp 0 ''''))"
    using keep assms(4) by (simp add: tp_response_def req_attr_defs)
  moreover have "fst (snd (run_plugin (tp_step rq) (replicate m False) p)) = None" if "h = 0" "0 < pause" for m
    using pause_without_sleep [of ?q ?run rq a m] that assms keep first by (cases m) simp_all
  ultimately show ?thesis by simp
qed

definition scripted_sample :: "int \<Rightarrow> test_plugin" where
  "scripted_sample h = \<lparr>tp_config = JObj [(REQ_HEARTBEAT_INTERVAL, JInt h)], tp_name = ''t'', shutdown_done = False,
     plugin_inst_index = 0, plugin_instances = JObj [], running = None\<rparr>"

definition scripted_attrs :: action_attrs where
  "scripted_attrs = \<lparr>attr_action_name = JStr ''t'', attr_instance_id = JStr ''i'', attr_anomaly_instance_id = JStr ''a'',
     attr_anomaly_key = JStr '''', attr_context = JObj [], attr_timeout = JInt 0\<rparr>"

lemma scripted_request_ends_witness:
  "(\<exists>k p' r. 3 \<le> int k * 2 \<and> run_plugin (tp_step \<lparr>str_data = '''', req_type = JStr ''action'', attrs = Some scripted_attrs\<rparr>)
      (replicate (Suc k) False) (scripted_sample 2) = (replicate k (JStr ''i''), Some (Inr (Some r)), p', [])) \<and>
   fst (snd (run_plugin (tp_step \<lparr>str_data = '''', req_type = JStr ''action'', attrs = Some scripted_attrs\<rparr>)
      (replicate 9 False) (scripted_sample 0))) = None"
proof -
  let ?rq = "\<lparr>str_data = '''', req_type = JStr ''action'', attrs = Some scripted_attrs\<rparr>"
  have g: "tp_get_resp (scripted_sample h) = (Inr (JStr '''', dumps DEFAULT_RESP), scripted_sample h)" for h
    by (simp add: tp_get_resp_def scripted_sample_def dict_get_def Let_def del: dumps.simps)
  have p: "running (scripted_sample h) = None" "\<not> shutdown_done (scripted_sample h)" "attrs ?rq = Some scripted_attrs"
    "attr_action_name scripted_attrs = JStr (tp_name (scripted_sample h))" "truthy (attr_instance_id scripted_attrs)"
    "tp_config (scripted_sample h) = JObj [(REQ_HEARTBEAT_INTERVAL, JInt h)]"
    "dict_get [(REQ_HEARTBEAT_INTERVAL, JInt h)] REQ_PAUSE (JInt 3) = JInt 3"
    "dict_get [(REQ_HEARTBEAT_INTERVAL, JInt h)] REQ_HEARTBEAT_INTERVAL (JInt 1) = JInt h" for h
    by (simp_all add: scripted_sample_def scripted_attrs_def msg_defs)
  have i: "attr_instance_id scripted_attrs = JStr ''i''" by (simp add: scripted_attrs_def)
  have ends: "(0 < h \<longrightarrow> (\<exists>k p' r. 3 \<le> int k * h \<and> run_plugin (tp_step ?rq) (replicate (Suc k) False) (scripted_sample h) =
        (replicate k (JStr ''i''), Some (Inr (Some r)), p', []))) \<and>
      (h = 0 \<longrightarrow> fst (snd (run_plugin (tp_step ?rq) (replicate 9 False) (scripted_sample h))) = None)" for h
    using scripted_request_ends [OF g p, where es = "[]"] i
    by (simp del: run_plugin.simps replicate.simps) blast
  show ?thesis using ends [of 2] ends [of 0] by (simp del: run_plugin.simps replicate.simps)
qed

end
