(* ===== verification/StandAlone.thy ===== *)
theory StandAlone
  imports LinkMitigation
begin

text \<open>
  The script that runs the three vendor plugins by hand, without a server
  (\<^verbatim>\<open>src/vendors/sonic/actions/test.py\<close>): it asks the detection for a report, then the safety check and the
  mitigation with the report in their context. Its output is left out.
\<close>

section \<open>The script\<close>

definition standalone_request :: "string \<Rightarrow> string \<Rightarrow> json \<Rightarrow> json \<Rightarrow> action_request res" where
  "standalone_request nm inst key ctx =
     new_action_request (dumps (request_dict (JStr nm) (JStr inst) (JStr ''inst_0_flap'') key ctx (JInt 0)))"

text \<open>What follows the report \<open>res\<close>, which is the text of \<^verbatim>\<open>None\<close> when the detection was stopped.\<close>

definition standalone_mitigate ::
  "(json option \<Rightarrow> 'h res) \<Rightarrow> (rat \<Rightarrow> string) \<Rightarrow> (string \<Rightarrow> string res) \<Rightarrow> (json \<Rightarrow> string)
   \<Rightarrow> action_response option \<Rightarrow> unit res \<times> string list"
where
  "standalone_mitigate sub show_float shell repr res =
     bind_st (loads (case res of None \<Rightarrow> ''None'' | Some r \<Rightarrow> response_repr r), []) (\<lambda>d cmds.
     bind_st (json_get d REQ_ANOMALY_KEY (JStr ''NOne''), cmds) (\<lambda>key cmds.
     bind_st (json_get d REQ_ACTION_DATA (JStr ''''), cmds) (\<lambda>adata cmds.
     let ctx = JObj [(''link_flap'', adata)] in
     bind_st (new_link_safety sub (JObj []), cmds) (\<lambda>sp cmds.
     bind_st (standalone_request ''link_safety'' ''inst_0_safety'' key ctx, cmds) (\<lambda>srq cmds.
     bind_st (ls_request show_float shell srq sp, cmds) (\<lambda>_ cmds.
     bind_st (new_link_down sub (JObj []), cmds) (\<lambda>dp cmds.
     bind_st (standalone_request ''link_down'' ''inst_0_link_down'' key ctx, cmds) (\<lambda>drq cmds.
       (case ld_request repr drq dp of (r, new) \<Rightarrow> (bind_res r (\<lambda>_. Inr ()), cmds @ new))))))))))"

text \<open>The script over the events to come; \<open>None\<close> while the detection has not ended.\<close>

definition standalone ::
  "(json option \<Rightarrow> 'h res) \<Rightarrow> (rat \<Rightarrow> string) \<Rightarrow> (string \<Rightarrow> string res) \<Rightarrow> (json \<Rightarrow> string)
   \<Rightarrow> flap_event list \<Rightarrow> (unit res \<times> string list) option"
where
  "standalone sub show_float shell repr es =
     (case bind_res (standalone_request ''link_flap'' ''inst_0_flap'' (JStr ''ethernet92'') (JObj [])) (\<lambda>rq.
           bind_res (new_link_flap sub (JObj [])) (\<lambda>fp. Inr (rq, fp))) of
        Inl e \<Rightarrow> Some (Inl e, [])
      | Inr (rq, fp) \<Rightarrow>
          (case lf_request rq es fp of
             (_, None, _) \<Rightarrow> None
           | (_, Some (Inl e), _) \<Rightarrow> Some (Inl e, [])
           | (_, Some (Inr res), _) \<Rightarrow> Some (standalone_mitigate sub show_float shell repr res)))"

section \<open>Its requests\<close>

lemma standalone_request_parsed:
  assumes "wf_json key" "wf_json ctx"
  obtains rq where "standalone_request nm inst key ctx = Inr rq"
    "str_data rq = dumps (request_dict (JStr nm) (JStr inst) (JStr ''inst_0_flap'') key ctx (JInt 0))"
    "attrs rq = Some \<lparr>attr_action_name = JStr nm, attr_instance_id = JStr inst, attr_anomaly_instance_id = JStr ''inst_0_flap'',
       attr_anomaly_key = key, attr_context = ctx, attr_timeout = JInt 0\<rparr>"
  using request_parsed [of "JStr nm" "JStr inst" "JStr ''inst_0_flap''" key ctx "JInt 0"] assms
  by (simp add: standalone_request_def del: dumps.simps)

text \<open>Detection answers at the second of two down events that are near enough.\<close>

lemma two_downs:
  assumes "new_link_flap sub conf = Inr p" "attrs rq = Some a" "t2 - t1 \<le> 15"
  shows "\<exists>p'. lf_request rq (down_event i t1 # down_event i t2 # es) p =
    ([attr_instance_id a],
     Some (Inr (Some (new_action_response ''link_flap'' (attr_instance_id a) (attr_anomaly_instance_id a) (JStr i)
       (dumps (JObj [(''ifname'', JStr i), (''duration'', JInt (t2 - t1)), (''cnt'', JInt 2)])) 0 ''''))), p', es)"
proof -
  obtain h hb where "p = \<lparr>lf_name = ''link_flap'', flap_int = 15, flap_cnt = 2, flaps = [], shutdown_flag = False,
      hb_int = hb, handle = h\<rparr>"
    using assms(1) by (auto simp: new_link_flap_def bind_res_Inr_iff)
  then show ?thesis using assms(2,3)
    by (simp add: lf_request_def lf_step_def lf_beat_def down_event_def note_down_def flap_interval_def flap_response_def
        get_resp_def list_index_def dict_index_def req_attr_defs Let_def del: dumps.simps)
qed

text \<open>The other two plugins, asked with a context that names the interface.\<close>

lemma safety_answers:
  assumes "wf_json ctx" "context_ifname ctx = Inr (JStr ifname)" "ifname \<noteq> ''''" "u + d \<noteq> 0"
    "shell ''show int status | grep -v down | wc -l'' = Inr (count_line u)"
    "shell ''show int status | grep down | wc -l'' = Inr (count_line d)"
  shows "\<exists>rq res. standalone_request ''link_safety'' ''inst_0_safety'' (JStr ifname) ctx = Inr rq \<and>
    ls_request show_float shell rq \<lparr>ls_name = ''link_safety'', ls_handle = h, min_up = 80, ls_shutdown_flag = False\<rparr> = Inr res"
proof -
  let ?p = "\<lparr>ls_name = ''link_safety'', ls_handle = h, min_up = 80, ls_shutdown_flag = False\<rparr>"
  obtain rq where rq: "standalone_request ''link_safety'' ''inst_0_safety'' (JStr ifname) ctx = Inr rq"
      "str_data rq = dumps (request_dict (JStr ''link_safety'') (JStr ''inst_0_safety'') (JStr ''inst_0_flap'') (JStr ifname) ctx (JInt 0))"
      "attrs rq \<noteq> None"
    by (rule standalone_request_parsed [OF _ assms(1), of "JStr ifname" "''link_safety''" "''inst_0_safety''"]) auto
  obtain a where a: "attrs rq = Some a" using rq(3) by auto
  have "loads (str_data rq) = Inr (request_dict (JStr ''link_safety'') (JStr ''inst_0_safety'') (JStr ''inst_0_flap'') (JStr ifname) ctx (JInt 0))"
    unfolding rq(2) by (rule loads_dumps) (simp add: request_dict_wf assms(1))
  then have l: "loads (str_data rq) = Inr (JObj [(REQ_ACTION_TYPE, JStr REQ_ACTION_TYPE_ACTION), (REQ_ACTION_NAME, JStr ''link_safety''),
      (REQ_INSTANCE_ID, JStr ''inst_0_safety''), (REQ_ANOMALY_INSTANCE_ID, JStr ''inst_0_flap''), (REQ_ANOMALY_KEY, JStr ifname),
      (REQ_CONTEXT, ctx), (REQ_TIMEOUT, JInt 0)])" by (simp add: request_dict_def)
  obtain res where "ls_request show_float shell rq ?p = Inr res"
    using ls_request_known [OF a l _ assms(2), of shell "100 * of_int u / of_int (u + d)" show_float ?p] up_percent_counts [OF assms(5,6)] assms(3,4)
    by (simp add: msg_defs del: dumps.simps of_int_add)
  with rq(1) show ?thesis by blast
qed

lemma down_answers:
  assumes "wf_json ctx" "context_ifname ctx = Inr (JStr ifname)" "ifname \<noteq> ''''"
  shows "\<exists>rq res. standalone_request ''link_down'' ''inst_0_link_down'' (JStr ifname) ctx = Inr rq \<and>
    ld_request repr rq \<lparr>ld_name = ''link_down'', ld_handle = h, ld_shutdown_flag = False\<rparr> = (Inr res, [''sudo config int shutdown '' @ ifname])"
proof -
  let ?p = "\<lparr>ld_name = ''link_down'', ld_handle = h, ld_shutdown_flag = False\<rparr>"
  obtain rq a where rq: "standalone_request ''link_down'' ''inst_0_link_down'' (JStr ifname) ctx = Inr rq"
      "attrs rq = Some a" "attr_context a = ctx"
    by (rule standalone_request_parsed [OF _ assms(1), of "JStr ifname" "''link_down''" "''inst_0_link_down''"]) auto
  then show ?thesis using ld_request_known [OF rq(2) _ assms(3), of repr ?p] assms(2) by simp
qed

section \<open>Property\<close>

text \<open>C36. The script ends with the link down: when two down events of a link come within fifteen seconds
  and the shell prints the counts of links, each with its newline, that are not both 0, it issues exactly one command, which shuts down this link; it does
  so whatever the safety check found.\<close>

theorem standalone_brings_link_down:
  assumes "sub None = Inr h" "sub (Some (JInt 2000)) = Inr h0" "t2 - t1 \<le> 15" "ifname \<noteq> ''''" "u + d \<noteq> 0"
    "shell ''show int status | grep -v down | wc -l'' = Inr (count_line u)"
    "shell ''show int status | grep down | wc -l'' = Inr (count_line d)"
  shows "standalone sub show_float shell repr (down_event ifname t1 # down_event ifname t2 # es) =
    Some (Inr (), [''sudo config int shutdown '' @ ifname])"
proof -
  let ?rep = "[(''ifname'', JStr ifname), (''duration'', JInt (t2 - t1)), (''cnt'', JInt 2)]"
  let ?ctx = "JObj [(''link_flap'', JStr (dumps (JObj ?rep)))]"
  let ?res = "new_action_response ''link_flap'' (JStr ''inst_0_flap'') (JStr ''inst_0_flap'') (JStr ifname) (dumps (JObj ?rep)) 0 ''''"
  obtain fp where fp: "new_link_flap sub (JObj []) = Inr fp" using assms(2) by (simp add: new_link_flap_def)
  obtain frq a where frq: "standalone_request ''link_flap'' ''inst_0_flap'' (JStr ''ethernet92'') (JObj []) = Inr frq"
      "attrs frq = Some a" "attr_instance_id a = JStr ''inst_0_flap''" "attr_anomaly_instance_id a = JStr ''inst_0_flap''"
    by (rule standalone_request_parsed [of "JStr ''ethernet92''" "JObj []" "''link_flap''" "''inst_0_flap''"]) auto
  have run: "standalone sub show_float shell repr (down_event ifname t1 # down_event ifname t2 # es) =
      Some (standalone_mitigate sub show_float shell repr (Some ?res))"
    using two_downs [OF fp frq(2) assms(3), of ifname es] frq fp by (auto simp: standalone_def simp del: dumps.simps)
  have res: "loads (response_repr ?res) = Inr (response_dict ''link_flap'' (JStr ''inst_0_flap'') (JStr ''inst_0_flap'')
      (JStr ifname) (dumps (JObj ?rep)) 0 '''')"
    using response_parsed [of "JStr ''inst_0_flap''" "JStr ''inst_0_flap''" "JStr ifname" "''link_flap''" "dumps (JObj ?rep)" 0 "''''"]
    by (simp add: response_repr_def response_value_def del: dumps.simps)
  have items: "json_get (response_dict ''link_flap'' (JStr ''inst_0_flap'') (JStr ''inst_0_flap'') (JStr ifname) s 0 '''')
        REQ_ANOMALY_KEY (JStr ''NOne'') = Inr (JStr ifname)"
      "json_get (response_dict ''link_flap'' (JStr ''inst_0_flap'') (JStr ''inst_0_flap'') (JStr ifname) s 0 '''')
        REQ_ACTION_DATA (JStr '''') = Inr (JStr s)" for s
    by (simp_all add: response_dict_def msg_defs)
  have ifn: "context_ifname ?ctx = Inr (JStr ifname)"
    using context_ifname_found [of "[(''link_flap'', JStr (dumps (JObj ?rep)))]" ?rep "JStr ifname"] by (simp del: dumps.simps)
  have wf: "wf_json ?ctx" by simp
  obtain srq sres where srq: "standalone_request ''link_safety'' ''inst_0_safety'' (JStr ifname) ?ctx = Inr srq"
      "ls_request show_float shell srq \<lparr>ls_name = ''link_safety'', ls_handle = h, min_up = 80, ls_shutdown_flag = False\<rparr> = Inr sres"
    using safety_answers [OF wf ifn assms(4-7), of show_float h] by (elim exE conjE) (rule that)
  obtain drq dres where drq: "standalone_request ''link_down'' ''inst_0_link_down'' (JStr ifname) ?ctx = Inr drq"
      "ld_request repr drq \<lparr>ld_name = ''link_down'', ld_handle = h, ld_shutdown_flag = False\<rparr> = (Inr dres, [''sudo config int shutdown '' @ ifname])"
    using down_answers [OF wf ifn assms(4), of repr h] by (elim exE conjE) (rule that)
  have "standalone_mitigate sub show_float shell repr (Some ?res) = (Inr (), [''sudo config int shutdown '' @ ifname])"
    using res items srq drq assms(1)
    by (simp add: standalone_mitigate_def new_link_safety_def new_link_down_def Let_def del: dumps.simps)
  with run show ?thesis by simp
qed

lemma standalone_brings_link_down_witness:
  "standalone (\<lambda>_. Inr ()) (\<lambda>_. '''') safety_shell (\<lambda>_. '''') [down_event ''e0'' 100, down_event ''e0'' 110] =
     Some (Inr (), [''sudo config int shutdown e0''])"
  using standalone_brings_link_down [of "\<lambda>_. Inr ()" "()" "()" 110 100 "''e0''" 1 9 safety_shell "\<lambda>_. ''''" "\<lambda>_. ''''" "[]"]
  by (simp add: safety_shell_def)

end
