(* ===== verification/JsonIndent.thy ===== *)
theory JsonIndent
  imports PyJson
begin

text \<open>
  \<^verbatim>\<open>json.dumps(v, indent=4)\<close>, the form in which the test driver writes its configuration files: one line
  per element of a container, and no blank after a comma. The reader of theory \<^verbatim>\<open>PyJson\<close> gets the same
  value back.
\<close>

definition newline :: "nat \<Rightarrow> string" where
  "newline k = CHR 0x0A # replicate (4 * k) (CHR '' '')"

fun dumps4 :: "nat \<Rightarrow> json \<Rightarrow> string"
  and dumps4_elems :: "nat \<Rightarrow> json list \<Rightarrow> string"
  and dumps4_members :: "nat \<Rightarrow> (string \<times> json) list \<Rightarrow> string"
where
  "dumps4 k JNull = ''null''"
| "dumps4 k (JBool b) = (if b then ''true'' else ''false'')"
| "dumps4 k (JInt i) = show_int i"
| "dumps4 k (JStr s) = dumps_str s"
| "dumps4 k (JArr xs) =
     (if xs = [] then ''[]'' else CHR ''['' # newline (Suc k) @ dumps4_elems (Suc k) xs @ newline k @ '']'')"
| "dumps4 k (JObj kvs) =
     (if kvs = [] then ''{}'' else CHR ''{'' # newline (Suc k) @ dumps4_members (Suc k) kvs @ newline k @ ''}'')"
| "dumps4_elems k [] = []"
| "dumps4_elems k [x] = dumps4 k x"
| "dumps4_elems k (x # y # ys) = dumps4 k x @ CHR '','' # newline k @ dumps4_elems k (y # ys)"
| "dumps4_members k [] = []"
| "dumps4_members k [(a, v)] = dumps_str a @ '': '' @ dumps4 k v"
| "dumps4_members k ((a, v) # p # ps) = dumps_str a @ '': '' @ dumps4 k v @ CHR '','' # newline k @ dumps4_members k (p # ps)"

definition dumps_indent :: "json \<Rightarrow> string" where
  "dumps_indent v = dumps4 0 v"

section \<open>Reading it back\<close>

lemma dumps4_first: "\<exists>c cs. dumps4 k v = c # cs \<and> \<not> json_ws c \<and> c \<noteq> CHR '']'' \<and> c \<noteq> CHR ''}''"
proof (cases v)
  case (JInt i)
  obtain c cs where "show_int i = c # cs" "c = CHR ''-'' \<or> is_digit c"
    using show_int_first [of i] by blast
  with show_int_not_word [OF this] JInt show ?thesis by (simp add: json_ws_def)
qed (auto simp: dumps_str_def json_ws_def)

lemma dumps4_elems_first: "xs \<noteq> [] \<Longrightarrow> \<exists>c cs. dumps4_elems k xs = c # cs \<and> \<not> json_ws c \<and> c \<noteq> CHR '']''"
  using dumps4_first [of k "hd xs"] by (cases "(k, xs)" rule: dumps4_elems.cases) auto

lemma dumps4_members_first: "ps \<noteq> [] \<Longrightarrow> \<exists>cs. dumps4_members k ps = CHR 0x22 # cs"
  by (cases "(k, ps)" rule: dumps4_members.cases) (auto simp: dumps_str_def)

lemma skip_newline [simp]: "skip_ws (newline k @ s) = skip_ws s"
proof -
  have "skip_ws (replicate m (CHR '' '') @ s) = skip_ws s" for m by (induction m) simp_all
  then show ?thesis by (simp add: newline_def json_ws_def)
qed

lemma skip_dumps4 [simp]: "skip_ws (dumps4 k v @ r) = dumps4 k v @ r"
  using dumps4_first [of k v] by auto

lemma skip_dumps4_elems [simp]: "xs \<noteq> [] \<Longrightarrow> skip_ws (dumps4_elems k xs @ r) = dumps4_elems k xs @ r"
  using dumps4_elems_first [of xs k] by auto

lemma skip_dumps4_members [simp]: "ps \<noteq> [] \<Longrightarrow> skip_ws (dumps4_members k ps @ r) = dumps4_members k ps @ r"
  using dumps4_members_first [of ps k] by (auto simp: json_ws_def)

lemma stops_newline [simp]: "stops (newline k @ r)"
  by (simp add: newline_def stops_def number_end_def is_digit_def)

lemma jneed_le4:
  "jneed v \<le> 2 * length (dumps4 k v)"
  "jneed_elems xs \<le> 2 * length (dumps4_elems k xs) + 1"
  "jneed_members ps \<le> 2 * length (dumps4_members k ps) + 1"
proof (induction k v and k xs and k ps rule: dumps4_dumps4_elems_dumps4_members.induct)
  case (3 k i)
  have "0 < length (show_int i)" using show_int_first [of i] by auto
  then show ?case by (simp only: jneed.simps dumps4.simps)
next
  case (5 k xs)
  then show ?case by (cases "xs = []") simp_all
next
  case (6 k kvs)
  then show ?case by (cases "kvs = []") simp_all
qed (simp_all add: dumps_str_def)

lemma parse_dumps4:
  "wf_json v \<Longrightarrow> jneed v \<le> n \<Longrightarrow> stops r \<Longrightarrow> parse_val n (dumps4 k v @ r) = Some (v, r)"
  "xs \<noteq> [] \<Longrightarrow> wf_elems xs \<Longrightarrow> jneed_elems xs \<le> n \<Longrightarrow>
   parse_elems n (dumps4_elems k xs @ newline j @ CHR '']'' # r) = Some (xs, r)"
  "ps \<noteq> [] \<Longrightarrow> wf_members ps \<Longrightarrow> jneed_members ps \<le> n \<Longrightarrow>
   parse_members n (dumps4_members k ps @ newline j @ CHR ''}'' # r) = Some (ps, r)"
proof (induction k v and k xs and k ps arbitrary: n r and n r j and n r j
    rule: dumps4_dumps4_elems_dumps4_members.induct)
  case 1
  then show ?case using parse_word by (cases n) auto
next
  case (2 k b)
  then show ?case using parse_word by (cases n; cases b) auto
next
  case (3 k i)
  then show ?case using parse_val_int by (cases n) auto
next
  case (4 k s)
  then show ?case by (cases n) (auto simp: dumps_str_def parse_str_dumps)
next
  case (5 k xs)
  then obtain m where n: "n = Suc m" "jneed_elems xs \<le> m" by (cases n) auto
  show ?case
  proof (cases "xs = []")
    case True
    then show ?thesis using n by simp
  next
    case False
    then obtain d ds where d: "dumps4_elems (Suc k) xs = d # ds" "d \<noteq> CHR '']''" "\<not> json_ws d"
      using dumps4_elems_first by blast
    then show ?thesis using 5 n False by simp
  qed
next
  case (6 k ps)
  then obtain m where n: "n = Suc m" "jneed_members ps \<le> m" by (cases n) auto
  show ?case
  proof (cases "ps = []")
    case True
    then show ?thesis using n by simp
  next
    case False
    then obtain ds where d: "dumps4_members (Suc k) ps = CHR 0x22 # ds"
      using dumps4_members_first by blast
    then show ?thesis using 6 n False by (simp add: dict_of_pairs_distinct)
  qed
next
  case (8 k x)
  then obtain m where "n = Suc m" "jneed x \<le> m" by (cases n) auto
  then show ?case using 8 by simp
next
  case (9 k x y ys)
  then obtain m where "n = Suc m" "jneed x \<le> m" "jneed_elems (y # ys) \<le> m" by (cases n) auto
  then show ?case using 9 by simp
next
  case (11 k a v)
  then obtain m where "n = Suc m" "jneed v \<le> m" by (cases n) auto
  then show ?case using 11 by (simp add: dumps_str_def parse_str_dumps)
next
  case (12 k a v p ps)
  then obtain m where "n = Suc m" "jneed v \<le> m" "jneed_members (p # ps) \<le> m" by (cases n) auto
  then show ?case using 12 by (simp add: dumps_str_def parse_str_dumps)
qed simp_all

lemma loads_dumps_indent: "wf_json v \<Longrightarrow> loads (dumps_indent v) = Inr v"
  using parse_dumps4(1) [of v "2 * length (dumps4 0 v) + 2" "[]" 0] jneed_le4(1) [of v 0]
    skip_dumps4 [of 0 v "[]"]
  by (simp add: loads_def dumps_indent_def)

end
