(* ===== verification/VendorPlugins.thy ===== *)
theory VendorPlugins
  imports Startup LinkMitigation
begin

text \<open>
  The holder class and the vendor plugins together: what importing a plugin's module and creating its
  \<^verbatim>\<open>LoMPlugin\<close> yields when the module is one of \<^verbatim>\<open>vendors/sonic/actions\<close>, and that a process configured with
  these plugins loads them.

  The import searches the module path from its front and takes the first directory that has a module of the
  name; without one it raises. Which directory of the path is \<^verbatim>\<open>vendors/sonic/actions\<close> (\<^verbatim>\<open>holds\<close>) and what the other
  directories offer (\<^verbatim>\<open>elsewhere\<close>) are parameters. The vendor modules in turn import \<^verbatim>\<open>common\<close>, \<^verbatim>\<open>gvars\<close> and \<^verbatim>\<open>clib_bind\<close>,
  which the process has imported itself, and the package \<^verbatim>\<open>swsscommon\<close>, which is a parameter too: \<^term>\<open>None\<close> when it
  is not installed, else its \<^verbatim>\<open>events_init_subscriber\<close>.
\<close>

section \<open>Importing a vendor module\<close>

definition vendor_names :: "string list" where
  "vendor_names = [''link_flap'', ''link_safety'', ''link_down'']"

definition vendor_plugin :: "(json option \<Rightarrow> 'h res) option \<Rightarrow> string \<Rightarrow> json \<Rightarrow> (string \<times> bool) res" where
  "vendor_plugin swsscommon modname config =
     (case swsscommon of
        None \<Rightarrow> Inl (ModuleNotFoundError ''swsscommon'')
      | Some events_init_subscriber \<Rightarrow>
          if modname = ''link_flap'' then
            bind_res (new_link_flap events_init_subscriber config) (\<lambda>p. Inr (lf_getName p, lf_is_valid p))
          else if modname = ''link_safety'' then
            bind_res (new_link_safety events_init_subscriber config) (\<lambda>p. Inr (ls_getName p, ls_is_valid p))
          else
            bind_res (new_link_down events_init_subscriber config) (\<lambda>p. Inr (ld_getName p, ld_is_valid p)))"

fun vendor_module ::
  "(json option \<Rightarrow> 'h res) option \<Rightarrow> (string \<Rightarrow> bool) \<Rightarrow> (string \<Rightarrow> string \<Rightarrow> (json \<Rightarrow> (string \<times> bool) res) option)
   \<Rightarrow> string list \<Rightarrow> string \<Rightarrow> json \<Rightarrow> (string \<times> bool) res"
where
  "vendor_module swsscommon holds elsewhere [] modname config = Inl (ModuleNotFoundError modname)"
| "vendor_module swsscommon holds elsewhere (dir # dirs) modname config =
     (if holds dir \<and> modname \<in> set vendor_names then vendor_plugin swsscommon modname config
      else case elsewhere dir modname of
        Some create \<Rightarrow> create config
      | None \<Rightarrow> vendor_module swsscommon holds elsewhere dirs modname config)"

text \<open>
  A module path on which the vendor modules are found: their directory is on it, and no directory hides them behind a
  module of the same name.
\<close>

definition path_ok :: "(string \<Rightarrow> bool) \<Rightarrow> (string \<Rightarrow> string \<Rightarrow> 'c option) \<Rightarrow> string list \<Rightarrow> bool" where
  "path_ok holds elsewhere dirs \<longleftrightarrow> (\<exists>d \<in> set dirs. holds d) \<and> (\<forall>d \<in> set dirs. \<forall>a \<in> set vendor_names. elsewhere d a = None)"

lemma vendor_module_found:
  assumes "path_ok holds elsewhere dirs" "a \<in> set vendor_names"
  shows "vendor_module sw holds elsewhere dirs a config = vendor_plugin sw a config"
proof -
  have "\<exists>d \<in> set dirs. holds d" "\<forall>d \<in> set dirs. elsewhere d a = None" using assms by (simp_all add: path_ok_def)
  then show ?thesis using assms(2) by (induction dirs) auto
qed

lemma vendor_module_missing:
  assumes "\<not> (\<exists>d \<in> set dirs. holds d)" "\<forall>d \<in> set dirs. elsewhere d a = None"
  shows "vendor_module sw holds elsewhere dirs a config = Inl (ModuleNotFoundError a)"
  using assms by (induction dirs) auto

text \<open>
  A vendor plugin comes up under its module's name when the event service gives a handle; the flap
  detection also needs a heartbeat interval that is a number.
\<close>

lemmas getName_defs = lf_getName_def lf_is_valid_def ls_getName_def ls_is_valid_def ld_getName_def ld_is_valid_def

lemma vendor_module_up:
  assumes "a \<in> set vendor_names" "\<forall>t. is_ok (ev t)" "dict_get kvs REQ_HEARTBEAT_INTERVAL (JInt 2) = JInt t"
    "path_ok holds elsewhere dirs"
  shows "vendor_module (Some ev) holds elsewhere dirs a (JObj kvs) = Inr (a, True)"
proof -
  obtain h g where "ev None = Inr h" "ev (Some (JInt (t * 1000))) = Inr g" using assms(2) unfolding is_ok_iff by blast
  then show ?thesis unfolding vendor_module_found [OF assms(4,1)] using assms(1,3)
    by (auto simp: vendor_names_def vendor_plugin_def new_link_flap_def new_link_safety_def new_link_down_def getName_defs)
qed

section \<open>Loading\<close>

text \<open>A thread that is registered can register an action it does not have yet.\<close>

lemma new_action_registers:
  assumes "client_reg s" "a \<notin> set (client_acts s)"
  shows "\<exists>s'. clib_register_action a s = (Inr (Some 0), s') \<and> client_reg s' \<and> client_acts s' = client_acts s @ [a]"
proof -
  have "fst (clib_register_action a s) = Inr (Some 0)"
    using assms by (auto simp: clib_register_action_def client_acts_def is_initialized_def elim!: client_regE split: option.splits)
  then obtain s' where s': "clib_register_action a s = (Inr (Some 0), s')" by (metis prod.collapse)
  then show ?thesis using register_action_reg [OF assms(1) s'] by simp
qed

lemma new_action_bound:
  assumes "testlib.bound b" "client_reg (tw_lib (lib b))" "a \<notin> set (client_acts (tw_lib (lib b)))"
  shows "\<exists>b'. register_action a b = (Inr (PyBool True), b') \<and> testlib.bound b' \<and> client_reg (tw_lib (lib b')) \<and>
    client_acts (tw_lib (lib b')) = client_acts (tw_lib (lib b)) @ [a]"
proof -
  obtain s' where s': "clib_register_action a (tw_lib (lib b)) = (Inr (Some 0), s')" "client_reg s'"
      "client_acts s' = client_acts (tw_lib (lib b)) @ [a]"
    using new_action_registers [OF assms(2,3)] by blast
  have valid: "validate_dll b" using bound_register(3) [OF assms(1)] by (simp add: validate_dll_def)
  obtain l where l: "register_action a b = (Inr (PyBool True), b\<lparr>lib := l\<rparr>)" "tw_lib l = s'"
    using s'(1) bound_register(2) [OF assms(1)] valid by (auto simp: register_action_def call_ptr_def api_simps)
  then show ?thesis using s'(2,3) assms(1) by auto
qed

text \<open>The holder of a vendor plugin takes it.\<close>

lemma vendor_holder:
  assumes "a \<in> set vendor_names" "\<forall>t. is_ok (ev t)" "dict_get kvs REQ_HEARTBEAT_INTERVAL (JInt 2) = JInt t"
    "path_ok holds elsewhere dirs" "plugin_module fl = a" "register_action a b = (Inr (PyBool True), b')"
  shows "\<exists>h. new_holder (vendor_module (Some ev) holds elsewhere dirs) a fl (JObj kvs) b = (Inr h, b') \<and> plugin h \<and> fdW h = None"
  using vendor_module_up [OF assms(1-4)] assms(5,6) by (simp add: new_holder_def empty_holder_def)

text \<open>What the configuration of the plugins must give: a dictionary for every action, with a number where a
  heartbeat interval is set, and for every plugin the file of its module.\<close>

definition vendor_conf :: "json \<Rightarrow> bool" where
  "vendor_conf conf \<longleftrightarrow> (\<forall>a \<in> set vendor_names. \<exists>kvs t. json_get conf a (JObj []) = Inr (JObj kvs) \<and>
     dict_get kvs REQ_HEARTBEAT_INTERVAL (JInt 2) = JInt t)"

definition vendor_files :: "(string, json) dict \<Rightarrow> bool" where
  "vendor_files items \<longleftrightarrow> list_all (\<lambda>(a, path). a \<in> set vendor_names \<and>
     (case path of JStr fl \<Rightarrow> plugin_module fl = a | _ \<Rightarrow> False)) items"

lemma vendor_plugins_load:
  assumes "loader env = vendor_module (Some ev) holds elsewhere" "\<forall>t. is_ok (ev t)" "vendor_conf conf" "vendor_files items"
    "path_ok holds elsewhere (sys_path p)" "testlib.bound (pbind p)" "client_reg (proc_lib p)" "client_acts (proc_lib p) = keys (active p)" "distinct (keys items)"
    "set (keys items) \<inter> set (keys (active p)) = {}" "all_valid (active p)"
  shows "\<exists>p'. load_plugins env conf items p = (Inr True, p') \<and> all_valid (active p') \<and>
    client_acts (proc_lib p') = keys (active p') \<and>
    keys (active p') = keys (active p) @ filter (enabled conf) (keys items) \<and>
    (filter (enabled conf) (keys items) \<noteq> [] \<or> pipe_list p \<noteq> [] \<longrightarrow> pipe_list p' \<noteq> [])"
  using assms(4-)
proof (induction items arbitrary: p)
  case Nil
  then show ?case by simp
next
  case (Cons item items)
  obtain a fl where item: "item = (a, JStr fl)" "a \<in> set vendor_names" "plugin_module fl = a"
    using Cons.prems(1) by (cases item) (auto simp: vendor_files_def split: json.splits)
  have files: "vendor_files items" using Cons.prems(1) by (simp add: vendor_files_def)
  have dist: "distinct (keys items)" "set (keys items) \<inter> set (keys (active p)) = {}" "a \<notin> set (keys items)"
      "a \<notin> set (keys (active p))"
    using Cons.prems(6,7) item(1) by auto
  obtain kvs t where conf: "json_get conf a (JObj []) = Inr (JObj kvs)" "dict_get kvs REQ_HEARTBEAT_INTERVAL (JInt 2) = JInt t"
    using assms(3) item(2) by (auto simp: vendor_conf_def)
  let ?d = "dict_get kvs ''disable'' (JBool False)"
  have en: "enabled conf a \<longleftrightarrow> \<not> truthy ?d" using conf(1) by (simp add: enabled_def)
  show ?case
  proof (cases "truthy ?d")
    case True
    then show ?thesis using Cons.IH [OF files Cons.prems(2-5) dist(1,2) Cons.prems(8)] item(1) conf(1) en by simp
  next
    case False
    obtain b where b: "register_action a (pbind p) = (Inr (PyBool True), b)" "testlib.bound b" "client_reg (tw_lib (lib b))"
        "client_acts (tw_lib (lib b)) = keys (active p) @ [a]"
      using new_action_bound [OF Cons.prems(3,4)] Cons.prems(5) dist(4) by (metis (no_types, lifting))
    obtain h where h: "new_holder (loader env (sys_path p)) a fl (JObj kvs) (pbind p) = (Inr h, b)" "plugin h" "fdW h = None"
      using vendor_holder [OF item(2) assms(2) conf(2) Cons.prems(2) item(3) b(1)] assms(1) by auto
    obtain rd wr where fds: "os_pipe env (ticks p) = (rd, wr)" by fastforce
    let ?h = "h\<lparr>fdW := Some wr, fdR := Some rd\<rparr>"
    let ?q = "p\<lparr>pbind := b, ticks := Suc (ticks p), active := AList.update a ?h (active p),
        pipe_list := AList.update rd a (pipe_list p)\<rparr>"
    have step: "load_plugins env conf (item # items) p = load_plugins env conf items ?q"
      using item(1) conf(1) False h fds by (simp add: is_valid_def set_pipe_def)
    have ks: "keys (active ?q) = keys (active p) @ [a]" using dist(4) by (simp add: update_fresh)
    then have kset: "set (keys (active ?q)) = insert a (set (keys (active p)))" by simp
    have valid: "all_valid (active ?q)" using all_valid_update [OF Cons.prems(8), of ?h a] h(2) by simp
    have q: "path_ok holds elsewhere (sys_path ?q)" "testlib.bound (pbind ?q)" "client_reg (proc_lib ?q)"
        "client_acts (proc_lib ?q) = keys (active ?q)"
      using b(2-4) ks Cons.prems(2) by simp_all
    have "set (keys items) \<inter> set (keys (active ?q)) = {}" unfolding kset using dist(2,3) by (simp del: set_map)
    moreover have "pipe_list ?q \<noteq> []" by (cases "pipe_list p") auto
    ultimately show ?thesis using Cons.IH [OF files q dist(1) _ valid] unfolding step ks using item(1) en False by simp
  qed
qed

text \<open>The file of a vendor's module is configured with or without a directory.\<close>

lemma module_of_file:
  assumes "a \<in> set vendor_names"
  shows "plugin_module (path_join d (a @ ''.py'')) = a"
proof -
  have a: "CHR ''/'' \<notin> set a" "\<not> startswith (a @ ''.py'') ''/''"
    using assms by (auto simp: vendor_names_def startswith_def)
  obtain e where e: "path_join d (a @ ''.py'') = e @ a @ ''.py''" "e = [] \<or> last e = CHR ''/''"
  proof (cases "d = [] \<or> endswith d ''/''")
    case True
    then show thesis using that [of d] a(2) by (auto simp: path_join_def endswith_iff)
  next
    case False
    then show thesis using that [of "d @ ''/''"] a(2) by (auto simp: path_join_def)
  qed
  then have "endswith (path_join d (a @ ''.py'')) ''.py''" "take (length (path_join d (a @ ''.py'')) - 3) (path_join d (a @ ''.py'')) = e @ a"
    by (auto simp: endswith_iff)
  then show ?thesis using basename_file [OF a(1) e(2)] by (simp add: plugin_module_def)
qed

lemma vendor_files_of:
  assumes "\<forall>(a, path) \<in> set items. a \<in> set vendor_names \<and> (\<exists>d. path = JStr (path_join d (a @ ''.py'')))"
  shows "vendor_files items"
  using assms module_of_file by (fastforce simp: vendor_files_def list_all_iff)

section \<open>Property\<close>

text \<open>C21. A process configured with the vendor plugins starts. Once its client is registered with the test
  library, when the vendors' directory is on the module path and no directory of the path has other modules of these
  names, the package \<^verbatim>\<open>swsscommon\<close> is installed and gives handles, every heartbeat interval that is configured is a
  number, every plugin's path is a directory with the file of its module, and the queues have room, loading succeeds
  for every choice of the three plugins: there is a holder, with its plugin in it, for exactly the plugins that
  are not disabled, the library knows exactly their actions, and the server finds the registration of the
  client followed by one for each of these actions.\<close>

theorem vendor_plugins_start:
  assumes "loader env = vendor_module (Some ev) holds elsewhere" "\<forall>t. is_ok (ev t)"
    "\<exists>d \<in> set (sys_path p). holds d" "\<forall>d \<in> set (sys_path p). \<forall>a \<in> set vendor_names. elsewhere d a = None"
    "\<forall>a \<in> set vendor_names. \<exists>kvs t. json_get conf a (JObj []) = Inr (JObj kvs) \<and>
       dict_get kvs REQ_HEARTBEAT_INTERVAL (JInt 2) = JInt t"
    "\<forall>(a, path) \<in> set items. a \<in> set vendor_names \<and> (\<exists>d. path = JStr (path_join d (a @ ''.py'')))"
    "distinct (keys items)" "testlib.bound (pbind p)" "tw_up (lib (pbind p))" "active p = []"
    "\<forall>j < num_svc (tw_lib (lib (pbind p))). to_server (tw_lib (lib (pbind p))) j = [] \<and>
       Suc (length items) \<le> capacity (svc_c2s (get_svc j (tw_lib (lib (pbind p)))))"
    "register_client nm (pbind p) = (Inr v, b)" "ret_truth v"
  shows "\<exists>p' i. load_plugins env conf items (p\<lparr>pbind := b\<rparr>) = (Inr True, p') \<and>
    keys (active p') = filter (enabled conf) (keys items) \<and> list_all (\<lambda>(a, h). is_valid h) (active p') \<and>
    client_acts (tw_lib (lib (pbind p'))) = keys (active p') \<and>
    to_server (tw_lib (lib (pbind p'))) i =
      msg_register_client nm # map (\<lambda>a. msg_register_action a (Some nm)) (keys (active p'))"
proof -
  note reg = register_client_lib [OF assms(8,12,13)]
  have "client_up (proc_lib p)" using assms(9) by (simp add: tw_up_def)
  from register_reg [OF this reg(1)] have lib: "client_reg (tw_lib (lib b))" "client_acts (tw_lib (lib b)) = []" by simp_all
  have conf: "vendor_conf conf" using assms(5) by (simp add: vendor_conf_def)
  let ?p = "p\<lparr>pbind := b\<rparr>"
  have path: "path_ok holds elsewhere (sys_path ?p)" using assms(3,4) by (simp add: path_ok_def)
  obtain p' where p': "load_plugins env conf items ?p = (Inr True, p')" "all_valid (active p')"
      "client_acts (proc_lib p') = keys (active p')"
    using vendor_plugins_load [OF assms(1,2) conf vendor_files_of [OF assms(6)] path] reg(2) lib assms(7,10)
    by (auto simp: all_valid_def)
  obtain i where "announcing (proc_lib p') i nm 0 (announcement nm (keys (active p')))" "keys (active p') = filter (enabled conf) (keys items)"
    using startup_queues [OF assms(8-13) p'(1) assms(7)] by blast
  then show ?thesis using p'
    by (intro exI [of _ p'] exI [of _ i]) (simp add: announcing_def announcement_def all_valid_def is_valid_def)
qed

text \<open>A process whose module path has the vendors' directory behind another one, and a package that gives handles.\<close>

definition vendor_env :: "string \<Rightarrow> test_world surroundings" where
  "vendor_env vdir = quiet_env\<lparr>loader :=
     vendor_module (Some (\<lambda>_. Inr ())) (\<lambda>d. d = vdir) (\<lambda>d nm. if nm = ''test_action'' then Some (\<lambda>_. Inr (nm, True)) else None)\<rparr>"

lemma vendor_plugins_start_witness:
  "\<exists>p' i. load_plugins (vendor_env ''/p/vendors/sonic/actions'') (JObj [])
       [(''link_flap'', JStr ''link_flap.py''), (''link_down'', JStr ''x/link_down.py'')]
       (fresh_proc\<lparr>sys_path := [''/p'', ''/p/vendors/sonic/actions''], pbind := live_bind\<rparr>) = (Inr True, p') \<and>
     keys (active p') = [''link_flap'', ''link_down''] \<and> length (to_server (tw_lib (lib (pbind p'))) i) = 3"
proof -
  let ?env = "vendor_env ''/p/vendors/sonic/actions''"
  let ?p = "fresh_proc\<lparr>sys_path := [''/p'', ''/p/vendors/sonic/actions'']\<rparr>"
  let ?other = "\<lambda>(d :: string) nm. if nm = ''test_action'' then Some (\<lambda>_. Inr (nm, True)) else None"
  let ?items = "[(''link_flap'', JStr ''link_flap.py''), (''link_down'', JStr ''x/link_down.py'')]"
  have ld: "loader ?env = vendor_module (Some (\<lambda>_. Inr ())) (\<lambda>d. d = ''/p/vendors/sonic/actions'') ?other"
    by (simp add: vendor_env_def)
  have path: "\<exists>d \<in> set (sys_path ?p). d = ''/p/vendors/sonic/actions''"
      "\<forall>d \<in> set (sys_path ?p). \<forall>a \<in> set vendor_names. ?other d a = None"
    by (simp_all add: vendor_names_def)
  have "''link_flap.py'' = path_join [] (''link_flap'' @ ''.py'')" "''x/link_down.py'' = path_join ''x'' (''link_down'' @ ''.py'')"
    by (simp_all add: path_join_def startswith_def endswith_def)
  then have files: "\<forall>(a, path) \<in> set ?items. a \<in> set vendor_names \<and> (\<exists>d. path = JStr (path_join d (a @ ''.py'')))"
    by (auto simp: vendor_names_def)
  have conf: "\<forall>a \<in> set vendor_names. \<exists>kvs t. json_get (JObj []) a (JObj []) = Inr (JObj kvs) \<and>
      dict_get kvs REQ_HEARTBEAT_INTERVAL (JInt 2) = JInt t"
    by (simp add: dict_get_def)
  have room: "\<forall>j < num_svc (tw_lib (lib (pbind ?p))). to_server (tw_lib (lib (pbind ?p))) j = [] \<and>
      Suc (length ?items) \<le> capacity (svc_c2s (get_svc j (tw_lib (lib (pbind ?p)))))"
    using loaded_bind_facts
    by (simp add: fresh_proc_def live_proc_def loaded_bind_eq create_cache_services_def num_svc_def get_svc_def
      to_server_def new_cache_service_def CACHE_LIMIT_def Let_def new_clib_def)
  have en: "filter (enabled (JObj [])) (keys ?items) = keys ?items" by (simp add: enabled_def dict_get_def)
  have p: "testlib.bound (pbind ?p)" "tw_up (lib (pbind ?p))" "active ?p = []" "register_client ''proc_0'' (pbind ?p) = (Inr (PyBool True), live_bind)"
    using fresh_facts fresh_register by simp_all
  have "\<forall>t. is_ok ((\<lambda>_. Inr ()) (t :: json option) :: unit res)" by simp
  from vendor_plugins_start [OF ld this path conf files _ p(1-3) room p(4)]
  obtain p' i where "load_plugins ?env (JObj []) ?items (?p\<lparr>pbind := live_bind\<rparr>) = (Inr True, p')" "keys (active p') = keys ?items"
      "to_server (tw_lib (lib (pbind p'))) i =
      msg_register_client ''proc_0'' # map (\<lambda>a. msg_register_action a (Some ''proc_0'')) (keys (active p'))"
    unfolding en by auto
  then show ?thesis by (intro exI [of _ p'] exI [of _ i]) simp
qed

end
