(* ===== verification/DriverConfig.thy ===== *)
theory DriverConfig
  imports PluginProc JsonIndent
begin

text \<open>
  How the test driver prepares a test case (\<^verbatim>\<open>tests/test_main.py\<close>, \<^verbatim>\<open>run_a_testcase\<close> up to the start of the
  processes): it writes the configuration files and the rc file, extends the module path, initialises the
  client library and starts one thread per process. The driver runs in test mode, and the configuration of
  \<^verbatim>\<open>common.py\<close> in its process is the one the test library reads. The effect of a shell command on the
  files is a parameter; a file can be written once \<^verbatim>\<open>mkdir -p\<close> made its directory.
\<close>

section \<open>State\<close>

text \<open>
  Beside the bindings: \<^verbatim>\<open>sys.path\<close>, the default \<^verbatim>\<open>global_rc\<close> data, which a test case overwrites in place, the
  module's globals set from test data, the process threads with the rc file each was given, and the shell
  commands issued.
\<close>

record driver =
  drv_bind :: "test_world bind"
  drv_path :: "string list"
  drv_rc :: "(string, json) dict"
  drv_globals :: "(string, json) dict"
  lst_procs :: "(string, string) dict"
  drv_shell :: "string list"

abbreviation drv_cfg :: "driver \<Rightarrow> config" where
  "drv_cfg d \<equiv> tw_cfg (lib (drv_bind d))"

definition on_cfg :: "(config \<Rightarrow> config) \<Rightarrow> driver \<Rightarrow> driver" where
  "on_cfg f d = d\<lparr>drv_bind := (drv_bind d)\<lparr>lib := (lib (drv_bind d))\<lparr>tw_cfg := f (drv_cfg d)\<rparr>\<rparr>\<rparr>"

definition write_text :: "string \<Rightarrow> string \<Rightarrow> driver \<Rightarrow> driver" where
  "write_text fl txt = on_cfg (\<lambda>c. c\<lparr>files := (files c)(fl \<mapsto> txt)\<rparr>)"

type_synonym shell = "string \<Rightarrow> (string \<rightharpoonup> string) \<Rightarrow> (string \<rightharpoonup> string)"

section \<open>Operations\<close>

definition clean_dir :: "shell \<Rightarrow> string \<Rightarrow> driver \<Rightarrow> driver" where
  "clean_dir sh dir d =
     (let cmds = [''rm -rf '' @ dir, ''mkdir -p '' @ dir]
      in on_cfg (\<lambda>c. c\<lparr>files := fold sh cmds (files c)\<rparr>) (d\<lparr>drv_shell := drv_shell d @ cmds\<rparr>))"

text \<open>Keys with a leading underscore are comments; what is written is returned.\<close>

definition public :: "(string, json) dict \<Rightarrow> (string, json) dict" where
  "public kvs = filter (\<lambda>(k, v). \<not> private_key k) kvs"

definition write_conf :: "string \<Rightarrow> json \<Rightarrow> driver \<Rightarrow> (string, json) dict res \<times> driver" where
  "write_conf fl v d =
     (case v of
        JObj kvs \<Rightarrow>
          let data = public kvs
          in (Inr data, write_text fl (dumps_indent (JObj data)) d)
      | _ \<Rightarrow> (Inl (AttributeError ''items''), d))"

text \<open>A file named by an attribute of the rc data, in the directory of the test case.\<close>

definition write_named :: "string \<Rightarrow> string \<Rightarrow> json res \<Rightarrow> driver \<Rightarrow> (string, json) dict res \<times> driver" where
  "write_named cfg_dir attr v d =
     bind_st (bind_res (dict_index (drv_rc d) attr) (join_value cfg_dir), d) (\<lambda>fl d.
     bind_st (v, d) (\<lambda>x d. write_conf fl x d))"

text \<open>\<^verbatim>\<open>os.path.join(rc.get("config_running_path", TMP_DIR), test_case)\<close>\<close>

definition case_dir :: "string \<Rightarrow> string \<Rightarrow> (string, json) dict \<Rightarrow> string res" where
  "case_dir tmp_dir test_case rc =
     (case dict_get rc ''config_running_path'' (JStr tmp_dir) of
        JStr base \<Rightarrow> Inr (path_join base test_case)
      | _ \<Rightarrow> Inl TypeError)"

text \<open>The processes, the actions, the bindings, the data of the test plugins, and the rc file.\<close>

record prepared =
  procs_conf :: "(string, json) dict"
  actions_conf :: "(string, json) dict"
  bindings_conf :: "(string, json) dict"
  plugin_data :: "(string, json) dict"
  rc_file :: string

text \<open>
  The files. A test case with rc data of its own raises, since \<^verbatim>\<open>test_data\<close> is not a name there;
  \<^term>\<open>Inr None\<close> is the return for missing data.
\<close>

definition prepare :: "shell \<Rightarrow> string \<Rightarrow> string \<Rightarrow> (string, json) dict \<Rightarrow> driver \<Rightarrow> prepared option res \<times> driver" where
  "prepare sh tmp_dir test_case tc d0 =
     (if ''global_rc'' \<in> set (keys tc) then (Inl (NameError ''test_data''), d0)
      else if drv_rc d0 = [] \<or> tc = [] then (Inr None, d0)
      else
        bind_st (case_dir tmp_dir test_case (drv_rc d0), d0) (\<lambda>cfg_dir d.
          let d1 = clean_dir sh cfg_dir d;
              d2 = d1\<lparr>drv_rc := AList.update ''config_running_path'' (JStr cfg_dir) (drv_rc d1)\<rparr>
          in bind_st (write_named cfg_dir ''proc_plugins_conf_name'' (dict_index tc ''procs_config'') d2) (\<lambda>procs d.
             bind_st (write_named cfg_dir ''actions_config_name'' (dict_index tc ''actions_config'') d) (\<lambda>acts d.
             bind_st (write_named cfg_dir ''actions_binding_config_name'' (dict_index tc ''bindings_config'') d) (\<lambda>binds d.
             bind_st (write_named cfg_dir ''plugins_data_name'' (Inr (dict_get tc ''test_plugin_data'' (JObj []))) d) (\<lambda>data d.
             bind_st (bind_res (dict_index (drv_rc d) ''global_rc_name'') (join_value cfg_dir), d) (\<lambda>fl d.
               (Inr (Some \<lparr>procs_conf = procs, actions_conf = acts, bindings_conf = binds, plugin_data = data, rc_file = fl\<rparr>),
                write_text fl (dumps_indent (JObj (drv_rc d))) d))))))))"

text \<open>The directories the driver itself puts on the module path.\<close>

definition driver_paths :: "string \<Rightarrow> string list" where
  "driver_paths dir = [dir, path_join dir ''lib'', path_join dir ''plugins'', path_join (path_join dir ''..'') ''src'']"

definition load_procs :: "string list \<Rightarrow> string \<Rightarrow> driver \<Rightarrow> driver" where
  "load_procs procs fl d = d\<lparr>lst_procs := fold (\<lambda>nm ths. AList.update nm fl ths) procs (lst_procs d)\<rparr>"

text \<open>
  From the files to the threads; \<open>init\<close> is \<^verbatim>\<open>clib_bind.c_lib_init\<close>, whose result is not looked at.
\<close>

definition launch :: "(test_world bind \<Rightarrow> bool res \<times> test_world bind) \<Rightarrow> string \<Rightarrow> prepared \<Rightarrow> driver \<Rightarrow> unit res \<times> driver" where
  "launch init dir c d0 =
     (let d1 = d0\<lparr>drv_globals := fold (\<lambda>(k, v) g. AList.update k v g) (plugin_data c) (drv_globals d0),
                  drv_path := fold syspath_append (driver_paths dir) (drv_path d0)\<rparr>;
          d2 = on_cfg (set_global_rc_file (rc_file c)) d1
      in case init (drv_bind d2) of
           (Inl e, b) \<Rightarrow> (Inl e, d2\<lparr>drv_bind := b\<rparr>)
         | (Inr ok, b) \<Rightarrow>
             let d3 = d2\<lparr>drv_bind := b\<rparr> in
             bind_st (bind_res (dict_index (drv_rc d3) ''plugin_paths'') py_iter, d3) (\<lambda>vs d.
               case append_paths dir vs (drv_path d) of
                 (Inl e, ps) \<Rightarrow> (Inl e, d\<lparr>drv_path := ps\<rparr>)
               | (Inr _, ps) \<Rightarrow> (Inr (), load_procs (keys (procs_conf c)) (rc_file c) (d\<lparr>drv_path := ps\<rparr>))))"

definition start_testcase ::
  "shell \<Rightarrow> (test_world bind \<Rightarrow> bool res \<times> test_world bind) \<Rightarrow> string \<Rightarrow> string \<Rightarrow> string \<Rightarrow> (string, json) dict \<Rightarrow> driver
   \<Rightarrow> prepared option res \<times> driver"
where
  "start_testcase sh init dir tmp_dir test_case tc d =
     bind_st (prepare sh tmp_dir test_case tc d) (\<lambda>c d.
       case c of
         None \<Rightarrow> (Inr None, d)
       | Some c \<Rightarrow> bind_st (launch init dir c d) (\<lambda>_ d. (Inr (Some c), d)))"

section \<open>Reading the files back\<close>

lemma path_join_absolute: "startswith b ''/'' \<Longrightarrow> path_join a b = b"
  by (simp add: path_join_def)

lemma path_join_eq: "\<not> startswith b ''/'' \<Longrightarrow> \<not> startswith c ''/'' \<Longrightarrow> path_join a b = path_join a c \<longleftrightarrow> b = c"
  by (auto simp: path_join_def)

lemma absolute_join: "startswith a ''/'' \<Longrightarrow> startswith (path_join a b) ''/''"
  by (auto simp: path_join_def startswith_iff)

lemma absolute_not_Nil: "startswith a ''/'' \<Longrightarrow> a \<noteq> ''''"
  by (auto simp: startswith_def)

text \<open>
  Configuration data \<open>rc\<close> names \<open>fl\<close> for an attribute in an absolute directory, and the file system has the
  file with a value printed into it.
\<close>

definition conf_in :: "(string \<rightharpoonup> string) \<Rightarrow> string \<Rightarrow> (string, json) dict \<Rightarrow> string \<Rightarrow> (string, json) dict \<Rightarrow> bool" where
  "conf_in fs dir rc attr kvs \<longleftrightarrow> wf_json (JObj kvs) \<and>
     (\<exists>nm. map_of rc attr = Some (JStr nm) \<and> fs (path_join dir nm) = Some (dumps_indent (JObj kvs)))"

lemma conf_file_data:
  assumes "rc_data c = rc" "rc \<noteq> []" "map_of rc ''config_running_path'' = Some (JStr dir)" "startswith dir ''/''"
    "conf_in (files c) dir rc attr kvs"
  shows "\<exists>fl. conf_file attr False c = (Inr fl, c) \<and> get_data fl c = Inr (JObj kvs) \<and> fl \<noteq> ''''"
proof -
  obtain nm where nm: "map_of rc attr = Some (JStr nm)" "files c (path_join dir nm) = Some (dumps_indent (JObj kvs))"
    using assms(5) by (auto simp: conf_in_def)
  have ne: "path_join dir nm \<noteq> ''''" "dir \<noteq> ''''" using absolute_not_Nil [OF absolute_join [OF assms(4)]] absolute_not_Nil [OF assms(4)] by auto
  have "get_config_path False c = (Inr dir, c)"
    using assms(1-3) path_join_absolute [OF assms(4)] by (simp add: get_config_path_def dict_index_def)
  then have "conf_file attr False c = (Inr (path_join dir nm), c)"
    using assms(1,2) nm ne by (simp add: conf_file_def dict_index_def)
  moreover have "get_data (path_join dir nm) c = Inr (JObj kvs)"
    using get_data_found [OF nm(2) ne(1)] loads_dumps_indent assms(5) by (simp add: conf_in_def)
  ultimately show ?thesis using ne(1) by blast
qed

lemma data_read:
  assumes "conf_fn c = (Inr fl, c)" "get_data fl c = Inr (JObj kvs)"
  shows "data_for conf_fn nm c = (Inr (if nm = '''' then JObj kvs else dict_get kvs nm (JObj [])), c)"
  using assms by (simp add: data_for_def)

lemma rc_loaded:
  assumes "rc_data c = []" "files c (global_rc_file c) = Some txt" "loads txt = Inr (JObj kvs)"
    "list_all (\<lambda>r. r \<in> set (keys kvs)) reqd"
  shows "get_global_rc c =
    (Inr (filter (\<lambda>(k, v). \<not> private_key k) kvs), c\<lparr>rc_data := filter (\<lambda>(k, v). \<not> private_key k) kvs\<rparr>)"
  using assms by (simp add: get_global_rc_def Let_def)

text \<open>The first call that needs the rc data reads them; it is as if they had been there.\<close>

lemma conf_file_fresh:
  assumes "get_global_rc c = (Inr rc, c\<lparr>rc_data := rc\<rparr>)" "rc \<noteq> []"
  shows "conf_file attr s c = conf_file attr s (c\<lparr>rc_data := rc\<rparr>)"
proof -
  have "get_config_path s c = get_config_path s (c\<lparr>rc_data := rc\<rparr>)"
    using assms by (simp add: get_config_path_def)
  then show ?thesis by (simp add: conf_file_def)
qed

text \<open>
  What the configuration files hold, read by the functions of \<^verbatim>\<open>common.py\<close>.
\<close>

definition reads_config :: "config \<Rightarrow> prepared \<Rightarrow> bool" where
  "reads_config c p \<longleftrightarrow>
     fst (is_running_config_available c) = Inr True \<and>
     fst (get_actions_conf c) = Inr (JObj (actions_conf p)) \<and>
     (\<forall>nm. fst (get_proc_plugins_conf nm c) =
        Inr (if nm = '''' then JObj (procs_conf p) else dict_get (procs_conf p) nm (JObj []))) \<and>
     (\<forall>nm. fst (get_actions_binding_conf nm c) =
        Inr (if nm = '''' then JObj (bindings_conf p) else dict_get (bindings_conf p) nm (JObj []))) \<and>
     (\<forall>nm. fst (get_plugin_data nm c) =
        Inr (if nm = '''' then JObj (plugin_data p) else dict_get (plugin_data p) nm (JObj [])))"

lemma prepared_config_read:
  assumes "get_global_rc c = (Inr rc, c\<lparr>rc_data := rc\<rparr>)" "rc \<noteq> []"
    "map_of rc ''config_running_path'' = Some (JStr dir)" "startswith dir ''/''"
    "conf_in (files c) dir rc ''proc_plugins_conf_name'' (procs_conf p)"
    "conf_in (files c) dir rc ''actions_config_name'' (actions_conf p)"
    "conf_in (files c) dir rc ''actions_binding_config_name'' (bindings_conf p)"
    "conf_in (files c) dir rc ''plugins_data_name'' (plugin_data p)"
  shows "reads_config c p"
proof -
  let ?c = "c\<lparr>rc_data := rc\<rparr>"
  have data: "\<exists>fl. conf_file attr False c = (Inr fl, ?c) \<and> conf_file attr False ?c = (Inr fl, ?c) \<and>
      get_data fl ?c = Inr (JObj kvs) \<and> fl \<noteq> ''''"
    if "conf_in (files c) dir rc attr kvs" for attr kvs
    using conf_file_data [of ?c rc dir attr kvs] that assms(2-4) conf_file_fresh [OF assms(1,2)] by simp
  obtain f1 f2 f3 f4 where f:
    "conf_file ''proc_plugins_conf_name'' False c = (Inr f1, ?c)" "get_data f1 ?c = Inr (JObj (procs_conf p))" "f1 \<noteq> ''''"
    "conf_file ''actions_config_name'' False c = (Inr f2, ?c)" "get_data f2 ?c = Inr (JObj (actions_conf p))" "f2 \<noteq> ''''"
    "conf_file ''actions_config_name'' False ?c = (Inr f2, ?c)"
    "conf_file ''actions_binding_config_name'' False c = (Inr f3, ?c)" "get_data f3 ?c = Inr (JObj (bindings_conf p))" "f3 \<noteq> ''''"
    "conf_file ''actions_binding_config_name'' False ?c = (Inr f3, ?c)"
    "conf_file ''plugins_data_name'' False c = (Inr f4, ?c)" "get_data f4 ?c = Inr (JObj (plugin_data p))"
    using assms(5-8) data by metis
  then show ?thesis
    by (simp add: reads_config_def conf_files is_running_config_available_def get_actions_conf_def get_proc_plugins_conf_def
        get_actions_binding_conf_def get_plugin_data_def data_for_def)
qed

section \<open>Well-formed test data\<close>

definition file_attrs :: "string list" where
  "file_attrs = [''proc_plugins_conf_name'', ''actions_config_name'', ''actions_binding_config_name'',
     ''plugins_data_name'', ''global_rc_name'']"

text \<open>The default rc data: an absolute running path, five different file names, the module paths.\<close>

definition default_rc_ok :: "string \<Rightarrow> (string, json) dict \<Rightarrow> bool" where
  "default_rc_ok tmp_dir rc \<longleftrightarrow> wf_json (JObj rc) \<and> ''config_static_path'' \<in> set (keys rc) \<and>
     (case dict_get rc ''config_running_path'' (JStr tmp_dir) of JStr b \<Rightarrow> startswith b ''/'' | _ \<Rightarrow> False) \<and>
     list_all (\<lambda>a. case map_of rc a of Some (JStr nm) \<Rightarrow> \<not> startswith nm ''/'' | _ \<Rightarrow> False) file_attrs \<and>
     distinct (map (map_of rc) file_attrs) \<and>
     (case map_of rc ''plugin_paths'' of
        Some (JArr vs) \<Rightarrow> list_all (\<lambda>v. case v of JStr _ \<Rightarrow> True | _ \<Rightarrow> False) vs
      | _ \<Rightarrow> False)"

definition conf_attrs :: "string list" where
  "conf_attrs = [''procs_config'', ''actions_config'', ''bindings_config'']"

definition testcase_ok :: "(string, json) dict \<Rightarrow> bool" where
  "testcase_ok tc \<longleftrightarrow> wf_json (JObj tc) \<and> ''global_rc'' \<notin> set (keys tc) \<and>
     list_all (\<lambda>a. case map_of tc a of Some (JObj _) \<Rightarrow> True | _ \<Rightarrow> False) conf_attrs \<and>
     (case dict_get tc ''test_plugin_data'' (JObj []) of JObj _ \<Rightarrow> True | _ \<Rightarrow> False)"

text \<open>A section of the test data without its comments.\<close>

definition conf_of :: "(string, json) dict \<Rightarrow> string \<Rightarrow> (string, json) dict" where
  "conf_of tc a = (case dict_get tc a (JObj []) of JObj kvs \<Rightarrow> public kvs | _ \<Rightarrow> [])"

lemma option_cases:
  "(case v of Some (JStr n) \<Rightarrow> P n | _ \<Rightarrow> False) \<longleftrightarrow> (\<exists>n. v = Some (JStr n) \<and> P n)"
  "(case v of Some (JObj kvs) \<Rightarrow> True | _ \<Rightarrow> False) \<longleftrightarrow> (\<exists>kvs. v = Some (JObj kvs))"
  "(case v of Some (JArr vs) \<Rightarrow> Q vs | _ \<Rightarrow> False) \<longleftrightarrow> (\<exists>vs. v = Some (JArr vs) \<and> Q vs)"
  by (auto split: option.split json.split)

lemma value_cases:
  "(case w of JStr n \<Rightarrow> P n | _ \<Rightarrow> False) \<longleftrightarrow> (\<exists>n. w = JStr n \<and> P n)"
  "(case w of JObj kvs \<Rightarrow> True | _ \<Rightarrow> False) \<longleftrightarrow> (\<exists>kvs. w = JObj kvs)"
  by (auto split: option.split json.split)

lemma file_names:
  assumes "default_rc_ok tmp rc"
  obtains n1 n2 n3 n4 n5 where
    "map_of rc ''proc_plugins_conf_name'' = Some (JStr n1)" "map_of rc ''actions_config_name'' = Some (JStr n2)"
    "map_of rc ''actions_binding_config_name'' = Some (JStr n3)" "map_of rc ''plugins_data_name'' = Some (JStr n4)"
    "map_of rc ''global_rc_name'' = Some (JStr n5)" "distinct [n1, n2, n3, n4, n5]"
    "list_all (\<lambda>n. \<not> startswith n ''/'') [n1, n2, n3, n4, n5]"
proof -
  have ok: "list_all (\<lambda>a. \<exists>nm. map_of rc a = Some (JStr nm) \<and> \<not> startswith nm ''/'') file_attrs"
    "distinct (map (map_of rc) file_attrs)"
    using assms by (simp_all only: default_rc_ok_def option_cases)
  have "\<exists>nm. map_of rc a = Some (JStr nm) \<and> \<not> startswith nm ''/''" if "a \<in> set file_attrs" for a
    using ok(1) that by (simp add: list_all_iff)
  then obtain f where f: "\<And>a. a \<in> set file_attrs \<Longrightarrow> map_of rc a = Some (JStr (f a)) \<and> \<not> startswith (f a) ''/''" by metis
  have "distinct (map (\<lambda>a. Some (JStr (f a))) file_attrs)"
    using ok(2) f by (metis (no_types, lifting) map_cong)
  then show thesis
    using that [of "f ''proc_plugins_conf_name''" "f ''actions_config_name''" "f ''actions_binding_config_name''"
        "f ''plugins_data_name''" "f ''global_rc_name''"] f
    by (simp add: file_attrs_def)
qed

lemma wf_public: "wf_json (JObj kvs) \<Longrightarrow> wf_json (JObj (public kvs))"
proof -
  have "wf_members kvs \<Longrightarrow> wf_members (public kvs)" by (induction kvs) (auto simp: public_def)
  moreover have "distinct (keys kvs) \<Longrightarrow> distinct (keys (public kvs))"
    unfolding public_def by (rule distinct_map_filter)
  ultimately show "wf_json (JObj kvs) \<Longrightarrow> wf_json (JObj (public kvs))" by simp
qed

lemma conf_section:
  assumes "testcase_ok tc"
  shows "a \<in> set conf_attrs \<Longrightarrow> \<exists>kvs. dict_index tc a = Inr (JObj kvs) \<and> conf_of tc a = public kvs \<and> wf_json (JObj (conf_of tc a))"
    "\<exists>kvs. dict_get tc ''test_plugin_data'' (JObj []) = JObj kvs \<and> conf_of tc ''test_plugin_data'' = public kvs \<and>
       wf_json (JObj (conf_of tc ''test_plugin_data''))"
proof -
  have wf: "wf_json v" if "map_of tc k = Some v" for k v
    using assms wf_members_index [OF _ that] by (simp add: testcase_ok_def)
  { assume "a \<in> set conf_attrs"
    moreover have "list_all (\<lambda>a. \<exists>kvs. map_of tc a = Some (JObj kvs)) conf_attrs"
      using assms by (simp only: testcase_ok_def option_cases)
    ultimately obtain kvs where "map_of tc a = Some (JObj kvs)" by (auto simp: list_all_iff)
    then show "\<exists>kvs. dict_index tc a = Inr (JObj kvs) \<and> conf_of tc a = public kvs \<and> wf_json (JObj (conf_of tc a))"
      using wf_public [OF wf] by (simp add: dict_index_Inr conf_of_def dict_get_def) }
  obtain kvs where kvs: "dict_get tc ''test_plugin_data'' (JObj []) = JObj kvs"
    using assms unfolding testcase_ok_def value_cases by blast
  then have "wf_json (JObj kvs)" using wf by (cases "map_of tc ''test_plugin_data''") (force simp: dict_get_def)+
  then show "\<exists>kvs. dict_get tc ''test_plugin_data'' (JObj []) = JObj kvs \<and> conf_of tc ''test_plugin_data'' = public kvs \<and>
       wf_json (JObj (conf_of tc ''test_plugin_data''))"
    using kvs wf_public by (simp add: conf_of_def)
qed

section \<open>A test case is prepared\<close>

lemma write_text_fields [simp]:
  "drv_rc (write_text fl txt d) = drv_rc d" "lst_procs (write_text fl txt d) = lst_procs d"
  "files (drv_cfg (write_text fl txt d)) = (files (drv_cfg d))(fl \<mapsto> txt)"
  "tw_lib (lib (drv_bind (write_text fl txt d))) = tw_lib (lib (drv_bind d))"
  "tw_env (lib (drv_bind (write_text fl txt d))) = tw_env (lib (drv_bind d))"
  "clib_dll (drv_bind (write_text fl txt d)) = clib_dll (drv_bind d)" "TEST_RUN (drv_bind (write_text fl txt d)) = TEST_RUN (drv_bind d)"
  by (simp_all add: write_text_def on_cfg_def)

lemma write_named_eq:
  "map_of (drv_rc d) attr = Some (JStr nm) \<Longrightarrow> write_named dir attr (Inr (JObj kvs)) d =
     (Inr (public kvs), write_text (path_join dir nm) (dumps_indent (JObj (public kvs))) d)"
  by (simp add: write_named_def write_conf_def dict_index_def Let_def)

text \<open>
  What is prepared: the five files, the sections of the test case as they were written, the rc data with the new
  path, and nothing of the library or the threads.
\<close>

definition files_ready :: "(string \<rightharpoonup> string) \<Rightarrow> string \<Rightarrow> (string, json) dict \<Rightarrow> prepared \<Rightarrow> bool" where
  "files_ready fs dir rc p \<longleftrightarrow>
     conf_in fs dir rc ''proc_plugins_conf_name'' (procs_conf p) \<and>
     conf_in fs dir rc ''actions_config_name'' (actions_conf p) \<and>
     conf_in fs dir rc ''actions_binding_config_name'' (bindings_conf p) \<and>
     conf_in fs dir rc ''plugins_data_name'' (plugin_data p) \<and>
     startswith (rc_file p) ''/'' \<and> fs (rc_file p) = Some (dumps_indent (JObj rc))"

definition sections_of :: "(string, json) dict \<Rightarrow> prepared \<Rightarrow> bool" where
  "sections_of tc p \<longleftrightarrow>
     procs_conf p = conf_of tc ''procs_config'' \<and> actions_conf p = conf_of tc ''actions_config'' \<and>
     bindings_conf p = conf_of tc ''bindings_config'' \<and> plugin_data p = conf_of tc ''test_plugin_data''"

lemma prepare_writes:
  assumes "testcase_ok tc" "default_rc_ok tmp (drv_rc d)"
  shows "\<exists>p d' dir. prepare sh tmp test_case tc d = (Inr (Some p), d') \<and> sections_of tc p \<and> startswith dir ''/'' \<and>
    case_dir tmp test_case (drv_rc d) = Inr dir \<and>
    drv_rc d' = AList.update ''config_running_path'' (JStr dir) (drv_rc d) \<and>
    files_ready (files (drv_cfg d')) dir (drv_rc d') p \<and>
    lst_procs d' = lst_procs d \<and> clib_dll (drv_bind d') = clib_dll (drv_bind d) \<and> TEST_RUN (drv_bind d') = TEST_RUN (drv_bind d) \<and>
    tw_lib (lib (drv_bind d')) = tw_lib (lib (drv_bind d)) \<and> tw_env (lib (drv_bind d')) = tw_env (lib (drv_bind d))"
proof -
  obtain base where base: "dict_get (drv_rc d) ''config_running_path'' (JStr tmp) = JStr base" "startswith base ''/''"
    using assms(2) unfolding default_rc_ok_def value_cases by blast
  obtain n1 n2 n3 n4 n5 where n:
    "map_of (drv_rc d) ''proc_plugins_conf_name'' = Some (JStr n1)" "map_of (drv_rc d) ''actions_config_name'' = Some (JStr n2)"
    "map_of (drv_rc d) ''actions_binding_config_name'' = Some (JStr n3)" "map_of (drv_rc d) ''plugins_data_name'' = Some (JStr n4)"
    "map_of (drv_rc d) ''global_rc_name'' = Some (JStr n5)" and dist: "distinct [n1, n2, n3, n4, n5]"
    and rel: "list_all (\<lambda>n. \<not> startswith n ''/'') [n1, n2, n3, n4, n5]"
    using file_names [OF assms(2)] by blast
  obtain pc ac bc td where sec:
    "dict_index tc ''procs_config'' = Inr (JObj pc)" "conf_of tc ''procs_config'' = public pc"
    "dict_index tc ''actions_config'' = Inr (JObj ac)" "conf_of tc ''actions_config'' = public ac"
    "dict_index tc ''bindings_config'' = Inr (JObj bc)" "conf_of tc ''bindings_config'' = public bc"
    "dict_get tc ''test_plugin_data'' (JObj []) = JObj td" "conf_of tc ''test_plugin_data'' = public td"
    and wf: "wf_json (JObj (public pc))" "wf_json (JObj (public ac))" "wf_json (JObj (public bc))" "wf_json (JObj (public td))"
    using conf_section [OF assms(1)] by (simp add: conf_attrs_def) metis
  let ?dir = "path_join base test_case"
  let ?rc = "AList.update ''config_running_path'' (JStr ?dir) (drv_rc d)"
  let ?p = "\<lparr>procs_conf = public pc, actions_conf = public ac, bindings_conf = public bc, plugin_data = public td,
      rc_file = path_join ?dir n5\<rparr>"
  let ?w = "\<lambda>nm kvs. write_text (path_join ?dir nm) (dumps_indent (JObj kvs))"
  let ?d2 = "(clean_dir sh ?dir d)\<lparr>drv_rc := ?rc\<rparr>"
  let ?d' = "?w n5 ?rc (?w n4 (public td) (?w n3 (public bc) (?w n2 (public ac) (?w n1 (public pc) ?d2))))"
  have m: "map_of ?rc ''proc_plugins_conf_name'' = Some (JStr n1)" "map_of ?rc ''actions_config_name'' = Some (JStr n2)"
    "map_of ?rc ''actions_binding_config_name'' = Some (JStr n3)" "map_of ?rc ''plugins_data_name'' = Some (JStr n4)"
    "map_of ?rc ''global_rc_name'' = Some (JStr n5)"
    using n by (simp_all add: update_conv')
  have dir: "startswith ?dir ''/''" "case_dir tmp test_case (drv_rc d) = Inr ?dir"
    using absolute_join base by (simp_all add: case_dir_def)
  have keeps: "drv_rc (clean_dir sh ?dir d) = drv_rc d" "lst_procs ?d2 = lst_procs d" "clib_dll (drv_bind ?d2) = clib_dll (drv_bind d)"
    "TEST_RUN (drv_bind ?d2) = TEST_RUN (drv_bind d)" "tw_lib (lib (drv_bind ?d2)) = tw_lib (lib (drv_bind d))"
    "tw_env (lib (drv_bind ?d2)) = tw_env (lib (drv_bind d))"
    by (simp_all add: clean_dir_def on_cfg_def Let_def)
  have rc: "drv_rc d \<noteq> []" "tc \<noteq> []" "''global_rc'' \<notin> set (keys tc)"
    using assms sec(1) by (auto simp: default_rc_ok_def testcase_ok_def)
  have eq: "prepare sh tmp test_case tc d = (Inr (Some ?p), ?d')"
    using m sec rc dir(2) keeps(1)
    by (simp add: prepare_def write_named_eq dict_index_def del: dumps4.simps)
  have neq: "path_join ?dir a = path_join ?dir b \<longleftrightarrow> a = b" if "a \<in> set [n1, n2, n3, n4, n5]" "b \<in> set [n1, n2, n3, n4, n5]" for a b
    using rel that path_join_eq by (auto simp: list_all_iff)
  have ready: "files_ready (files (drv_cfg ?d')) ?dir ?rc ?p"
    using m wf dist absolute_join [OF dir(1)] by (simp add: files_ready_def conf_in_def neq)
  show ?thesis
    by (rule exI [of _ ?p], rule exI [of _ ?d'], rule exI [of _ ?dir])
      (use eq ready dir keeps sec in \<open>simp add: sections_of_def\<close>)
qed

section \<open>A test case is started\<close>

text \<open>A configuration whose rc file was just set, in the way a test case is prepared.\<close>

definition configured :: "json list \<Rightarrow> config \<Rightarrow> prepared \<Rightarrow> bool" where
  "configured vs c p \<longleftrightarrow> rc_data c = [] \<and> global_rc_file c = rc_file p \<and>
     (\<exists>dir rc. files_ready (files c) dir rc p \<and> wf_json (JObj rc) \<and> startswith dir ''/'' \<and>
        map_of rc ''config_running_path'' = Some (JStr dir) \<and> ''config_static_path'' \<in> set (keys rc) \<and>
        map_of rc ''plugin_paths'' = Some (JArr vs) \<and> list_all (\<lambda>v. \<exists>s. v = JStr s) vs)"

lemma map_of_public: "\<not> private_key k \<Longrightarrow> map_of (public kvs) k = map_of kvs k"
  by (simp add: public_def map_of_filter_public)

lemma configured_rc:
  assumes "configured vs c p"
  obtains dir rc where "get_global_rc c = (Inr rc, c\<lparr>rc_data := rc\<rparr>)" "rc \<noteq> []" "startswith dir ''/''"
    "map_of rc ''config_running_path'' = Some (JStr dir)" "conf_in (files c) dir rc ''proc_plugins_conf_name'' (procs_conf p)"
    "conf_in (files c) dir rc ''actions_config_name'' (actions_conf p)"
    "conf_in (files c) dir rc ''actions_binding_config_name'' (bindings_conf p)"
    "conf_in (files c) dir rc ''plugins_data_name'' (plugin_data p)"
    "map_of rc ''plugin_paths'' = Some (JArr vs)" "list_all (\<lambda>v. \<exists>s. v = JStr s) vs"
proof -
  obtain dir rc where c: "rc_data c = []" "global_rc_file c = rc_file p" "files_ready (files c) dir rc p" "wf_json (JObj rc)"
      "startswith dir ''/''" "map_of rc ''config_running_path'' = Some (JStr dir)" "''config_static_path'' \<in> set (keys rc)"
      "map_of rc ''plugin_paths'' = Some (JArr vs)" "list_all (\<lambda>v. \<exists>s. v = JStr s) vs"
    using assms unfolding configured_def by blast
  have keyd: "map_of rc a = Some v \<Longrightarrow> a \<in> set (keys rc)" for a v by (force dest: map_of_SomeD)
  have "list_all (\<lambda>r. r \<in> set (keys rc)) reqd"
    using c(3,6,7) keyd by (auto simp: files_ready_def conf_in_def reqd_def simp del: set_map)
  then have g: "get_global_rc c = (Inr (public rc), c\<lparr>rc_data := public rc\<rparr>)"
    using rc_loaded [OF c(1) _ loads_dumps_indent [OF c(4)]] c(2,3) by (simp add: files_ready_def public_def)
  have priv: "\<not> private_key a" if "hd a \<noteq> CHR ''_''" "a \<noteq> []" for a using that by (cases a) (simp_all add: private_key_def startswith_def)
  have path: "map_of (public rc) ''config_running_path'' = Some (JStr dir)" using c(6) by (simp add: map_of_public priv)
  then have "public rc \<noteq> []" by auto
  from that [OF g this c(5) path] show thesis
    using c(3,8,9) by (simp add: files_ready_def conf_in_def map_of_public priv)
qed

lemma configured_reads: "configured vs c p \<Longrightarrow> reads_config c p"
  by (erule configured_rc) (rule prepared_config_read)

text \<open>The calls a process makes when it starts, one after the other.\<close>

lemma configured_start:
  assumes "configured vs c p"
  shows "\<exists>c' rc. get_global_rc c = (Inr rc, c') \<and> dict_get rc ''plugin_paths'' (JArr []) = JArr vs \<and>
    list_all (\<lambda>v. \<exists>s. v = JStr s) vs \<and> is_running_config_available c' = (Inr True, c') \<and>
    get_actions_conf c' = (Inr (JObj (actions_conf p)), c') \<and>
    (\<forall>nm. get_proc_plugins_conf nm c' = (Inr (if nm = '''' then JObj (procs_conf p) else dict_get (procs_conf p) nm (JObj [])), c'))"
proof -
  obtain dir rc where c: "get_global_rc c = (Inr rc, c\<lparr>rc_data := rc\<rparr>)" "rc \<noteq> []" "startswith dir ''/''"
    "map_of rc ''config_running_path'' = Some (JStr dir)" "conf_in (files c) dir rc ''proc_plugins_conf_name'' (procs_conf p)"
    "conf_in (files c) dir rc ''actions_config_name'' (actions_conf p)"
    "conf_in (files c) dir rc ''actions_binding_config_name'' (bindings_conf p)"
    and paths: "map_of rc ''plugin_paths'' = Some (JArr vs)" "list_all (\<lambda>v. \<exists>s. v = JStr s) vs"
    by (rule configured_rc [OF assms])
  let ?c = "c\<lparr>rc_data := rc\<rparr>"
  have data: "\<exists>fl. conf_file attr False ?c = (Inr fl, ?c) \<and> get_data fl ?c = Inr (JObj kvs) \<and> fl \<noteq> ''''"
    if "conf_in (files c) dir rc attr kvs" for attr kvs
    using conf_file_data [of ?c rc dir attr kvs] that c(2-4) by simp
  obtain f1 where f1: "conf_file ''proc_plugins_conf_name'' False ?c = (Inr f1, ?c)" "get_data f1 ?c = Inr (JObj (procs_conf p))" "f1 \<noteq> ''''"
    using data [OF c(5)] by blast
  obtain f2 where f2: "conf_file ''actions_config_name'' False ?c = (Inr f2, ?c)" "get_data f2 ?c = Inr (JObj (actions_conf p))" "f2 \<noteq> ''''"
    using data [OF c(6)] by blast
  obtain f3 where f3: "conf_file ''actions_binding_config_name'' False ?c = (Inr f3, ?c)" "f3 \<noteq> ''''"
    using data [OF c(7)] by blast
  show ?thesis
    by (intro exI [of _ ?c] exI [of _ rc])
      (use paths c(1) f1 f2 f3 in \<open>simp add: conf_files is_running_config_available_def get_actions_conf_def
        get_proc_plugins_conf_def data_for_def dict_get_def\<close>)
qed

lemma append_paths_str: "list_all (\<lambda>v. \<exists>s. v = JStr s) vs \<Longrightarrow> \<exists>ps'. append_paths dir vs ps = (Inr (), ps')"
  by (induction vs arbitrary: ps) auto

text \<open>The path without a slash at its end, as it is appended to the module path.\<close>

definition module_dir :: "string \<Rightarrow> string \<Rightarrow> string" where
  "module_dir dir s = (let path = path_join dir s in if endswith path ''/'' then butlast path else path)"

lemma syspath_append_has: "(if endswith path ''/'' then butlast path else path) \<in> set (syspath_append path ps)"
  by (simp add: syspath_append_def Let_def)

lemma syspath_append_grows: "d \<in> set ps \<Longrightarrow> d \<in> set (syspath_append path ps)"
  by (simp add: syspath_append_def Let_def)

lemma append_paths_keeps: "append_paths dir vs ps = (Inr (), ps') \<Longrightarrow> d \<in> set ps \<Longrightarrow> d \<in> set ps'"
  by (induction vs arbitrary: ps) (auto simp: bind_st_def syspath_append_grows split: sum.splits)

lemma append_paths_has: "append_paths dir vs ps = (Inr (), ps') \<Longrightarrow> JStr s \<in> set vs \<Longrightarrow> module_dir dir s \<in> set ps'"
proof (induction vs arbitrary: ps)
  case (Cons v vs)
  obtain rp where rp: "join_value dir v = Inr rp" "append_paths dir vs (syspath_append rp ps) = (Inr (), ps')"
    using Cons.prems(1) by (cases "join_value dir v") simp_all
  show ?case
  proof (cases "v = JStr s")
    case True
    then have rp_eq: "rp = path_join dir s" using rp(1) by simp
    show ?thesis
      using append_paths_keeps [OF rp(2) syspath_append_has] unfolding rp_eq module_dir_def Let_def .
  next
    case False
    then show ?thesis using Cons rp(2) by simp
  qed
qed simp

text \<open>The test library reads the number of processes from the files.\<close>

lemma library_started:
  assumes "clib_dll b = No_Dll" "TEST_RUN b" "tw_lib (lib b) = new_clib"
    "get_proc_plugins_conf '''' (tw_cfg (lib b)) = (Inr (JObj procs), cfg)" "0 < length procs" "length procs \<le> 100"
  shows "\<exists>b'. c_lib_init nms dll test_api (test_init pipes) b = (Inr True, b') \<and> tw_cfg (lib b') = cfg \<and>
    clib_dll b' = Test_Dll \<and> tw_lib (lib b') = create_cache_services pipes (length procs) new_clib \<and>
    testlib.bound b' \<and> tw_env (lib b') = tw_env (lib b)"
  using assms by (simp add: c_lib_init_def test_init_def clib_init_def testlib.bound_def validate_dll_def list_all_iff test_pointers_bound)

lemma proc_threads: "nm \<in> set nms \<Longrightarrow> map_of (fold (\<lambda>nm ths. AList.update nm fl ths) nms ths) nm = Some fl"
proof (induction nms arbitrary: ths rule: rev_induct)
  case (snoc m nms)
  then show ?case by (cases "nm = m") (simp_all add: update_conv')
qed simp

lemma num_svc_created: "num_svc (create_cache_services pipes n s) = n"
  by (simp add: create_cache_services_def num_svc_def Let_def)

lemma get_conf_env: "same_env c (snd (get_proc_plugins_conf nm c))"
proof -
  obtain r c' where f: "conf_file ''proc_plugins_conf_name'' False c = (r, c')" by fastforce
  then have "same_env c c'" using conf_file_env [of c "''proc_plugins_conf_name''" False] by simp
  then show ?thesis using f
    by (cases r) (auto simp: get_proc_plugins_conf_def data_for_def conf_files bind_st_def split: sum.splits)
qed

text \<open>The state the threads are started in.\<close>

lemma launch_runs:
  assumes "files_ready (files (drv_cfg d)) cdir (drv_rc d) p" "wf_json (JObj (drv_rc d))"
    "map_of (drv_rc d) ''config_running_path'' = Some (JStr cdir)" "startswith cdir ''/''"
    "''config_static_path'' \<in> set (keys (drv_rc d))" "map_of (drv_rc d) ''plugin_paths'' = Some (JArr vs)"
    "list_all (\<lambda>v. \<exists>s. v = JStr s) vs" "clib_dll (drv_bind d) = No_Dll" "TEST_RUN (drv_bind d)"
    "tw_lib (lib (drv_bind d)) = new_clib" "0 < length (procs_conf p)" "length (procs_conf p) \<le> 100"
  shows "\<exists>d'. launch (c_lib_init nms dll test_api (test_init pipes)) dir p d = (Inr (), d') \<and>
    configured vs (set_global_rc_file (rc_file p) (drv_cfg d')) p \<and>
    tw_lib (lib (drv_bind d')) = create_cache_services pipes (length (procs_conf p)) new_clib \<and> clib_dll (drv_bind d') = Test_Dll \<and>
    testlib.bound (drv_bind d') \<and> tw_env (lib (drv_bind d')) = tw_env (lib (drv_bind d)) \<and>
    (\<forall>nm \<in> set (keys (procs_conf p)). map_of (lst_procs d') nm = Some (rc_file p))"
proof -
  let ?d1 = "d\<lparr>drv_globals := fold (\<lambda>(k, v) g. AList.update k v g) (plugin_data p) (drv_globals d),
      drv_path := fold syspath_append (driver_paths dir) (drv_path d)\<rparr>"
  let ?d2 = "on_cfg (set_global_rc_file (rc_file p)) ?d1"
  let ?c = "set_global_rc_file (rc_file p) (drv_cfg d)"
  have cfg: "drv_cfg ?d2 = ?c" "clib_dll (drv_bind ?d2) = No_Dll" "TEST_RUN (drv_bind ?d2)" "tw_lib (lib (drv_bind ?d2)) = new_clib"
      "drv_rc ?d2 = drv_rc d" "tw_env (lib (drv_bind ?d2)) = tw_env (lib (drv_bind d))"
    using assms(8-10) by (simp_all add: on_cfg_def)
  have conf: "configured vs ?c p"
    unfolding configured_def by (intro conjI exI [of _ cdir] exI [of _ "drv_rc d"]) (use assms(1-7) in \<open>simp_all add: set_global_rc_file_def\<close>)
  obtain cfg where g: "get_proc_plugins_conf '''' ?c = (Inr (JObj (procs_conf p)), cfg)"
  proof -
    have "fst (get_proc_plugins_conf '''' ?c) = Inr (JObj (procs_conf p))" using configured_reads [OF conf] by (simp add: reads_config_def)
    then show thesis using that by (metis prod.collapse)
  qed
  obtain b where b: "c_lib_init nms dll test_api (test_init pipes) (drv_bind ?d2) = (Inr True, b)" "tw_cfg (lib b) = cfg"
      "clib_dll b = Test_Dll" "tw_lib (lib b) = create_cache_services pipes (length (procs_conf p)) new_clib" "testlib.bound b"
      "tw_env (lib b) = tw_env (lib (drv_bind ?d2))"
    using library_started [OF cfg(2-4) g [folded cfg(1)] assms(11,12)] by blast
  obtain ps where ps: "append_paths dir vs (drv_path ?d2) = (Inr (), ps)" using append_paths_str [OF assms(7)] by blast
  let ?d' = "load_procs (keys (procs_conf p)) (rc_file p) (?d2\<lparr>drv_bind := b, drv_path := ps\<rparr>)"
  have "launch (c_lib_init nms dll test_api (test_init pipes)) dir p d = (Inr (), ?d')"
    using b(1) ps assms(6) cfg(5) by (simp add: launch_def Let_def dict_index_def)
  moreover have "set_global_rc_file (rc_file p) cfg = ?c"
    using get_conf_env [of ?c "''''"] g by (simp add: same_env_def set_global_rc_file_def)
  ultimately show ?thesis
    using b(2-6) conf cfg(6) by (intro exI [of _ ?d']) (simp add: load_procs_def proc_threads)
qed

text \<open>The state after the start of a test case.\<close>

lemma testcase_started:
  assumes "testcase_ok tc" "default_rc_ok tmp (drv_rc d)" "clib_dll (drv_bind d) = No_Dll" "TEST_RUN (drv_bind d)"
    "tw_lib (lib (drv_bind d)) = new_clib" "0 < length (conf_of tc ''procs_config'')" "length (conf_of tc ''procs_config'') \<le> 100"
  shows "\<exists>p d'. start_testcase sh (c_lib_init nms dll test_api (test_init pipes)) dir tmp test_case tc d = (Inr (Some p), d') \<and>
    sections_of tc p \<and>
    (\<exists>vs. map_of (drv_rc d) ''plugin_paths'' = Some (JArr vs) \<and> configured vs (set_global_rc_file (rc_file p) (drv_cfg d')) p) \<and>
    tw_lib (lib (drv_bind d')) = create_cache_services pipes (length (procs_conf p)) new_clib \<and> clib_dll (drv_bind d') = Test_Dll \<and>
    testlib.bound (drv_bind d') \<and> tw_env (lib (drv_bind d')) = tw_env (lib (drv_bind d)) \<and>
    (\<forall>nm \<in> set (keys (procs_conf p)). map_of (lst_procs d') nm = Some (rc_file p))"
proof -
  obtain p d1 cdir where p: "prepare sh tmp test_case tc d = (Inr (Some p), d1)" "sections_of tc p" "startswith cdir ''/''"
      "drv_rc d1 = AList.update ''config_running_path'' (JStr cdir) (drv_rc d)"
      "files_ready (files (drv_cfg d1)) cdir (drv_rc d1) p"
      "clib_dll (drv_bind d1) = clib_dll (drv_bind d)" "TEST_RUN (drv_bind d1) = TEST_RUN (drv_bind d)"
      "tw_lib (lib (drv_bind d1)) = tw_lib (lib (drv_bind d))" "tw_env (lib (drv_bind d1)) = tw_env (lib (drv_bind d))"
    using prepare_writes [OF assms(1,2)] by metis
  obtain vs where vs: "map_of (drv_rc d) ''plugin_paths'' = Some (JArr vs)" "list_all (\<lambda>v. \<exists>s. v = JStr s) vs"
    using assms(2) unfolding default_rc_ok_def option_cases by (auto simp: value_cases list_all_iff)
  have rc: "wf_json (JObj (drv_rc d1))" "''config_static_path'' \<in> set (keys (drv_rc d1))"
  proof -
    have ok: "distinct (keys (drv_rc d))" "wf_members (drv_rc d)" "''config_static_path'' \<in> set (keys (drv_rc d))"
      using assms(2) unfolding default_rc_ok_def by simp_all
    then show "wf_json (JObj (drv_rc d1))" by (simp add: p(4) distinct_update wf_members_update)
    show "''config_static_path'' \<in> set (keys (drv_rc d1))" unfolding p(4) set_keys_update using ok(3) by simp
  qed
  have "map_of (drv_rc d1) ''config_running_path'' = Some (JStr cdir)" "map_of (drv_rc d1) ''plugin_paths'' = Some (JArr vs)"
    using p(4) vs(1) by (simp_all add: update_conv')
  note run = launch_runs [OF p(5) rc(1) this(1) p(3) rc(2) this(2) vs(2)]
  have "0 < length (procs_conf p)" "length (procs_conf p) \<le> 100" using assms(6,7) p(2) by (simp_all add: sections_of_def)
  from run [OF _ _ _ this, of nms dll pipes dir] p(6-8) assms(3-5) obtain d' where
    d': "launch (c_lib_init nms dll test_api (test_init pipes)) dir p d1 = (Inr (), d')"
      "configured vs (set_global_rc_file (rc_file p) (drv_cfg d')) p"
      "tw_lib (lib (drv_bind d')) = create_cache_services pipes (length (procs_conf p)) new_clib"
      "clib_dll (drv_bind d') = Test_Dll" "testlib.bound (drv_bind d')" "tw_env (lib (drv_bind d')) = tw_env (lib (drv_bind d1))" "\<forall>nm \<in> set (keys (procs_conf p)). map_of (lst_procs d') nm = Some (rc_file p)"
    by auto
  show ?thesis
    by (rule exI [of _ p], rule exI [of _ d']) (use p d' vs(1) in \<open>simp add: start_testcase_def\<close>)
qed

section \<open>Property\<close>

text \<open>C22. A test case reaches the processes as it was written. From well-formed test data (the three sections are
  dictionaries, the default rc data have an absolute running path and five different file names), with between
  1 and 100 processes and the client library not loaded yet, the driver gets to the start of the threads; what a
  process then reads through \<^verbatim>\<open>common.py\<close>, from the rc file its thread is given, is each section without its
  comments, for every process, action and plugin; there is a thread for every process, and the test library has
  one service per process.\<close>

theorem testcase_reaches_processes:
  assumes "testcase_ok tc" "default_rc_ok tmp (drv_rc d)" "clib_dll (drv_bind d) = No_Dll" "TEST_RUN (drv_bind d)"
    "tw_lib (lib (drv_bind d)) = new_clib" "0 < length (conf_of tc ''procs_config'')" "length (conf_of tc ''procs_config'') \<le> 100"
  shows "\<exists>p d'. start_testcase sh (c_lib_init nms dll test_api (test_init pipes)) dir tmp test_case tc d = (Inr (Some p), d') \<and>
    procs_conf p = conf_of tc ''procs_config'' \<and> actions_conf p = conf_of tc ''actions_config'' \<and>
    bindings_conf p = conf_of tc ''bindings_config'' \<and> plugin_data p = conf_of tc ''test_plugin_data'' \<and>
    reads_config (set_global_rc_file (rc_file p) (tw_cfg (lib (drv_bind d')))) p \<and>
    num_svc (tw_lib (lib (drv_bind d'))) = length (procs_conf p) \<and> clib_dll (drv_bind d') = Test_Dll \<and>
    (\<forall>nm \<in> set (keys (procs_conf p)). map_of (lst_procs d') nm = Some (rc_file p))"
proof -
  obtain p d' where d': "start_testcase sh (c_lib_init nms dll test_api (test_init pipes)) dir tmp test_case tc d = (Inr (Some p), d')"
      "sections_of tc p" "\<exists>vs. configured vs (set_global_rc_file (rc_file p) (drv_cfg d')) p"
      "tw_lib (lib (drv_bind d')) = create_cache_services pipes (length (procs_conf p)) new_clib" "clib_dll (drv_bind d') = Test_Dll"
      "\<forall>nm \<in> set (keys (procs_conf p)). map_of (lst_procs d') nm = Some (rc_file p)"
    using testcase_started [OF assms] by metis
  have "reads_config (set_global_rc_file (rc_file p) (drv_cfg d')) p" using d'(3) configured_reads by blast
  then show ?thesis
    by (rule_tac exI [of _ p], rule_tac exI [of _ d']) (use d' in \<open>simp add: sections_of_def num_svc_created\<close>)
qed

text \<open>Test data with two comments, in the form of \<^verbatim>\<open>tests/test_data/test_data.json\<close>.\<close>

definition sample_default_rc :: "(string, json) dict" where
  "sample_default_rc =
     [(''config_running_path'', JStr ''/tmp''), (''config_static_path'', JStr ''config''),
      (''global_rc_name'', JStr ''globals.rc.json''), (''proc_plugins_conf_name'', JStr ''proc_plugins.json''),
      (''actions_config_name'', JStr ''actions_conf.json''),
      (''actions_binding_config_name'', JStr ''actions_binding.json''),
      (''plugins_data_name'', JStr ''plugins_data.json''), 
      (''plugin_paths'', JArr [JStr ''.'', JStr ''./vendors/sonic/actions'', JStr ''./vendors/sonic/support'',
         JStr ''../tests/plugins'', JStr ''../tests/lib''])]"

definition sample_testcase :: "(string, json) dict" where
  "sample_testcase =
     [(''_description'', JStr ''''),
      (''procs_config'', JObj [(''_proc_1'', JObj []), (''proc_0'', JObj [(''link_flap'', JStr ''link_flap.py'')])]),
      (''actions_config'', JObj [(''link_flap'', JObj [(''min'', JInt 80)])]),
      (''bindings_config'', JObj [(''link_flap'', JArr [JStr ''link_safety''])])]"

definition sample_driver :: driver where
  "sample_driver =
     \<lparr>drv_bind = sample_bind\<lparr>lib := sample_world\<lparr>tw_cfg := new_config Map.empty ''/p''\<rparr>\<rparr>, drv_path = [],
      drv_rc = sample_default_rc, drv_globals = [], lst_procs = [], drv_shell = []\<rparr>"

lemma sample_test_data:
  "testcase_ok sample_testcase" "default_rc_ok ''/t'' sample_default_rc"
  "conf_of sample_testcase ''procs_config'' = [(''proc_0'', JObj [(''link_flap'', JStr ''link_flap.py'')])]"
  by (simp_all add: testcase_ok_def sample_testcase_def conf_attrs_def default_rc_ok_def sample_default_rc_def file_attrs_def
      conf_of_def public_def private_key_def startswith_def)

lemma testcase_reaches_processes_witness:
  "\<exists>p d'. start_testcase (\<lambda>_ fs. fs) (c_lib_init common_names no_cdll test_api (test_init sample_pipes)) ''/t'' ''/t'' ''test-0''
       sample_testcase sample_driver = (Inr (Some p), d') \<and>
     fst (get_proc_plugins_conf ''proc_0'' (set_global_rc_file (rc_file p) (tw_cfg (lib (drv_bind d'))))) =
       Inr (JObj [(''link_flap'', JStr ''link_flap.py'')]) \<and>
     num_svc (tw_lib (lib (drv_bind d'))) = 1 \<and> map_of (lst_procs d') ''proc_0'' = Some (rc_file p)"
proof -
  have d: "default_rc_ok ''/t'' (drv_rc sample_driver)" "clib_dll (drv_bind sample_driver) = No_Dll" "TEST_RUN (drv_bind sample_driver)"
      "tw_lib (lib (drv_bind sample_driver)) = new_clib"
    using sample_test_data(2) by (simp_all add: sample_driver_def sample_bind_def sample_world_def)
  have n: "0 < length (conf_of sample_testcase ''procs_config'')" "length (conf_of sample_testcase ''procs_config'') \<le> 100"
    by (simp_all add: sample_test_data(3))
  obtain p d' where "start_testcase (\<lambda>_ fs. fs) (c_lib_init common_names no_cdll test_api (test_init sample_pipes)) ''/t'' ''/t'' ''test-0''
       sample_testcase sample_driver = (Inr (Some p), d')" "procs_conf p = conf_of sample_testcase ''procs_config''"
      "reads_config (set_global_rc_file (rc_file p) (tw_cfg (lib (drv_bind d')))) p"
      "num_svc (tw_lib (lib (drv_bind d'))) = length (procs_conf p)"
      "\<forall>nm \<in> set (keys (procs_conf p)). map_of (lst_procs d') nm = Some (rc_file p)"
    using testcase_reaches_processes [OF sample_test_data(1) d n] by metis
  then show ?thesis
    by (intro exI [of _ p] exI [of _ d']) (simp add: reads_config_def sample_test_data(3))
qed

text \<open>
  The rc data of the next test case are those this one changed: its directory is inside the one of this test
  case.
\<close>

lemma next_testcase_nested:
  assumes "testcase_ok tc" "default_rc_ok tmp (drv_rc d)" "prepare sh tmp test_case tc d = (Inr (Some p), d')"
    "case_dir tmp test_case (drv_rc d) = Inr dir"
  shows "case_dir tmp following (drv_rc d') = Inr (path_join dir following)"
  using prepare_writes [OF assms(1,2), of sh test_case] assms(3,4) by (auto simp: case_dir_def dict_get_def update_conv')

end
