(* ===== verification/DriverRun.thy ===== *)
theory DriverRun
  imports EngineRun DriverConfig Registration
begin

text \<open>
  A whole test case over the client library (\<^verbatim>\<open>tests/test_main.py\<close>, \<^verbatim>\<open>run_a_testcase\<close>): the configuration,
  the check of the registrations, the anomaly handlers with the requests they write to the processes, the
  shutdown at the end, and waiting for the threads. What the processes write during the driver's waits is an
  argument, as are the identifiers and times each turn of the loop draws; a list that is exhausted means
  that the driver is still running.
\<close>

section \<open>The handlers of a test case\<close>

definition test_runs :: "(string, json) dict \<Rightarrow> (string, json) dict res" where
  "test_runs tc =
     (case dict_get tc ''test-main-run'' (JObj []) of
        JObj kvs \<Rightarrow> Inr (public kvs)
      | _ \<Rightarrow> Inl (AttributeError ''items''))"

text \<open>The actions bound to an anomaly, a list of names.\<close>

fun strings_of :: "json list \<Rightarrow> string list res" where
  "strings_of [] = Inr []"
| "strings_of (v # vs) =
     (case v of JStr s \<Rightarrow> bind_res (strings_of vs) (\<lambda>ss. Inr (s # ss)) | _ \<Rightarrow> Inl TypeError)"

fun bound_actions :: "json \<Rightarrow> string list res" where
  "bound_actions (JArr vs) = strings_of vs"
| "bound_actions _ = Inl TypeError"

fun make_handlers :: "(string, json) dict \<Rightarrow> (string, json) dict \<Rightarrow> (string, anomaly) dict res" where
  "make_handlers binds [] = Inr []"
| "make_handlers binds ((a, v) # rest) =
     bind_res (dict_index binds a) (\<lambda>b.
     bind_res (bound_actions b) (\<lambda>bs.
     bind_res (new_anomaly a v bs) (\<lambda>h.
     bind_res (make_handlers binds rest) (\<lambda>hs. Inr ((a, h) # hs)))))"

section \<open>The loop\<close>

text \<open>The requests the handlers wrote go to every process, in order.\<close>

definition request_message :: "json \<Rightarrow> message" where
  "request_message d = [(REQ_ACTION_REQUEST, d)]"

definition send_requests :: "json list \<Rightarrow> clib \<Rightarrow> clib" where
  "send_requests ds s = fold (\<lambda>d s. snd (server_write_request (request_message d) s)) ds s"

definition new_requests :: "engine \<Rightarrow> engine \<Rightarrow> json list" where
  "new_requests eng eng' = drop (length (requests (emitted eng))) (requests (emitted eng'))"

text \<open>Read until there is a message for the handlers, or none comes in time.\<close>

partial_function (option) read_valid ::
  "(nat \<times> message) list list \<Rightarrow> clib
   \<Rightarrow> ((bool \<times> (string, json) dict) option res \<times> (nat \<times> message) list list \<times> clib) option"
where
  "read_valid env s =
     (case server_read_request False 2 env s of
        None \<Rightarrow> None
      | Some (Inl e, env', s') \<Rightarrow> Some (Inl e, env', s')
      | Some (Inr None, env', s') \<Rightarrow> Some (Inr None, env', s')
      | Some (Inr (Some m), env', s') \<Rightarrow>
          (case classify m of
             Inl e \<Rightarrow> Some (Inl e, env', s')
           | Inr None \<Rightarrow> read_valid env' s'
           | Inr (Some x) \<Rightarrow> Some (Inr (Some x), env', s')))"

text \<open>A turn draws a fresh identifier for every handler, the time, and the time's text.\<close>

type_synonym turn = "(string \<Rightarrow> string) \<times> int \<times> string"

fun run_engine ::
  "turn list \<Rightarrow> (nat \<times> message) list list \<Rightarrow> clib \<Rightarrow> engine
   \<Rightarrow> (unit res \<times> (nat \<times> message) list list \<times> clib \<times> engine) option"
where
  "run_engine [] env s eng = (if handlers eng = [] then Some (Inr (), env, s, eng) else None)"
| "run_engine ((uuid, now, now_text) # turns) env s eng =
     (if handlers eng = [] then Some (Inr (), env, s, eng)
      else
        (case read_valid env s of
           None \<Rightarrow> None
         | Some (Inl e, env', s') \<Rightarrow> Some (Inl e, env', s', eng)
         | Some (Inr msg, env', s') \<Rightarrow>
             (case engine_turn uuid now now_text msg eng of
                (Inl e, eng') \<Rightarrow> Some (Inl e, env', send_requests (new_requests eng eng') s', eng')
              | (Inr _, eng') \<Rightarrow> run_engine turns env' (send_requests (new_requests eng eng') s') eng')))"

section \<open>The end\<close>

definition stop_request :: message where
  "stop_request = [(REQ_ACTION_REQUEST, JObj [(REQ_ACTION_TYPE, JStr REQ_ACTION_TYPE_SHUTDOWN)])]"

definition run_to_end ::
  "turn list \<Rightarrow> (nat \<times> message) list list \<Rightarrow> clib \<Rightarrow> engine
   \<Rightarrow> (unit res \<times> (nat \<times> message) list list \<times> clib \<times> engine) option"
where
  "run_to_end turns env s eng =
     (case run_engine turns env s eng of
        None \<Rightarrow> None
      | Some (Inl e, env', s', eng') \<Rightarrow> Some (Inl e, env', s', eng')
      | Some (Inr _, env', s', eng') \<Rightarrow> Some (Inr (), env', snd (server_write_request stop_request s'), eng'))"

text \<open>The timeouts of the joins, from the times after each, and the rounds in which a thread is still alive.\<close>

fun join_timeouts :: "int \<Rightarrow> int \<Rightarrow> int list \<Rightarrow> int list" where
  "join_timeouts texp tout [] = []"
| "join_timeouts texp tout (tnow # rest) =
     tout # join_timeouts texp (if tnow > texp then 0 else texp - tnow) rest"

fun wait_exit :: "bool list list \<Rightarrow> nat option" where
  "wait_exit [] = None"
| "wait_exit (alive # rest) = (if True \<in> set alive then map_option Suc (wait_exit rest) else Some 0)"

section \<open>The test case\<close>

text \<open>
  From the handlers to the end; the result says whether the handlers started. \<open>locked_before\<close> is the lock as
  the last test case left it.
\<close>

definition run_handlers ::
  "(string \<Rightarrow> string) \<Rightarrow> turn list \<Rightarrow> (string, json) dict \<Rightarrow> (string, json) dict \<Rightarrow> bool \<Rightarrow> (nat \<times> message) list list \<Rightarrow> clib
   \<Rightarrow> (bool res \<times> (nat \<times> message) list list \<times> clib) option"
where
  "run_handlers uuid turns tc binds locked_before env s =
     (case bind_res (test_runs tc) (make_handlers binds) of
        Inl e \<Rightarrow> Some (Inl e, env, s)
      | Inr hs \<Rightarrow>
          let eng = \<lparr>handlers = hs, held = locked_before, emitted = []\<rparr> in
          (case start_all uuid eng of
             (Inl e, eng1) \<Rightarrow> Some (Inl e, env, send_requests (new_requests eng eng1) s)
           | (Inr ok, eng1) \<Rightarrow>
               let s1 = send_requests (new_requests eng eng1) s in
               if \<not> ok then Some (Inr False, env, s1)
               else map_option (\<lambda>(r, env', s', eng'). (bind_res r (\<lambda>_. Inr True), env', s')) (run_to_end turns env s1 eng1)))"

text \<open>\<^term>\<open>Inr False\<close> is one of the returns before the handlers have run.\<close>

definition run_a_testcase ::
  "shell \<Rightarrow> (test_world bind \<Rightarrow> bool res \<times> test_world bind) \<Rightarrow> string \<Rightarrow> string \<Rightarrow> (nat \<Rightarrow> int)
   \<Rightarrow> (string \<Rightarrow> string) \<Rightarrow> turn list
   \<Rightarrow> bool \<Rightarrow> (nat \<times> message) list list \<Rightarrow> string \<Rightarrow> (string, json) dict \<Rightarrow> driver
   \<Rightarrow> (bool res \<times> (nat \<times> message) list list \<times> clib \<times> driver) option"
where
  "run_a_testcase sh init dir tmp_dir now uuid turns locked_before env test_case tc d =
     (case start_testcase sh init dir tmp_dir test_case tc d of
        (Inl e, d') \<Rightarrow> Some (Inl e, env, tw_lib (lib (drv_bind d')), d')
      | (Inr None, d') \<Rightarrow> Some (Inr False, env, tw_lib (lib (drv_bind d')), d')
      | (Inr (Some p), d') \<Rightarrow>
          (case check_registrations now (procs_conf p) env (tw_lib (lib (drv_bind d'))) of
             None \<Rightarrow> None
           | Some (Inl e, env', s) \<Rightarrow> Some (Inl e, env', s, d')
           | Some (Inr (reported, goes_on), env', s) \<Rightarrow>
               if \<not> goes_on then Some (Inr False, env', s, d')
               else map_option (\<lambda>(r, env2, s2). (r, env2, s2, d'))
                      (run_handlers uuid turns tc (bindings_conf p) locked_before env' s)))"

text \<open>The test cases chosen on the command line; \<open>None\<close> when they cannot be found.\<close>

definition chosen_cases :: "string \<Rightarrow> (string, json) dict \<Rightarrow> (string, json) dict \<Rightarrow> string list option" where
  "chosen_cases arg test_cases defaults =
     (if test_cases = [] \<or> defaults = [] \<or> (arg \<noteq> '''' \<and> arg \<notin> set (keys test_cases)) then None
      else if arg \<noteq> '''' then Some [arg] else Some (keys test_cases))"

section \<open>Queues while the driver runs\<close>

text \<open>
  Nothing waits for the server, a message of service \<open>i\<close> is found, and every process has room for \<open>k\<close> more.
\<close>

definition serving :: "clib \<Rightarrow> nat \<Rightarrow> int \<Rightarrow> nat \<Rightarrow> bool" where
  "serving s i fd k \<longleftrightarrow> queues s i fd [] \<and> distinct (map snd (wr_fds s)) \<and>
     (\<forall>j < num_svc s. length (to_client s j) + k \<le> capacity (svc_s2c (get_svc j s)))"

text \<open>The messages to the processes and where they go.\<close>

definition same_clients :: "clib \<Rightarrow> clib \<Rightarrow> bool" where
  "same_clients s s' \<longleftrightarrow> num_svc s' = num_svc s \<and> wr_fds s' = wr_fds s \<and> rd_fds s' = rd_fds s \<and>
     (\<forall>j < num_svc s. svc_s2c (get_svc j s') = svc_s2c (get_svc j s))"

text \<open>A message written during the server's wait is what it reads.\<close>

lemma read_delivered:
  assumes "queues s i fd []" "length m = 1" "fst (hd m) \<in> set server_kinds"
  shows "\<exists>s'. server_read_request False t ([(i, m)] # env) s = Some (Inr (Some m), env, s') \<and> queues s' i fd [] \<and> same_clients s s'"
proof -
  obtain b c where c: "cache_write m (svc_c2s (get_svc i s)) = (b, c)" by fastforce
  let ?s = "put_svc i ((get_svc i s)\<lparr>svc_c2s := c\<rparr>) s"
  have q: "services_ok s" "i < num_svc s" "map_of (rd_fds s) fd = Some i" "to_server s i = []"
      "\<forall>j < num_svc s. j \<noteq> i \<longrightarrow> to_server s j = []"
    using assms(1) by (simp_all add: queues_def)
  have w: "snd (write_to_server i m s) = ?s" using c by (simp add: write_to_server_def)
  have ok: "cache_ok (svc_c2s (get_svc i s))" using get_svc_ok [OF q(1,2)] by (simp add: svc_ok_def)
  then have "0 < capacity (svc_c2s (get_svc i s))" by (simp add: capacity_def cache_ok_def)
  then have "b" "contents c = [m]" using ring.put_result [OF ok c] q(4) by (simp_all add: to_server_def)
  moreover have "services_ok ?s" using write_to_server_ok [OF q(1,2), of m] w by (cases "write_to_server i m s") simp
  ultimately have s: "services_ok ?s" "i < num_svc ?s" "map_of (rd_fds ?s) fd = Some i" "to_server ?s i = m # []"
      "\<forall>j < num_svc ?s. j \<noteq> i \<longrightarrow> to_server ?s j = []"
    using q by (simp_all add: to_server_def get_put_svc)
  have "server_select s [(i, m)] = server_select ?s []" by (simp add: server_select_def w)
  then have eq: "server_read_request False t ([(i, m)] # env) s = server_read_request False t ([] # env) ?s"
    by (simp add: server_read_request_def Let_def split: prod.splits)
  obtain c' where c': "server_read_request False t ([] # env) ?s = Some (Inr (Some m), env, put_svc i ((get_svc i ?s)\<lparr>svc_c2s := c'\<rparr>) ?s)"
      "services_ok (put_svc i ((get_svc i ?s)\<lparr>svc_c2s := c'\<rparr>) ?s)" "contents c' = []"
    using server_takes_next [OF s assms(2,3), of t env] by blast
  then show ?thesis
    using eq q by (intro exI [of _ "put_svc i ((get_svc i ?s)\<lparr>svc_c2s := c'\<rparr>) ?s"])
      (simp add: queues_def same_clients_def to_server_def get_put_svc)
qed

text \<open>A broadcast leaves the other direction alone.\<close>

lemma broadcast_keeps:
  assumes "services_ok s" "\<forall>(fd, k) \<in> set ws. k < num_svc s"
  shows "num_svc (fold (\<lambda>(_, i) s. snd (write_to_client i m s)) ws s) = num_svc s \<and>
    rd_fds (fold (\<lambda>(_, i) s. snd (write_to_client i m s)) ws s) = rd_fds s \<and>
    wr_fds (fold (\<lambda>(_, i) s. snd (write_to_client i m s)) ws s) = wr_fds s \<and>
    (\<forall>j < num_svc s. svc_c2s (get_svc j (fold (\<lambda>(_, i) s. snd (write_to_client i m s)) ws s)) = svc_c2s (get_svc j s) \<and>
       capacity (svc_s2c (get_svc j (fold (\<lambda>(_, i) s. snd (write_to_client i m s)) ws s))) = capacity (svc_s2c (get_svc j s)))"
  using assms
proof (induction ws arbitrary: s)
  case (Cons w ws)
  obtain fd i where w: "w = (fd, i)" by fastforce
  have i: "i < num_svc s" using Cons.prems(2) w by simp
  obtain b c where c: "cache_write m (svc_s2c (get_svc i s)) = (b, c)" by fastforce
  have "cache_ok (svc_s2c (get_svc i s))" using get_svc_ok [OF Cons.prems(1) i] by (simp add: svc_ok_def)
  note cap = ring.put_result [OF this c]
  have s: "snd (write_to_client i m s) = put_svc i ((get_svc i s)\<lparr>svc_s2c := c\<rparr>) s" using c by (simp add: write_to_client_def)
  have "services_ok (snd (write_to_client i m s))" using write_to_client_ok [OF Cons.prems(1) i] by simp
  moreover have "\<forall>(fd, k) \<in> set ws. k < num_svc (snd (write_to_client i m s))" using Cons.prems(2) s by simp
  ultimately show ?case using Cons.IH [of "snd (write_to_client i m s)"] w s i cap by (simp add: get_put_svc)
qed simp

text \<open>Where messages of the server arrive.\<close>

definition receives :: "clib \<Rightarrow> message list \<Rightarrow> clib \<Rightarrow> bool" where
  "receives s ms s' \<longleftrightarrow> num_svc s' = num_svc s \<and> wr_fds s' = wr_fds s \<and>
     (\<forall>j < num_svc s. to_client s' j = to_client s j @ (if j \<in> snd ` set (wr_fds s) then ms else []))"

lemma receives_trans: "receives s ms s1 \<Longrightarrow> receives s1 ns s2 \<Longrightarrow> receives s (ms @ ns) s2"
  by (simp add: receives_def)

lemma receives_none: "receives s [] s"
  by (simp add: receives_def)

lemma write_received:
  assumes "serving s i fd (Suc k)" "length m = 1" "fst (hd m) = REQ_ACTION_REQUEST"
  shows "serving (snd (server_write_request m s)) i fd k \<and> receives s [m] (snd (server_write_request m s))"
proof -
  let ?t = "fold (\<lambda>(_, i) s. snd (write_to_client i m s)) (wr_fds s) s"
  have q: "services_ok s" "i < num_svc s" "distinct (map snd (wr_fds s))" using assms(1) by (simp_all add: serving_def queues_def)
  have t: "snd (server_write_request m s) = ?t" using assms(2,3) by (simp add: server_write_request_def)
  have range: "\<forall>(fd, k) \<in> set (wr_fds s). k < num_svc s" using q(1) by (auto simp: services_ok_def list_all_iff)
  note e = broadcast_effect [OF q(1) range q(3) refl, of m] and k = broadcast_keeps [OF q(1) range, of m]
  have rooms: "room s j" if "j < num_svc s" for j
  proof -
    have "length (to_client s j) + Suc k \<le> capacity (svc_s2c (get_svc j s))" using assms(1) that by (simp add: serving_def)
    then show ?thesis by (simp add: room_def)
  qed
  have less: "length (to_client s j) + k \<le> capacity (svc_s2c (get_svc j s))" if "j < num_svc s" for j
    using assms(1) that by (fastforce simp: serving_def)
  show ?thesis
    using assms(1) e k rooms less unfolding t by (simp add: serving_def queues_def receives_def to_server_def)
qed

lemma requests_received:
  assumes "serving s i fd (length ds + k)"
  shows "serving (send_requests ds s) i fd k \<and> receives s (map request_message ds) (send_requests ds s)"
  using assms
proof (induction ds arbitrary: s)
  case Nil
  then show ?case by (simp add: send_requests_def receives_none)
next
  case (Cons d ds)
  let ?s = "snd (server_write_request (request_message d) s)"
  have "serving ?s i fd (length ds + k) \<and> receives s [request_message d] ?s"
    by (rule write_received) (use Cons.prems in \<open>simp_all add: request_message_def\<close>)
  then show ?case
    using Cons.IH [of ?s] receives_trans [of s "[request_message d]" ?s] by (simp add: send_requests_def)
qed

section \<open>The requests of a turn\<close>

definition writes_on :: "engine \<Rightarrow> engine \<Rightarrow> bool" where
  "writes_on s s' \<longleftrightarrow> (\<exists>ds. requests (emitted s') = requests (emitted s) @ ds)"

lemma writes_on_refl: "writes_on s s"
  by (simp add: writes_on_def)

lemma writes_on_trans: "writes_on s s1 \<Longrightarrow> writes_on s1 s2 \<Longrightarrow> writes_on s s2"
  by (auto simp: writes_on_def)

lemma writes_on_handlers [simp]: "writes_on s (s'\<lparr>handlers := hs\<rparr>) \<longleftrightarrow> writes_on s s'"
  by (simp add: writes_on_def)

lemma on_handler_writes:
  assumes "good_op f" "on_handler f h s = (r, h', s')" "action_seq h \<noteq> []"
  shows "writes_on s s'"
proof -
  let ?c = "\<lparr>handler = h, mitigation_lock = held s, outs = emitted s\<rparr>"
  obtain c' where c: "f ?c = (r, c')" "emitted s' = outs c'"
    using assms(2) by (auto simp: on_handler_def split: prod.splits)
  have "writing_op ?c c'" using assms(1,3) c(1) by (simp add: good_op_def)
  then show ?thesis using c(2) by (auto simp: writing_op_def writes_on_def)
qed

lemma visit_writes:
  assumes "\<forall>n m. good_op (f n m)" "visit f left stop m hs s = (r, hs', s')" "seqs_ok hs"
  shows "writes_on s s'"
  using assms(2,3)
proof (induction hs arbitrary: m r hs' s s')
  case Nil
  then show ?case by (simp add: writes_on_refl)
next
  case (Cons x hs)
  obtain n h where x: "x = (n, h)" by fastforce
  obtain r1 h1 s1 where f: "on_handler (f n m) h s = (r1, h1, s1)" by (rule prod_cases3)
  obtain r2 hs2 s2 where o: "visit f left stop (left h h1 m) hs s1 = (r2, hs2, s2)" by (rule prod_cases3)
  have good: "good_op (f n m)" using assms(1) by blast
  have 1: "writes_on s s1" by (rule on_handler_writes [OF good f]) (use Cons.prems(2) x in \<open>simp add: seqs_ok_def\<close>)
  have 2: "writes_on s1 s2" by (rule Cons.IH [OF o]) (use Cons.prems(2) in \<open>simp add: seqs_ok_def\<close>)
  have "s' = s1 \<or> s' = s2" using Cons.prems(1) x f o by (cases r1) (auto split: if_splits)
  then show ?case using 1 writes_on_trans [OF 1 2] by auto
qed

lemma turn_writes:
  assumes "engine_ok s" "engine_turn uuid now now_text msg s = (r, s')"
  shows "writes_on s s'"
proof -
  have resume: "writes_on t t'" if "engine_ok t" "resume_all uuid now t = (r', t')" for t r' t'
    using visit_writes [of "\<lambda>n _. anomaly_resume (uuid n) now"] that
    by (auto simp: good_ops resume_all_def engine_ok_def split: prod.splits)
  have message: "writes_on s t" if "engine_message uuid now now_text m s = (r', t)" for m r' t
  proof -
    obtain hb rq where m: "m = (hb, rq)" by fastforce
    let ?f = "\<lambda>n rq. if hb then anomaly_heartbeat now_text rq else anomaly_response (uuid n) now rq"
    obtain r1 hs s1 where v: "visit ?f left_message id rq (handlers s) s = (r1, hs, s1)" by (rule prod_cases3)
    have "writes_on s s1" by (rule visit_writes [OF _ v]) (use good_ops assms(1) in \<open>simp_all add: engine_ok_def\<close>)
    then show ?thesis using that unfolding m engine_message_def prod.case v by (cases r1) (auto simp: Let_def)
  qed
  show ?thesis
  proof (cases msg)
    case None
    then show ?thesis using assms resume by (simp add: engine_turn_def)
  next
    case (Some m)
    obtain r1 t where t: "engine_message uuid now now_text m s = (r1, t)" by fastforce
    note ok = message_ok [OF assms(1) t]
    show ?thesis
    proof (cases r1)
      case (Inl e)
      then show ?thesis using assms(2) Some t message [OF t] by (simp add: engine_turn_def)
    next
      case (Inr v)
      then have "resume_all uuid now t = (r, s')" using assms(2) Some t by (simp add: engine_turn_def)
      then show ?thesis using writes_on_trans [OF message [OF t] resume [OF ok]] by simp
    qed
  qed
qed

lemma new_requests_split:
  assumes "writes_on s s1" "writes_on s1 s2"
  shows "new_requests s s2 = new_requests s s1 @ new_requests s1 s2"
  using assms by (auto simp: writes_on_def new_requests_def)

section \<open>Answered turns over the library\<close>

text \<open>The process behind service \<open>i\<close> answers in each wait what the first handler waits for.\<close>

fun reply_env :: "nat \<Rightarrow> string \<Rightarrow> ((string \<Rightarrow> string) \<times> int \<times> string) list \<Rightarrow> engine \<Rightarrow> (nat \<times> message) list list" where
  "reply_env i key [] s = []"
| "reply_env i key ((uuid, now, adata) # ts) s =
     (case handlers s of
        [] \<Rightarrow> []
      | (nm, h) # _ \<Rightarrow>
          [(i, request_message (JObj (ok_reply key adata h)))] #
          reply_env i key ts (snd (engine_turn uuid now (show_int now) (Some (False, ok_reply key adata h)) s)))"

definition turn_of :: "(string \<Rightarrow> string) \<times> int \<times> string \<Rightarrow> turn" where
  "turn_of = (\<lambda>(uuid, now, adata). (uuid, now, show_int now))"

lemma classify_reply: "classify (request_message (JObj (ok_reply key a h))) = Inr (Some (False, ok_reply key a h))"
  by (simp add: classify_def request_message_def ok_reply_def msg_defs dict_index_def)

lemma read_reply:
  assumes "queues s i fd []"
  shows "\<exists>s'. read_valid ([(i, request_message (JObj (ok_reply key a h)))] # env) s = Some (Inr (Some (False, ok_reply key a h)), env, s') \<and>
    queues s' i fd [] \<and> same_clients s s'"
proof -
  let ?m = "request_message (JObj (ok_reply key a h))"
  obtain s' where s': "server_read_request False 2 ([(i, ?m)] # env) s = Some (Inr (Some ?m), env, s')" "queues s' i fd []" "same_clients s s'"
    using read_delivered [OF assms, of ?m 2 env] by (auto simp: request_message_def server_kinds_def)
  then show ?thesis using classify_reply by (subst read_valid.simps) simp
qed

lemma serving_same: "serving s i fd k \<Longrightarrow> same_clients s s' \<Longrightarrow> queues s' i fd [] \<Longrightarrow> serving s' i fd k \<and> receives s [] s'"
  by (simp add: serving_def same_clients_def receives_def to_client_def)

lemma answered_writes:
  assumes "answered_turns key ts eng = (Inr (), eng')" "engine_ok eng"
  shows "writes_on eng eng'"
  using assms
proof (induction ts arbitrary: eng)
  case (Cons x ts)
  obtain uuid now a where x: "x = (uuid, now, a)" by (cases x)
  show ?case
  proof (cases "handlers eng")
    case Nil
    then show ?thesis using Cons.prems(1) x by (simp add: writes_on_refl)
  next
    case (Cons y hs)
    obtain nm h where y: "y = (nm, h)" by fastforce
    obtain r eng1 where t: "engine_turn uuid now (show_int now) (Some (False, ok_reply key a h)) eng = (r, eng1)" by fastforce
    have "answered_turns key ts eng1 = (Inr (), eng')" using Cons.prems(1) x Cons y t by (cases r; simp)
    from Cons.IH [OF this turn_ok [OF Cons.prems(2) t]] show ?thesis
      using writes_on_trans turn_writes [OF Cons.prems(2) t] by blast
  qed
qed (simp add: writes_on_refl)

lemma answered_run:
  assumes "answered_turns key ts eng = (Inr (), eng')" "handlers eng' = []" "engine_ok eng"
    "serving s i fd (length (new_requests eng eng') + k)"
  shows "\<exists>s'. run_engine (map turn_of ts) (reply_env i key ts eng) s eng = Some (Inr (), [], s', eng') \<and>
    serving s' i fd k \<and> receives s (map request_message (new_requests eng eng')) s'"
  using assms
proof (induction ts arbitrary: eng s)
  case Nil
  then show ?case by (simp add: new_requests_def receives_none)
next
  case (Cons x ts)
  obtain uuid now a where x: "x = (uuid, now, a)" by (cases x)
  show ?case
  proof (cases "handlers eng")
    case Nil
    then show ?thesis using Cons.prems x by (simp add: turn_of_def new_requests_def receives_none)
  next
    case (Cons y hs)
    obtain nm h where y: "y = (nm, h)" by fastforce
    let ?msg = "Some (False, ok_reply key a h)"
    obtain r eng1 where t: "engine_turn uuid now (show_int now) ?msg eng = (r, eng1)" by fastforce
    have r: "r = Inr ()" "answered_turns key ts eng1 = (Inr (), eng')"
      using Cons.prems(1) x Cons y t by (cases r; simp)+
    have ok: "engine_ok eng1" by (rule turn_ok [OF Cons.prems(3) t])
    let ?ds = "new_requests eng eng1" and ?es = "new_requests eng1 eng'"
    have split: "new_requests eng eng' = ?ds @ ?es"
      by (rule new_requests_split [OF turn_writes [OF Cons.prems(3) t] answered_writes [OF r(2) ok]])
    have q: "queues s i fd []" using Cons.prems(4) by (simp add: serving_def)
    obtain s1 where s1: "read_valid ([(i, request_message (JObj (ok_reply key a h)))] # reply_env i key ts eng1) s =
        Some (Inr ?msg, reply_env i key ts eng1, s1)" "queues s1 i fd []" "same_clients s s1"
      using read_reply [OF q] by blast
    have "serving s i fd (length ?ds + (length ?es + k))" using Cons.prems(4) split by (simp add: add.assoc)
    from serving_same [OF this s1(3,2)] have serv: "serving s1 i fd (length ?ds + (length ?es + k))" "receives s [] s1" by simp_all
    let ?s2 = "send_requests ?ds s1"
    note sent = requests_received [OF serv(1)]
    obtain s' where s': "run_engine (map turn_of ts) (reply_env i key ts eng1) ?s2 eng1 = Some (Inr (), [], s', eng')"
        "serving s' i fd k" "receives ?s2 (map request_message ?es) s'"
      using Cons.IH [OF r(2) Cons.prems(2) ok] sent by blast
    have "receives s ([] @ map request_message ?ds @ map request_message ?es) s'"
      using receives_trans [OF serv(2) receives_trans] sent s'(3) by blast
    then show ?thesis using s' s1(1) t r(1) x Cons y split
      by (intro exI [of _ s']) (simp add: turn_of_def)
  qed
qed

section \<open>Waiting for the threads\<close>

text \<open>The joins together wait five seconds at most after the start: no timeout goes beyond the deadline.\<close>

lemma join_timeouts_bounded:
  assumes "list_all (\<lambda>t. texp - 5 \<le> t) ts" "0 \<le> tout" "tout \<le> 5"
  shows "list_all (\<lambda>t. 0 \<le> t \<and> t \<le> 5) (join_timeouts texp tout ts)"
  using assms by (induction ts arbitrary: tout) auto

text \<open>The last loop ends exactly when in some round no thread is alive.\<close>

lemma wait_exit_iff: "(\<exists>n. wait_exit rounds = Some n) \<longleftrightarrow> (\<exists>alive \<in> set rounds. True \<notin> set alive)"
  by (induction rounds) auto

section \<open>Property\<close>

text \<open>C13. A test run over the client library ends. When the only anomaly's own action has been requested, the anomaly is
  to run once (run count 1), its test instance prescribes no ids, timeouts or results for the actions (as in the
  repository's test data), and the process behind service \<open>i\<close> answers each request successfully during the driver's next wait, within the timeout, then the
  driver's loop ends without an exception, its handler dropped, the lock free and the mitigation published as done
  with result code 0; meanwhile every process has been sent, in this order, one request for each bound action of the sequence and then the shutdown request, and
  nothing else, provided its queue has room.\<close>

theorem answered_run_stops:
  assumes "handlers eng = [(nm, h)]" "\<not> held eng" "requested t h" "0 \<le> t" "key \<noteq> ''''"
    "length (action_seq h) = Suc (length ts)" "ts \<noteq> []" "\<forall>(u, now, a) \<in> set ts. now \<le> now0 + t"
    "services_ok s" "i < num_svc s" "map_of (rd_fds s) fd = Some i" "distinct (map snd (wr_fds s))"
    "\<forall>j < num_svc s. to_server s j = [] \<and> length (to_client s j) + length (action_seq h) \<le> capacity (svc_s2c (get_svc j s))"
  shows "\<exists>s' eng' ds. run_to_end (map turn_of ((u0, now0, a0) # ts)) (reply_env i key ((u0, now0, a0) # ts) eng) s eng =
      Some (Inr (), [], s', eng') \<and> handlers eng' = [] \<and> \<not> held eng' \<and>
    (\<exists>xs d. emitted eng' = xs @ [Publish_event (anomaly_name h) d] \<and>
       map_of d REQ_MITIGATION_STATE = Some (JStr REQ_MITIGATION_STATE_DONE) \<and> map_of d REQ_RESULT_CODE = Some (JInt 0)) \<and>
    map (\<lambda>d. json_index d REQ_ACTION_NAME) ds = map (\<lambda>a. Inr (JStr a)) (tl (action_seq h)) \<and>
    (\<forall>j < num_svc s. to_client s' j = to_client s j @
       (if j \<in> snd ` set (wr_fds s) then map (\<lambda>d. [(REQ_ACTION_REQUEST, d)]) ds @ [stop_request] else []))"
proof -
  let ?ts = "(u0, now0, a0) # ts"
  obtain eng' where e: "answered_turns key ?ts eng = (Inr (), eng')" "handlers eng' = []" "\<not> held eng'"
      "map (\<lambda>d. json_index d REQ_ACTION_NAME) (requests (emitted eng')) =
       map (\<lambda>d. json_index d REQ_ACTION_NAME) (requests (emitted eng)) @ map (\<lambda>a. Inr (JStr a)) (tl (action_seq h))"
    and pub: "\<exists>xs d. emitted eng' = xs @ [Publish_event (anomaly_name h) d] \<and>
       map_of d REQ_MITIGATION_STATE = Some (JStr REQ_MITIGATION_STATE_DONE) \<and> map_of d REQ_RESULT_CODE = Some (JInt 0)"
    using answered_to_end [OF assms(1-8)] by blast
  have ok: "engine_ok eng" using assms(1-3,6) by (auto simp: engine_ok_def seqs_ok_def requested_def locked_def)
  let ?ds = "new_requests eng eng'"
  have ds: "map (\<lambda>d. json_index d REQ_ACTION_NAME) ?ds = map (\<lambda>a. Inr (JStr a)) (tl (action_seq h))"
    using answered_writes [OF e(1) ok] e(4) by (auto simp: writes_on_def new_requests_def)
  then have "length ?ds = length ts" using assms(6) by (metis length_map length_tl diff_Suc_1)
  then have "serving s i fd (length ?ds + 1)" using assms(6,9-13) by (simp add: serving_def queues_def)
  from answered_run [OF e(1,2) ok this] obtain s1 where
    s1: "run_engine (map turn_of ?ts) (reply_env i key ?ts eng) s eng = Some (Inr (), [], s1, eng')"
      "serving s1 i fd 1" "receives s (map request_message ?ds) s1" by blast
  let ?s' = "snd (server_write_request stop_request s1)"
  have "receives s1 [stop_request] ?s'" using write_received [of s1 i fd 0 stop_request] s1(2) by (simp add: stop_request_def)
  then have "receives s (map request_message ?ds @ [stop_request]) ?s'" by (rule receives_trans [OF s1(3)])
  then show ?thesis using s1(1) e(2,3) ds pub
    by (intro exI [of _ ?s'] exI [of _ eng'] exI [of _ ?ds]) (simp add: run_to_end_def receives_def request_message_def)
qed

lemma answered_run_stops_witness:
  "\<exists>eng s' eng' d1 d2. start_all (\<lambda>_. ''u'') one_handler = (Inr True, eng) \<and>
     run_to_end (map turn_of [(\<lambda>_. ''v'', 3, ''{}''), (\<lambda>_. ''w'', 9, ''''), (\<lambda>_. ''x'', 12, '''')])
       (reply_env 0 ''Ethernet0'' [(\<lambda>_. ''v'', 3, ''{}''), (\<lambda>_. ''w'', 9, ''''), (\<lambda>_. ''x'', 12, '''')] eng)
       (create_cache_services sample_pipes 1 new_clib) eng = Some (Inr (), [], s', eng') \<and>
     to_client s' 0 = [[(REQ_ACTION_REQUEST, d1)], [(REQ_ACTION_REQUEST, d2)], stop_request] \<and>
     json_index d1 REQ_ACTION_NAME = Inr (JStr ''link_safety'') \<and> json_index d2 REQ_ACTION_NAME = Inr (JStr ''link_down'')"
proof -
  obtain eng h where e: "start_all (\<lambda>_. ''u'') one_handler = (Inr True, eng)" "handlers eng = [(''link_flap'', h)]" "\<not> held eng"
      "requested 30 h" "action_seq h = [''link_flap'', ''link_safety'', ''link_down'']"
    by (rule one_handler_started)
  let ?ts = "[(\<lambda>_ :: string. ''w'', 9 :: int, ''''), (\<lambda>_. ''x'', 12, '''')]"
  let ?s = "create_cache_services sample_pipes 1 new_clib"
  have s: "services_ok ?s" "0 < num_svc ?s" "num_svc ?s = 1" by (simp_all add: new_services_ok num_svc_created)
  have fds: "\<exists>fd. map_of (rd_fds ?s) fd = Some 0" "distinct (map snd (wr_fds ?s))" "snd ` set (wr_fds ?s) = {0}"
    by (simp_all add: create_cache_services_def Let_def new_clib_def)
  have empty: "to_client ?s 0 = []" and room: "\<forall>j < num_svc ?s. to_server ?s j = [] \<and>
      length (to_client ?s j) + length (action_seq h) \<le> capacity (svc_s2c (get_svc j ?s))"
    using e(5) by (simp_all add: create_cache_services_def num_svc_def get_svc_def to_server_def to_client_def
        new_cache_service_def CACHE_LIMIT_def Let_def new_clib_def)
  obtain fd where fd: "map_of (rd_fds ?s) fd = Some 0" using fds(1) by blast
  have "''Ethernet0'' \<noteq> ''''" "length (action_seq h) = Suc (length ?ts)" "?ts \<noteq> []"
    "\<forall>(u, now, a) \<in> set ?ts. now \<le> (3::int) + 30" using e(5) by simp_all
  from answered_run_stops [OF e(2-4) _ this s(1,2) fd fds(2) room, of "\<lambda>_. ''v''" "''{}''"] obtain s' eng' ds where
    r: "run_to_end (map turn_of ((\<lambda>_. ''v'', 3, ''{}'') # ?ts)) (reply_env 0 ''Ethernet0'' ((\<lambda>_. ''v'', 3, ''{}'') # ?ts) eng) ?s eng =
        Some (Inr (), [], s', eng')"
      "map (\<lambda>d. json_index d REQ_ACTION_NAME) ds = map (\<lambda>a. Inr (JStr a)) (tl (action_seq h))"
      "\<forall>j < num_svc ?s. to_client s' j = to_client ?s j @
         (if j \<in> snd ` set (wr_fds ?s) then map (\<lambda>d. [(REQ_ACTION_REQUEST, d)]) ds @ [stop_request] else [])"
    by (metis (no_types, lifting) zero_le_numeral)
  have "to_client s' 0 = map (\<lambda>d. [(REQ_ACTION_REQUEST, d)]) ds @ [stop_request]"
    using r(3) [rule_format, OF s(2)] unfolding empty fds(3) by simp
  moreover obtain d1 d2 where "ds = [d1, d2]" "json_index d1 REQ_ACTION_NAME = Inr (JStr ''link_safety'')"
      "json_index d2 REQ_ACTION_NAME = Inr (JStr ''link_down'')"
    using r(2) unfolding e(5) by (auto simp: map_eq_Cons_conv)
  ultimately have "to_client s' 0 = [[(REQ_ACTION_REQUEST, d1)], [(REQ_ACTION_REQUEST, d2)], stop_request]"
    "json_index d1 REQ_ACTION_NAME = Inr (JStr ''link_safety'')" "json_index d2 REQ_ACTION_NAME = Inr (JStr ''link_down'')" by simp_all
  then show ?thesis using e(1) r(1) by blast
qed

end
