(* ===== verification/TestStart.thy ===== *)
theory TestStart
  imports DriverConfig VendorPlugins Registration
begin

text \<open>
  The start of a test case over all the components: the driver writes the configuration, the process it starts reads it,
  loads the vendor plugins and registers them with the test library, and the driver's check of the registrations
  accepts what arrives.
\<close>

section \<open>A process that registers\<close>

text \<open>A name that ends in the number of a service is accepted.\<close>

definition service_name :: "string \<Rightarrow> nat \<Rightarrow> bool" where
  "service_name nm i \<longleftrightarrow> (let l = split_on (CHR ''_'') nm in 1 < length l \<and> py_int (last l) = Inr (int i))"

lemma client_registers:
  assumes "testlib.bound b" "tw_lib (lib b) = create_cache_services pipes n new_clib" "service_name nm i" "i < n"
  shows "\<exists>b'. register_client nm b = (Inr (PyBool True), b')"
proof -
  have "services (tw_lib (lib b)) = Some (map (\<lambda>i. new_cache_service CACHE_LIMIT (pipes (2 * i)) (pipes (2 * i + 1))) [0..<n])"
      "cache_svc (th (tw_lib (lib b))) = None"
    using assms(2) by (simp_all add: create_cache_services_def new_clib_def new_th_def Let_def)
  then have "fst (clib_register_client nm (tw_lib (lib b))) = Inr (Some 0)"
    using assms(3,4) by (simp add: clib_register_client_def is_initialized_def service_name_def list_index_def Let_def)
  moreover have "validate_dll b" using bound_register(3) [OF assms(1)] by (simp add: validate_dll_def)
  ultimately show ?thesis using bound_register(1) [OF assms(1)]
    by (cases "clib_register_client nm (tw_lib (lib b))") (simp add: register_client_def call_ptr_def api_simps)
qed

text \<open>The queues the driver created are empty and have room for ten messages.\<close>

lemma created_queues:
  assumes "j < n"
  shows "to_server (create_cache_services pipes n new_clib) j = []"
    "capacity (svc_c2s (get_svc j (create_cache_services pipes n new_clib))) = 10"
  using assms by (simp_all add: create_cache_services_def get_svc_def to_server_def new_cache_service_def Let_def CACHE_LIMIT_def)

lemma one_queue_fd: "\<exists>fd. map_of (rd_fds (create_cache_services pipes 1 new_clib)) fd = Some 0"
  by (simp add: create_cache_services_def Let_def new_clib_def)

text \<open>Plugins of the vendor fit into one queue.\<close>

lemma vendor_room:
  assumes "vendor_files items" "distinct (keys items)"
  shows "length items \<le> 3"
proof -
  have "set (keys items) \<subseteq> set vendor_names" using assms(1) by (auto simp: vendor_files_def list_all_iff)
  then have "card (set (keys items)) \<le> card (set vendor_names)" by (intro card_mono) simp_all
  moreover have "card (set vendor_names) \<le> 3" using card_length [of vendor_names] by (simp add: vendor_names_def)
  ultimately show ?thesis using distinct_card [OF assms(2)] by simp
qed

section \<open>From the configuration to the poll loop\<close>

text \<open>
  With the configuration read, the client registered and the plugins loaded, \<^verbatim>\<open>main_run\<close> is its poll loop and
  what follows.
\<close>

lemma main_run_polls:
  assumes "pcfg q = c" "is_running_config_available c = (Inr True, c)" "get_actions_conf c = (Inr conf, c)"
    "get_proc_plugins_conf nm c = (Inr (JObj items), c)" "register_client nm (pbind q) = (Inr ret, b)" "ret_truth ret"
    "load_plugins env conf items (q\<lparr>this_proc_name := nm, active := [], pipe_list := [], pcfg := c, pbind := b\<rparr>) = (Inr True, q2)"
    "pipe_list q2 \<noteq> []"
  shows "main_run env nm q = (case poll_loop env q2 of
      None \<Rightarrow> None | Some (Inl e, q3) \<Rightarrow> Some (Inl e, q3) | Some (Inr _, q3) \<Rightarrow> Some (leave nm q3))"
proof -
  have "wait_for_config env (q\<lparr>this_proc_name := nm, active := [], pipe_list := []\<rparr>) =
      Some (Inr (), q\<lparr>this_proc_name := nm, active := [], pipe_list := [], pcfg := c\<rparr>)"
    using assms(1,2) by (subst wait_for_config.simps) simp
  then show ?thesis using assms(3-) by (simp add: main_run_def Let_def)
qed

text \<open>\<^verbatim>\<open>main\<close> in a process thread: the driver has loaded the library already.\<close>

lemma main_starts:
  assumes "rc_fl \<noteq> ''''" "get_global_rc (set_global_rc_file rc_fl (pcfg q)) = (Inr rc, c)"
    "dict_get rc ''plugin_paths'' (JArr []) = JArr vs" "list_all (\<lambda>v. \<exists>s. v = JStr s) vs" "clib_dll (pbind q) = Test_Dll"
  shows "\<exists>ps. (\<forall>s. JStr s \<in> set vs \<longrightarrow> module_dir (ct_dir env) s \<in> set ps) \<and> plugin_proc_main env (c_lib_init nms dll tapi tinit) nm rc_fl q =
    run_until_stopped env nm (q\<lparr>pcfg := c, sys_path := ps, syslog_name := syslog_ident (argv0 env) nm, pbind := pbind q\<rparr>)"
proof -
  obtain ps where "append_paths (ct_dir env) vs (sys_path q) = (Inr (), ps)" using append_paths_str [OF assms(4)] by blast
  moreover from append_paths_has [OF this] have "\<forall>s. JStr s \<in> set vs \<longrightarrow> module_dir (ct_dir env) s \<in> set ps" by blast
  ultimately show ?thesis using assms by (intro exI [of _ ps]) (simp add: plugin_proc_main_def c_lib_init_def Let_def)
qed

text \<open>Registration over freshly created queues, and the driver's check.\<close>

lemma vendor_process_checked:
  assumes "loader env = vendor_module (Some ev) holds elsewhere" "\<forall>t. is_ok (ev t)" "vendor_conf conf" "vendor_files items"
    "path_ok holds elsewhere (sys_path q)" "distinct (keys items)" "\<forall>a \<in> set (keys items). enabled conf a" "items \<noteq> []" "active q = []"
    "testlib.bound (pbind q)" "tw_lib (lib (pbind q)) = create_cache_services pipes 1 new_clib" "env_wf (tw_env (lib (pbind q)))"
    "register_client nm (pbind q) = (Inr ret, b)" "ret_truth ret"
  shows "\<exists>q2 s. load_plugins env conf items (q\<lparr>pbind := b\<rparr>) = (Inr True, q2) \<and> pipe_list q2 \<noteq> [] \<and>
    keys (active q2) = keys items \<and> all_valid (active q2) \<and>
    check_registrations now [(nm, JObj items)] (replicate (Suc (length items)) [] @ senv) (tw_lib (lib (pbind q2))) =
      Some (Inr (False, True), senv, s)"
proof -
  have up: "tw_up (lib (pbind q))" using assms(11,12) by (simp add: tw_up_def created_up)
  note reg = register_client_lib [OF assms(10,13,14)]
  have "client_up (proc_lib q)" using up by (simp add: tw_up_def)
  from register_reg [OF this reg(1)] have lib: "client_reg (tw_lib (lib b))" "client_acts (tw_lib (lib b)) = []" by simp_all
  have keys: "filter (enabled conf) (keys items) = keys items" using assms(7) by (simp add: filter_id_conv del: set_map)
  obtain q2 where q2: "load_plugins env conf items (q\<lparr>pbind := b\<rparr>) = (Inr True, q2)" "all_valid (active q2)" "pipe_list q2 \<noteq> []"
    using vendor_plugins_load [OF assms(1-4), of "q\<lparr>pbind := b\<rparr>"] reg(2) lib assms(5,6,8,9) keys by (auto simp: all_valid_def)
  have room: "\<forall>j < num_svc (proc_lib q). to_server (proc_lib q) j = [] \<and> Suc (length items) \<le> capacity (svc_c2s (get_svc j (proc_lib q)))"
    using created_queues vendor_room [OF assms(4,6)] unfolding assms(11) by (simp add: num_svc_created)
  note st = startup_queues [OF assms(10) up assms(9) room assms(13,14) q2(1) assms(6)]
  obtain i where i: "announcing (proc_lib q2) i nm 0 (announcement nm (keys items))"
      "\<forall>j < num_svc (proc_lib q2). j \<noteq> i \<longrightarrow> to_server (proc_lib q2) j = []"
    using st keys by auto
  have ok: "services_ok (proc_lib q2)" "i < num_svc (proc_lib q2)"
    using i(1) by (auto simp: announcing_def client_reg_def clib_ok_def dest: th_ok_svc)
  have "num_svc (proc_lib q2) = 1" "rd_fds (proc_lib q2) = rd_fds (create_cache_services pipes 1 new_clib)"
    using st by (simp_all add: assms(11) num_svc_created)
  then obtain fd where "map_of (rd_fds (proc_lib q2)) fd = Some i" using one_queue_fd [of pipes] ok(2) by auto
  then have "queues (proc_lib q2) i fd (announcement nm (keys items))" using i ok by (simp add: queues_def announcing_def)
  then obtain s where "check_registrations now [(nm, JObj items)] (replicate (Suc (length items)) [] @ senv) (proc_lib q2) =
      Some (Inr (False, True), senv, s)"
    using announcement_checked [OF _ assms(6)] by blast
  moreover have "keys (active q2) = keys items" using st keys by simp
  ultimately show ?thesis using q2 by blast
qed

text \<open>A process in the configuration of a test case, over the library the driver has set up.\<close>

lemma configured_process_registers:
  assumes "configured vs (set_global_rc_file (rc_file p) (pcfg q)) p" "procs_conf p = [(nm, JObj items)]" "service_name nm 0"
    "vendor_files items" "items \<noteq> []" "distinct (keys items)" "vendor_conf (JObj (actions_conf p))"
    "\<forall>a \<in> set (keys items). enabled (JObj (actions_conf p)) a" "loader env = vendor_module (Some ev) holds elsewhere"
    "\<forall>t. is_ok (ev t)" "JStr s \<in> set vs" "holds (module_dir (ct_dir env) s)" "\<forall>dr. \<forall>a \<in> set vendor_names. elsewhere dr a = None"
    "testlib.bound (pbind q)" "tw_lib (lib (pbind q)) = create_cache_services pipes 1 new_clib" "env_wf (tw_env (lib (pbind q)))"
    "clib_dll (pbind q) = Test_Dll"
  shows "\<exists>q1 q2 st. plugin_proc_main env (c_lib_init nms dll tapi tinit) nm (rc_file p) q = run_until_stopped env nm q1 \<and>
    main_run env nm q1 = (case poll_loop env q2 of
      None \<Rightarrow> None | Some (Inl e, q3) \<Rightarrow> Some (Inl e, q3) | Some (Inr _, q3) \<Rightarrow> Some (leave nm q3)) \<and>
    keys (active q2) = keys items \<and> all_valid (active q2) \<and>
    check_registrations now [(nm, JObj items)] (replicate (Suc (length items)) [] @ senv) (tw_lib (lib (pbind q2))) =
      Some (Inr (False, True), senv, st)"
proof -
  have nm: "nm \<noteq> []" using assms(3) by (auto simp: service_name_def)
  have fl: "rc_file p \<noteq> []" using assms(1) absolute_not_Nil by (auto simp: configured_def files_ready_def)
  let ?conf = "JObj (actions_conf p)"
  obtain c rc where c: "get_global_rc (set_global_rc_file (rc_file p) (pcfg q)) = (Inr rc, c)"
      "dict_get rc ''plugin_paths'' (JArr []) = JArr vs" "list_all (\<lambda>v. \<exists>s. v = JStr s) vs"
      "is_running_config_available c = (Inr True, c)" "get_actions_conf c = (Inr ?conf, c)"
      "get_proc_plugins_conf nm c = (Inr (JObj items), c)"
    using configured_start [OF assms(1)] assms(2) nm by auto
  obtain ps where path: "\<forall>s. JStr s \<in> set vs \<longrightarrow> module_dir (ct_dir env) s \<in> set ps" and ps: "plugin_proc_main env (c_lib_init nms dll tapi tinit) nm (rc_file p) q = run_until_stopped env nm
      (q\<lparr>pcfg := c, sys_path := ps, syslog_name := syslog_ident (argv0 env) nm, pbind := pbind q\<rparr>)"
    using main_starts [OF fl c(1-3) assms(17), of env nms dll tapi tinit nm] by blast
  let ?q1 = "q\<lparr>pcfg := c, sys_path := ps, syslog_name := syslog_ident (argv0 env) nm, pbind := pbind q\<rparr>"
  let ?r = "?q1\<lparr>this_proc_name := nm, active := [], pipe_list := [], pcfg := c\<rparr>"
  have r: "active ?r = []" "testlib.bound (pbind ?r)" "tw_lib (lib (pbind ?r)) = create_cache_services pipes 1 new_clib"
      "env_wf (tw_env (lib (pbind ?r)))"
    using assms(14-16) by simp_all
  have found: "path_ok holds elsewhere (sys_path ?r)" using path assms(11-13) by (auto simp: path_ok_def)
  obtain b where b: "register_client nm (pbind ?r) = (Inr (PyBool True), b)"
    using client_registers [OF r(2,3) assms(3)] by auto
  have true: "ret_truth (PyBool True)" by simp
  obtain q2 st where q2: "load_plugins env ?conf items (?r\<lparr>pbind := b\<rparr>) = (Inr True, q2)"
      "pipe_list q2 \<noteq> []" "keys (active q2) = keys items" "all_valid (active q2)"
      "check_registrations now [(nm, JObj items)] (replicate (Suc (length items)) [] @ senv) (tw_lib (lib (pbind q2))) = Some (Inr (False, True), senv, st)"
    using vendor_process_checked [OF assms(9,10,7,4) found assms(6,8,5) r b true, of now senv] by blast
  have "main_run env nm ?q1 = (case poll_loop env q2 of
      None \<Rightarrow> None | Some (Inl e, q3) \<Rightarrow> Some (Inl e, q3) | Some (Inr _, q3) \<Rightarrow> Some (leave nm q3))"
    by (rule main_run_polls [OF _ c(4-6) _ true, where b = b]) (use b q2(1,2) in simp_all)
  with ps q2(3-5) show ?thesis by blast
qed

section \<open>Property\<close>

text \<open>C8. A test case with one process gets from its data to the poll loop. When the test data are well-formed, the client
  library is not loaded yet, the process has the name of the first service and runs vendor plugins that are enabled and
  whose configuration is usable, the vendors' directory is one of the \<^verbatim>\<open>plugin_paths\<close> of the default rc data and no
  directory has other modules of their names, and the event service is installed and gives handles: the driver starts a thread for the process with
  the rc file it wrote; \<^verbatim>\<open>main\<close>, called in this thread, reads the configuration back, registers, loads exactly
  the configured plugins and enters the poll loop; and the driver's check of the registrations that arrived accepts
  them, so the test goes on.\<close>

theorem testcase_process_registers:
  assumes "testcase_ok tc" "default_rc_ok tmp (drv_rc d)" "clib_dll (drv_bind d) = No_Dll" "TEST_RUN (drv_bind d)"
    "tw_lib (lib (drv_bind d)) = new_clib" "env_wf (tw_env (lib (drv_bind d)))"
    "conf_of tc ''procs_config'' = [(nm, JObj items)]" "service_name nm 0" "items \<noteq> []"
    "\<forall>(a, path) \<in> set items. a \<in> set vendor_names \<and> (\<exists>dr. path = JStr (path_join dr (a @ ''.py'')))"
    "\<forall>a \<in> set vendor_names. \<exists>kvs t. json_get (JObj (conf_of tc ''actions_config'')) a (JObj []) = Inr (JObj kvs) \<and>
       dict_get kvs REQ_HEARTBEAT_INTERVAL (JInt 2) = JInt t"
    "\<forall>a \<in> set (keys items). enabled (JObj (conf_of tc ''actions_config'')) a"
    "loader env = vendor_module (Some ev) holds elsewhere" "\<forall>t. is_ok (ev t)"
    "map_of (drv_rc d) ''plugin_paths'' = Some (JArr vs)" "JStr vdir \<in> set vs" "holds (module_dir (ct_dir env) vdir)"
    "\<forall>dr. \<forall>a \<in> set vendor_names. elsewhere dr a = None" "init = c_lib_init nms dll test_api (test_init pipes)"
  shows "\<exists>p d' q1 q2 s. start_testcase sh init dir tmp test_case tc d = (Inr (Some p), d') \<and>
    map_of (lst_procs d') nm = Some (rc_file p) \<and>
    plugin_proc_main env init nm (rc_file p) (q\<lparr>pcfg := tw_cfg (lib (drv_bind d')), pbind := drv_bind d'\<rparr>) =
      run_until_stopped env nm q1 \<and>
    main_run env nm q1 = (case poll_loop env q2 of
      None \<Rightarrow> None | Some (Inl e, q3) \<Rightarrow> Some (Inl e, q3) | Some (Inr _, q3) \<Rightarrow> Some (leave nm q3)) \<and>
    keys (active q2) = keys items \<and> list_all (\<lambda>(a, h). is_valid h) (active q2) \<and>
    check_registrations now (procs_conf p) (replicate (Suc (length items)) [] @ senv) (tw_lib (lib (pbind q2))) =
      Some (Inr (False, True), senv, s)"
proof -
  have len: "0 < length (conf_of tc ''procs_config'')" "length (conf_of tc ''procs_config'') \<le> 100" using assms(7) by simp_all
  obtain p d' where d: "start_testcase sh init dir tmp test_case tc d = (Inr (Some p), d')" "sections_of tc p"
      "configured vs (set_global_rc_file (rc_file p) (drv_cfg d')) p"
      "tw_lib (lib (drv_bind d')) = create_cache_services pipes (length (procs_conf p)) new_clib" "clib_dll (drv_bind d') = Test_Dll"
      "testlib.bound (drv_bind d')" "tw_env (lib (drv_bind d')) = tw_env (lib (drv_bind d))"
      "\<forall>nm \<in> set (keys (procs_conf p)). map_of (lst_procs d') nm = Some (rc_file p)"
    using testcase_started [OF assms(1-5) len, of sh nms dll pipes dir test_case] unfolding assms(19) using assms(15) by (metis json.inject(4) option.inject)
  have sec: "procs_conf p = [(nm, JObj items)]" "actions_conf p = conf_of tc ''actions_config''"
    using d(2) assms(7) by (simp_all add: sections_of_def)
  have "wf_json (JObj (conf_of tc ''procs_config''))" using conf_section(1) [OF assms(1), of "''procs_config''"] by (auto simp: conf_attrs_def)
  then have dist: "distinct (keys items)" by (simp add: assms(7))
  let ?q = "q\<lparr>pcfg := drv_cfg d', pbind := drv_bind d'\<rparr>"
  have conf: "vendor_conf (JObj (actions_conf p))" "\<forall>a \<in> set (keys items). enabled (JObj (actions_conf p)) a"
    using assms(11,12) by (simp_all add: vendor_conf_def sec(2))
  have q: "configured vs (set_global_rc_file (rc_file p) (pcfg ?q)) p" "testlib.bound (pbind ?q)"
      "tw_lib (lib (pbind ?q)) = create_cache_services pipes 1 new_clib" "env_wf (tw_env (lib (pbind ?q)))" "clib_dll (pbind ?q) = Test_Dll"
    using d sec(1) assms(6) by simp_all
  obtain q1 q2 s where "plugin_proc_main env init nm (rc_file p) ?q = run_until_stopped env nm q1"
      "main_run env nm q1 = (case poll_loop env q2 of
        None \<Rightarrow> None | Some (Inl e, q3) \<Rightarrow> Some (Inl e, q3) | Some (Inr _, q3) \<Rightarrow> Some (leave nm q3))"
      "keys (active q2) = keys items" "all_valid (active q2)"
      "check_registrations now [(nm, JObj items)] (replicate (Suc (length items)) [] @ senv) (tw_lib (lib (pbind q2))) = Some (Inr (False, True), senv, s)"
    using configured_process_registers [OF q(1) sec(1) assms(8) vendor_files_of [OF assms(10)] assms(9) dist conf assms(13,14,16-18) q(2-5),
        of nms dll test_api "test_init pipes" now senv] unfolding assms(19) by blast
  then show ?thesis
    by (intro exI [of _ p] exI [of _ d'] exI [of _ q1] exI [of _ q2] exI [of _ s])
      (use d(1,8) sec(1) in \<open>simp add: all_valid_def is_valid_def\<close>)
qed

lemma testcase_process_registers_witness:
  "\<exists>p d' q1 (q2 :: test_world proc) s. start_testcase (\<lambda>_ fs. fs) (c_lib_init common_names no_cdll test_api (test_init sample_pipes)) ''/t'' ''/t'' ''test-0''
       sample_testcase sample_driver = (Inr (Some p), d') \<and>
     plugin_proc_main (vendor_env (module_dir ''/p'' ''./vendors/sonic/actions'')\<lparr>ct_dir := ''/p''\<rparr>)
       (c_lib_init common_names no_cdll test_api (test_init sample_pipes)) ''proc_0'' (rc_file p)
       (live_proc\<lparr>pcfg := tw_cfg (lib (drv_bind d')), pbind := drv_bind d'\<rparr>) =
     run_until_stopped (vendor_env (module_dir ''/p'' ''./vendors/sonic/actions'')\<lparr>ct_dir := ''/p''\<rparr>) ''proc_0'' q1 \<and>
     keys (active q2) = [''link_flap''] \<and>
     check_registrations int (procs_conf p) [[], []] (tw_lib (lib (pbind q2))) = Some (Inr (False, True), [], s)"
proof -
  let ?items = "[(''link_flap'', JStr ''link_flap.py'')]"
  let ?env = "vendor_env (module_dir ''/p'' ''./vendors/sonic/actions'')\<lparr>ct_dir := ''/p''\<rparr>"
  let ?other = "\<lambda>(d :: string) nm. if nm = ''test_action'' then Some (\<lambda>_. Inr (nm, True)) else None"
  let ?vs = "[JStr ''.'', JStr ''./vendors/sonic/actions'', JStr ''./vendors/sonic/support'', JStr ''../tests/plugins'', JStr ''../tests/lib'']"
  have d: "default_rc_ok ''/t'' (drv_rc sample_driver)" "clib_dll (drv_bind sample_driver) = No_Dll" "TEST_RUN (drv_bind sample_driver)"
      "tw_lib (lib (drv_bind sample_driver)) = new_clib" "env_wf (tw_env (lib (drv_bind sample_driver)))"
    using sample_test_data(2) by (simp_all add: sample_driver_def sample_bind_def sample_world_def env_wf_def)
  have nm: "service_name ''proc_0'' 0" by (simp add: service_name_def split_proc_0 py_int_0)
  have actions: "conf_of sample_testcase ''actions_config'' = [(''link_flap'', JObj [(''min'', JInt 80)])]"
    by (simp add: sample_testcase_def conf_of_def public_def private_key_def startswith_def)
  have files: "\<forall>(a, path) \<in> set ?items. a \<in> set vendor_names \<and> (\<exists>dr. path = JStr (path_join dr (a @ ''.py'')))"
    by (simp add: vendor_names_def path_join_def startswith_def exI [of _ "''''"])
  have confs: "\<forall>a \<in> set vendor_names. \<exists>kvs t. json_get (JObj (conf_of sample_testcase ''actions_config'')) a (JObj []) = Inr (JObj kvs) \<and>
      dict_get kvs REQ_HEARTBEAT_INTERVAL (JInt 2) = JInt t"
    by (simp add: actions vendor_names_def REQ_HEARTBEAT_INTERVAL_def dict_get_def)
  have on: "\<forall>a \<in> set (keys ?items). enabled (JObj (conf_of sample_testcase ''actions_config'')) a"
    by (simp add: actions enabled_def dict_get_def)
  have rest: "?items \<noteq> []" "keys ?items = [''link_flap'']" "replicate (Suc (length ?items)) [] @ [] = [[], []]" by simp_all
  have ld: "loader ?env = vendor_module (Some (\<lambda>_. Inr ())) (\<lambda>d. d = module_dir ''/p'' ''./vendors/sonic/actions'') ?other"
    by (simp add: vendor_env_def)
  have path: "map_of (drv_rc sample_driver) ''plugin_paths'' = Some (JArr ?vs)" "JStr ''./vendors/sonic/actions'' \<in> set ?vs"
      "module_dir (ct_dir ?env) ''./vendors/sonic/actions'' = module_dir ''/p'' ''./vendors/sonic/actions''"
      "\<forall>dr. \<forall>a \<in> set vendor_names. ?other dr a = None"
    by (simp_all add: sample_driver_def sample_default_rc_def vendor_names_def)
  have ev: "\<forall>t. is_ok ((\<lambda>_. Inr ()) (t :: json option) :: unit res)" by simp
  note start = testcase_process_registers [OF sample_test_data(1) d sample_test_data(3) nm rest(1) files confs on ld ev path refl,
      of "\<lambda>_ fs. fs" common_names no_cdll sample_pipes "''/t''" "''test-0''" live_proc int "[]", unfolded rest(2,3)]
  show ?thesis
    by (rule start [THEN exE]) (elim exE conjE, intro exI conjI, assumption+)
qed

end
