(* ===== verification/Spec2Isabelle.thy ===== *)
theory Spec2Isabelle
  imports Prelude FifoInterface PyStd PyJson Gvars Config CacheData CacheThreads ClientLib ActionMsg ClibBind
    TestLibrary PluginInterface LinkFlap LinkMitigation Publish PluginHolder PluginProc Delivery
    Startup Registration AnomalyEngine EngineRun MitigationRun TestPlugin StandAlone
    JsonIndent VendorPlugins DriverConfig DriverRun TestStart
begin

text \<open>
  Device health: the Python plugin process of a health-monitoring service for switches. Paths
  below are under \<^verbatim>\<open>src/src-c-python/python_plugins\<close>.

  \<^bold>\<open>The program.\<close> A plugin process (\<^verbatim>\<open>src/plugin_proc.py\<close>) loads the plugins its
  configuration names, registers each plugin's action with a server, and then polls: a request
  of the server starts the action's plugin in a thread of its own, and a byte on the plugin's pipe tells
  the main thread to send a heartbeat or the plugin's response. The server is reached through a client
  library: in production a C library bound by \<^verbatim>\<open>src/clib_bind.py\<close>, in test mode the Python
  module \<^verbatim>\<open>tests/lib/test_client.py\<close>, where one bounded queue per direction and process stands for
  the transport. \<^verbatim>\<open>src/common.py\<close> reads the configuration. The vendor plugins
  (\<^verbatim>\<open>src/vendors/sonic/actions\<close>) detect a flapping link, check that enough links are up, and
  bring a link down.

  \<^bold>\<open>Theories and code.\<close>
  \<^item> \<^verbatim>\<open>Prelude\<close>, \<^verbatim>\<open>PyStd\<close>, \<^verbatim>\<open>PyJson\<close>: the exceptions a statement can raise, results that are a
    value or an exception (\<open>bind_res\<close>; \<open>bind_st\<close> when the state survives the exception),
    dictionaries in insertion order, and what the program uses of Python's strings, integers,
    \<^verbatim>\<open>os.path\<close> and \<^verbatim>\<open>json\<close>. Texts are lists of characters up to 255, JSON numbers are integers.
    \<^verbatim>\<open>JsonIndent\<close>: JSON printed over several lines, read by the same reader.
  \<^item> \<^verbatim>\<open>Gvars\<close>: \<^verbatim>\<open>src/gvars.py\<close>. \<^verbatim>\<open>Config\<close>: \<^verbatim>\<open>src/common.py\<close>; the state is the rc file's path,
    the cached rc data and the file system as the text of each file.
  \<^item> \<^verbatim>\<open>FifoInterface\<close>, \<^verbatim>\<open>CacheData\<close>: the locale \<open>bounded_fifo\<close>, and class \<^verbatim>\<open>CacheData\<close> of the test
    client as its interpretation \<open>ring\<close>; the waiting \<^verbatim>\<open>read\<close>. \<^verbatim>\<open>CacheThreads\<close>: the same class
    between a writing and a reading thread without a lock, one shared access per step.
  \<^item> \<^verbatim>\<open>ClientLib\<close>: the rest of the test client: services, the thread's registration, the mocked
    calls, \<^verbatim>\<open>_poll\<close>, and the server's side. \<^verbatim>\<open>ActionMsg\<close>, \<^verbatim>\<open>ClibBind\<close>: \<^verbatim>\<open>src/clib_bind.py\<close>,
    its two message classes and its wrappers over a table of library calls. What the process relies
    on is the locale \<open>client_library\<close>; \<^verbatim>\<open>TestLibrary\<close> proves it for the test client (interpretation
    \<open>testlib\<close>).
  \<^item> \<^verbatim>\<open>PluginInterface\<close>, \<^verbatim>\<open>LinkFlap\<close>, \<^verbatim>\<open>LinkMitigation\<close>: a plugin's \<^verbatim>\<open>request\<close> as steps that call
    back or end, the locale \<open>request_plugin\<close> of what every plugin answers, and the three vendor
    plugins as its interpretations \<open>flap\<close>, \<open>safety\<close>, \<open>down\<close>; \<^verbatim>\<open>TestPlugin\<close>: the plugin of the tests
    (\<^verbatim>\<open>tests/plugins/test_action.py\<close>) as the interpretation \<open>scripted\<close>. \<^verbatim>\<open>StandAlone\<close>: the script
    \<^verbatim>\<open>src/vendors/sonic/actions/test.py\<close> over the three vendor plugins. \<^verbatim>\<open>Publish\<close>:
    \<^verbatim>\<open>src/vendors/sonic/support/helpers.py\<close>.
  \<^item> \<^verbatim>\<open>PluginHolder\<close>: class \<^verbatim>\<open>LoMPluginHolder\<close>, its methods and the interleaving of the main thread
    with the request thread. \<^verbatim>\<open>PluginProc\<close>: the rest of \<^verbatim>\<open>src/plugin_proc.py\<close>; the locale
    \<open>polling_library\<close> extends \<open>client_library\<close> by what the poll loop relies on (interpretation
    \<open>testproc\<close>).
  \<^item> \<^verbatim>\<open>Delivery\<close>: a request from the server's broadcast to the plugin, and a response from the
    plugin to the server's read, over all of the above.
  \<^item> \<^verbatim>\<open>Startup\<close>: what a process announces when it starts. \<^verbatim>\<open>VendorPlugins\<close>: the vendor modules as what a
    process imports, with the search along its module path. \<^verbatim>\<open>Registration\<close>: how the test driver checks the announcement (\<^verbatim>\<open>tests/test_main.py\<close>,
    \<^verbatim>\<open>run_a_testcase\<close>). \<^verbatim>\<open>DriverConfig\<close>: what the driver does before it, from the test data to the
    configuration files, the library and the threads. \<^verbatim>\<open>DriverRun\<close>: the function as a whole, over the client
    library: files, registrations, handlers, their requests, shutdown, and waiting for the threads.
    \<^verbatim>\<open>TestStart\<close>: the driver, a process it starts and the vendor plugins together, up to the poll loop and
    the driver's check.
  \<^item> \<^verbatim>\<open>AnomalyEngine\<close>: the engine of the tests, which acts as the server (\<^verbatim>\<open>tests/test_main.py\<close>): class
    \<^verbatim>\<open>AnomalyHandler\<close>, the mitigation lock its objects share, and the loop over them.
    \<^verbatim>\<open>EngineRun\<close>: a run with one anomaly from its request to its end. \<^verbatim>\<open>MitigationRun\<close>: from a flap report through
    the engine and the safety check to the command of the mitigation.

  \<^bold>\<open>What the lemmas show.\<close> The queue loses, repeats and reorders nothing, alone and between two
  threads, and its reader is woken. Every sequence of calls keeps the client library
  well-formed. The responses of a plugin reach the library once and in order however the two threads
  interleave, and no wake-up is lost. The one exception of the holder's own methods in the main thread is the one of a
  request that comes too early; serving a request of a type that is neither an action nor a shutdown raises another.
  Reading and serving requests ends once the server pauses; every registered action has
  its plugin; a request that the server broadcasts starts its plugin with this request, and a
  stored response reaches the server. Flap detection implements a specification by
  the time of the last down event; the data it reports makes the mitigation shut down that very link.
  A process configured with the vendor plugins loads them; one that starts announces exactly the plugins it runs,
  and the driver's check accepts it. What the driver writes into its files is what every process reads from them,
  so that a test case with one process gets from its data to the poll loop with the configured plugins registered.
  The engine's lock is held by at most one handler, and mitigations are requested only under it; a test run whose
  requests are answered ends, with every process sent the bound actions in order and then the shutdown. The handler
  of a plugin's pipe ends, and a scripted plugin ends after the rounds its pause and heartbeat interval give.
  Requests and JSON values survive printing and parsing. Several properties state what the code
  does where it does not do what it means to, such as the library that never loads in
  production or the reload that never happens.

  \<^bold>\<open>Time, threads, fuel.\<close> A call that can wait takes what the other threads and the server do during
  each wait, one list element per \<^verbatim>\<open>select\<close>; an exhausted list means that it is still
  waiting (\<open>None\<close>). Loops that need not end are \<^verbatim>\<open>partial_function (option)\<close>: \<open>None\<close> is a run that
  has not returned, and that the serving loop returns once the server pauses is proved by the backlog that each turn
  makes smaller. \<open>handler_run\<close> takes a number of steps: seven are enough for the longest path through the
  handler. Around the main thread, the record \<open>surroundings\<close> has the clock, the signals
  delivered, the steps of the request threads, what the server writes to the library meanwhile, and what the system hands
  out.

  \<^bold>\<open>Parameters.\<close> The C library and the symbols it exports, the event service of the switch, the
  shell and what its commands do to files, which modules the directories of the module path hold beside the vendor
  ones, and how Python prints floats and containers. The share
  of links that are up is a rational number where the code has a float.

  \<^bold>\<open>Not modelled.\<close> Log output, except for the log functions themselves and the event log of
  \<^verbatim>\<open>helpers.py\<close>; a log call's arguments are modelled where their evaluation raises. Floats in JSON
  and texts beyond Latin-1. \<^verbatim>\<open>src/misc.py\<close> and \<^verbatim>\<open>services/cfg_monitor.py\<close> are not valid Python. The
  parsing of command lines. The C++ library and the YANG schemas. In test mode the process and the library read the
  configuration through one cache; here each has its own, and only the driver shares the library's. The threads the
  driver starts are in its state with the rc file each was given; their runs are the model of the plugin process, and
  what they write meanwhile is an argument of the driver's loops.
\<close>

end
